(* ===== verification/Prelude.thy ===== *)
theory Prelude
  imports Main "HOL-Library.Word" "HOL-Library.Monad_Syntax"
begin

text \<open>
  Shared vocabulary of the development: the widths of the C integers, little-endian
  16-bit reads, checked accesses to byte buffers (an access outside the buffer is
  undefined behaviour in C, here the value \<open>None\<close>), and the lemmas about them
  that the component theories use.
\<close>

unbundle bit_operations_syntax

text \<open>Local bindings of the code (\<open>let\<close> in the model) are always unfolded.\<close>

declare Let_def [simp]

section \<open>Widths\<close>

type_synonym u8 = "8 word"
type_synonym u16 = "16 word"
type_synonym u32 = "32 word"
type_synonym bytes = "8 word list"

named_theorems buf_simps \<open>checked buffer accesses and little-endian reads\<close>

text \<open>The C cast \<open>(uint16_t)n\<close> of a length computed in a wider type.\<close>

definition to_u16 :: "nat \<Rightarrow> nat" where
  "to_u16 n = n mod 65536"

lemma to_u16_less [simp]: "to_u16 n < 65536"
  by (simp add: to_u16_def)

lemma to_u16_id [simp]: "n < 65536 \<Longrightarrow> to_u16 n = n"
  by (simp add: to_u16_def)

text \<open>\<open>(uint16_t)lo | ((uint16_t)hi << 8u)\<close>, the read used on every HCI field.\<close>

definition le16 :: "u8 \<Rightarrow> u8 \<Rightarrow> u16" where
  "le16 lo hi = ucast lo OR push_bit 8 (ucast hi)"

lemma unat_u8_less [simp]: "unat (b :: u8) < 256"
  using unsigned_less [of b] by simp

lemma unat_u16_less: "unat (v :: u16) < 65536"
  using unsigned_less [of v] by simp

lemma le16_add: "le16 lo hi = ucast lo + push_bit 8 (ucast hi)"
proof -
  have "(ucast lo :: u16) + push_bit 8 (ucast hi) = ucast lo OR push_bit 8 (ucast hi)"
    by (rule disjunctive_add_eq_or) (auto simp: bit_eq_iff bit_simps dest: bit_imp_le_length)
  then show ?thesis by (simp add: le16_def)
qed

lemma unat_le16 [buf_simps]: "unat (le16 lo hi) = unat lo + 256 * unat hi"
proof -
  have lo: "unat lo < 256" and hi: "unat hi < 256" by simp_all
  have p: "push_bit 8 (ucast hi :: u16) = ucast hi * 256"
    by (simp add: push_bit_eq_mult)
  have "unat (ucast lo + ucast hi * 256 :: u16) = (unat lo + unat hi * 256) mod 65536"
    by (simp add: unat_word_ariths unsigned_ucast_eq take_bit_eq_mod mod_simps)
  moreover have "unat lo + unat hi * 256 < 65536"
    using lo hi by linarith
  ultimately have "unat (ucast lo + ucast hi * 256 :: u16) = unat lo + 256 * unat hi"
    by (simp only: mod_less mult.commute)
  then show ?thesis using p by (simp add: le16_add)
qed

text \<open>The two bytes of a 16-bit value as the code writes them: \<open>(uint8_t)(v & 0xff)\<close>
  and \<open>(uint8_t)(v >> 8u)\<close>.\<close>

definition lo8 :: "u16 \<Rightarrow> u8" where
  "lo8 v = ucast (v AND 0xff)"

definition hi8 :: "u16 \<Rightarrow> u8" where
  "hi8 v = ucast (drop_bit 8 v)"

lemma le16_lo8_hi8 [simp]: "le16 (lo8 v) (hi8 v) = v"
proof (rule bit_word_eqI)
  fix n assume n: "n < LENGTH(16)"
  have m: "bit (255 :: u16) n = (n < 8)"
  proof -
    have "(255 :: u16) = mask 8" by (simp add: mask_eq_exp_minus_1)
    then show ?thesis using n by (simp only: bit_mask_iff) simp
  qed
  show "bit (le16 (lo8 v) (hi8 v)) n = bit v n"
    using n m by (auto simp: le16_def lo8_def hi8_def bit_simps)
qed

lemma word_and_1_even: "(v :: 'a :: len word) AND 1 = 0 \<longleftrightarrow> even (unat v)"
proof -
  have "v AND 1 = 0 \<longleftrightarrow> even v"
    by (simp add: and_one_eq even_iff_mod_2_eq_zero)
  also have "even v \<longleftrightarrow> even (unat v)"
    by transfer (simp add: even_nat_iff)
  finally show ?thesis .
qed

lemma byte_ff_and [simp]: "(255 :: u8) AND b = b"
proof -
  have "(255 :: u8) = - 1" by simp
  then show ?thesis by (simp only: and.left_neutral)
qed

section \<open>Checked buffers\<close>

text \<open>
  \<open>rd xs i\<close> is the C read \<open>xs[i]\<close>, \<open>wr xs i v\<close> the write \<open>xs[i] = v\<close>,
  \<open>memcpy_at dst off src\<close> is \<open>memcpy(&dst[off], src, length src)\<close>. Outside the
  buffer each is \<open>None\<close>: a result \<open>Some\<close> of a model function shows that every
  access it made was in bounds.
\<close>

definition rd :: "'a list \<Rightarrow> nat \<Rightarrow> 'a option" where
  "rd xs i = (if i < length xs then Some (xs ! i) else None)"

definition wr :: "'a list \<Rightarrow> nat \<Rightarrow> 'a \<Rightarrow> 'a list option" where
  "wr xs i v = (if i < length xs then Some (xs[i := v]) else None)"

definition memcpy_at :: "'a list \<Rightarrow> nat \<Rightarrow> 'a list \<Rightarrow> 'a list option" where
  "memcpy_at dst off src =
     (if off + length src \<le> length dst
      then Some (take off dst @ src @ drop (off + length src) dst) else None)"

definition sub_bytes :: "'a list \<Rightarrow> nat \<Rightarrow> nat \<Rightarrow> 'a list option" where
  "sub_bytes xs off n = (if off + n \<le> length xs then Some (take n (drop off xs)) else None)"

lemma rd_Some [simp]: "i < length xs \<Longrightarrow> rd xs i = Some (xs ! i)"
  by (simp add: rd_def)

lemma wr_Some [simp]: "i < length xs \<Longrightarrow> wr xs i v = Some (xs[i := v])"
  by (simp add: wr_def)

lemma memcpy_at_Some [simp]:
  "off + length src \<le> length dst \<Longrightarrow>
   memcpy_at dst off src = Some (take off dst @ src @ drop (off + length src) dst)"
  by (simp add: memcpy_at_def)

lemma sub_bytes_Some [simp]:
  "off + n \<le> length xs \<Longrightarrow> sub_bytes xs off n = Some (take n (drop off xs))"
  by (simp add: sub_bytes_def)

lemma rd_eq_Some [buf_simps]: "rd xs i = Some x \<longleftrightarrow> i < length xs \<and> x = xs ! i"
  by (auto simp: rd_def)

lemma wr_eq_Some [buf_simps]: "wr xs i v = Some ys \<longleftrightarrow> i < length xs \<and> ys = xs[i := v]"
  by (auto simp: wr_def)

lemma memcpy_at_eq_Some [buf_simps]:
  "memcpy_at dst off src = Some ys \<longleftrightarrow> off + length src \<le> length dst \<and>
     ys = take off dst @ src @ drop (off + length src) dst"
  by (auto simp: memcpy_at_def)

lemma sub_bytes_eq_Some [buf_simps]:
  "sub_bytes xs off n = Some ys \<longleftrightarrow> off + n \<le> length xs \<and> ys = take n (drop off xs)"
  by (auto simp: sub_bytes_def)

lemma drop_prefix: "length xs = n \<Longrightarrow> drop n (xs @ ys) = ys"
  by simp

lemma take_Suc_update [simp]:
  "i < length xs \<Longrightarrow> take (Suc i) (xs[i := v]) = take i xs @ [v]"
  by (simp add: take_Suc_conv_app_nth)

section \<open>Ring indices\<close>

text \<open>
  The three ring buffers of the program keep a head (next slot to write) and a tail
  (next slot to read) in \<open>0 ..< n\<close>. Equal indices mean empty, so one slot stays free.
\<close>

definition ring_len :: "nat \<Rightarrow> nat \<Rightarrow> nat \<Rightarrow> nat" where
  "ring_len n h t = (h + n - t) mod n"

definition ring_list :: "'a list \<Rightarrow> nat \<Rightarrow> nat \<Rightarrow> 'a list" where
  "ring_list buf h t =
     map (\<lambda>i. buf ! ((t + i) mod length buf)) [0..<ring_len (length buf) h t]"

lemma ring_len_less: "0 < n \<Longrightarrow> ring_len n h t < n"
  by (simp add: ring_len_def)

lemma ring_len_zero: "h < n \<Longrightarrow> t < n \<Longrightarrow> ring_len n h t = 0 \<longleftrightarrow> h = t"
  by (auto simp: ring_len_def mod_if split: if_splits)

lemma ring_len_self [simp]: "t < n \<Longrightarrow> ring_len n t t = 0"
  by (simp add: ring_len_def)

lemma ring_len_push:
  "h < n \<Longrightarrow> t < n \<Longrightarrow> (h + 1) mod n \<noteq> t \<Longrightarrow>
   ring_len n ((h + 1) mod n) t = Suc (ring_len n h t)"
  by (auto simp: ring_len_def mod_if split: if_splits)

lemma ring_len_pop:
  "h < n \<Longrightarrow> t < n \<Longrightarrow> h \<noteq> t \<Longrightarrow>
   ring_len n h t = Suc (ring_len n h ((t + 1) mod n))"
  by (auto simp: ring_len_def mod_if split: if_splits)

lemma ring_len_full:
  "h < n \<Longrightarrow> t < n \<Longrightarrow> (h + 1) mod n = t \<longleftrightarrow> ring_len n h t = n - 1"
  by (cases "n = 1") (auto simp: ring_len_def mod_if split: if_splits)

lemma ring_head_pos:
  "h < n \<Longrightarrow> t < n \<Longrightarrow> (t + ring_len n h t) mod n = h"
  by (auto simp: ring_len_def mod_if split: if_splits)

lemma length_ring_list [simp]:
  "length (ring_list buf h t) = ring_len (length buf) h t"
  by (simp add: ring_list_def)

lemma ring_list_empty [simp]: "t < length buf \<Longrightarrow> ring_list buf t t = []"
  by (simp add: ring_list_def)

lemma ring_pos_inj:
  "i < n \<Longrightarrow> j < n \<Longrightarrow> t < n \<Longrightarrow> (t + i) mod n = (t + j) mod n \<Longrightarrow> i = (j::nat)"
  by (auto simp: mod_if split: if_splits)

lemma ring_list_push:
  assumes h: "h < length buf" and t: "t < length buf"
    and free: "(h + 1) mod length buf \<noteq> t"
  shows "ring_list (buf[h := x]) ((h + 1) mod length buf) t = ring_list buf h t @ [x]"
proof -
  let ?n = "length buf" and ?k = "ring_len (length buf) h t"
  have k: "ring_len ?n ((h + 1) mod ?n) t = Suc ?k"
    by (rule ring_len_push [OF h t free])
  have pos: "(t + ?k) mod ?n = h" by (rule ring_head_pos [OF h t])
  have "?k < ?n" using h by (intro ring_len_less) auto
  have old: "buf[h := x] ! ((t + i) mod ?n) = buf ! ((t + i) mod ?n)" if "i < ?k" for i
  proof -
    have "(t + i) mod ?n \<noteq> h"
      using that pos ring_pos_inj [of i ?n ?k t] t \<open>?k < ?n\<close> by auto
    then show ?thesis by simp
  qed
  have "map (\<lambda>i. buf[h := x] ! ((t + i) mod ?n)) [0..<?k] = ring_list buf h t"
    unfolding ring_list_def by (rule map_cong) (auto simp: old)
  with k pos h show ?thesis by (simp add: ring_list_def)
qed

lemma ring_list_pop:
  assumes h: "h < length buf" and t: "t < length buf" and ne: "h \<noteq> t"
  shows "ring_list buf h t = buf ! t # ring_list buf h ((t + 1) mod length buf)"
proof -
  let ?n = "length buf" and ?k = "ring_len (length buf) h ((t + 1) mod length buf)"
  have k: "ring_len ?n h t = Suc ?k" by (rule ring_len_pop [OF h t ne])
  have shift: "((t + 1) mod ?n + i) mod ?n = (t + Suc i) mod ?n" for i
    using mod_add_left_eq [of "t + 1" ?n i] by simp
  show ?thesis
    unfolding ring_list_def k upt_conv_Cons [OF zero_less_Suc] map_Suc_upt [symmetric]
    using t shift by (simp add: o_def)
qed

end
