(* ===== verification/Hci_Packet.thy ===== *)
theory Hci_Packet
  imports Prelude
begin

text \<open>
  \<open>include/hci_packet.h\<close>: the packet indicator, the opcodes and the event codes of the
  Bluetooth HCI that the firmware looks at, and the maximal packet sizes.
  A value of the C enum that comes from a cast of a received byte may lie outside the
  enumerators; \<open>HCI_PKT_OTHER\<close> holds such a byte.
\<close>

datatype hci_packet_type =
    HCI_PKT_COMMAND
  | HCI_PKT_ACL
  | HCI_PKT_SCO
  | HCI_PKT_EVENT
  | HCI_PKT_OTHER u8

fun hci_packet_type_byte :: "hci_packet_type \<Rightarrow> u8" where
  "hci_packet_type_byte HCI_PKT_COMMAND = 0x01"
| "hci_packet_type_byte HCI_PKT_ACL = 0x02"
| "hci_packet_type_byte HCI_PKT_SCO = 0x03"
| "hci_packet_type_byte HCI_PKT_EVENT = 0x04"
| "hci_packet_type_byte (HCI_PKT_OTHER b) = b"

text \<open>The cast \<open>(hci_packet_type_t)b\<close>.\<close>

definition hci_packet_type_of :: "u8 \<Rightarrow> hci_packet_type" where
  "hci_packet_type_of b =
     (if b = 0x01 then HCI_PKT_COMMAND
      else if b = 0x02 then HCI_PKT_ACL
      else if b = 0x03 then HCI_PKT_SCO
      else if b = 0x04 then HCI_PKT_EVENT
      else HCI_PKT_OTHER b)"

lemma hci_packet_type_byte_of [simp]: "hci_packet_type_byte (hci_packet_type_of b) = b"
  by (simp add: hci_packet_type_of_def)

lemma hci_packet_type_of_byte [simp]:
  "t \<in> {HCI_PKT_COMMAND, HCI_PKT_ACL, HCI_PKT_SCO, HCI_PKT_EVENT} \<Longrightarrow>
   hci_packet_type_of (hci_packet_type_byte t) = t"
  by (auto simp: hci_packet_type_of_def)

abbreviation (input) HCI_CMD_MAX_LEN :: nat where "HCI_CMD_MAX_LEN \<equiv> 260"
abbreviation (input) HCI_EVENT_MAX_LEN :: nat where "HCI_EVENT_MAX_LEN \<equiv> 260"
abbreviation (input) HCI_ACL_MAX_LEN :: nat where "HCI_ACL_MAX_LEN \<equiv> 2048"

definition HCI_OPCODE :: "u16 \<Rightarrow> u16 \<Rightarrow> u16" where
  "HCI_OPCODE ogf ocf = push_bit 10 ogf OR (ocf AND 0x03ff)"

definition HCI_OPCODE_RESET :: u16 where
  "HCI_OPCODE_RESET = HCI_OPCODE 0x03 0x0003"
definition HCI_OPCODE_READ_LOCAL_VERSION :: u16 where
  "HCI_OPCODE_READ_LOCAL_VERSION = HCI_OPCODE 0x04 0x0001"
definition HCI_OPCODE_READ_LOCAL_EXTENDED_FEATURES :: u16 where
  "HCI_OPCODE_READ_LOCAL_EXTENDED_FEATURES = HCI_OPCODE 0x04 0x0004"
definition HCI_OPCODE_READ_BD_ADDR :: u16 where
  "HCI_OPCODE_READ_BD_ADDR = HCI_OPCODE 0x04 0x0009"
definition HCI_OPCODE_SET_EVENT_MASK :: u16 where
  "HCI_OPCODE_SET_EVENT_MASK = HCI_OPCODE 0x03 0x0001"
definition HCI_OPCODE_LE_SET_EVENT_MASK :: u16 where
  "HCI_OPCODE_LE_SET_EVENT_MASK = HCI_OPCODE 0x08 0x0001"
definition HCI_OPCODE_LE_SET_RANDOM_ADDRESS :: u16 where
  "HCI_OPCODE_LE_SET_RANDOM_ADDRESS = HCI_OPCODE 0x08 0x0005"
definition HCI_OPCODE_LE_SET_SCAN_PARAMETERS :: u16 where
  "HCI_OPCODE_LE_SET_SCAN_PARAMETERS = HCI_OPCODE 0x08 0x000b"
definition HCI_OPCODE_LE_SET_SCAN_ENABLE :: u16 where
  "HCI_OPCODE_LE_SET_SCAN_ENABLE = HCI_OPCODE 0x08 0x000c"
definition HCI_OPCODE_LE_CREATE_CONNECTION :: u16 where
  "HCI_OPCODE_LE_CREATE_CONNECTION = HCI_OPCODE 0x08 0x000d"
definition HCI_OPCODE_LE_EXTENDED_CREATE_CONNECTION :: u16 where
  "HCI_OPCODE_LE_EXTENDED_CREATE_CONNECTION = HCI_OPCODE 0x08 0x0043"
definition HCI_OPCODE_WRITE_SCAN_ENABLE :: u16 where
  "HCI_OPCODE_WRITE_SCAN_ENABLE = HCI_OPCODE 0x03 0x001a"
definition HCI_OPCODE_WRITE_SIMPLE_PAIRING_MODE :: u16 where
  "HCI_OPCODE_WRITE_SIMPLE_PAIRING_MODE = HCI_OPCODE 0x03 0x0056"

text \<open>The numeric values of the opcodes, for evaluation and for telling them apart.\<close>

lemma opcode_values [simp]:
  "HCI_OPCODE_RESET = 0x0c03"
  "HCI_OPCODE_READ_LOCAL_VERSION = 0x1001"
  "HCI_OPCODE_READ_LOCAL_EXTENDED_FEATURES = 0x1004"
  "HCI_OPCODE_READ_BD_ADDR = 0x1009"
  "HCI_OPCODE_SET_EVENT_MASK = 0x0c01"
  "HCI_OPCODE_LE_SET_EVENT_MASK = 0x2001"
  "HCI_OPCODE_LE_SET_RANDOM_ADDRESS = 0x2005"
  "HCI_OPCODE_LE_SET_SCAN_PARAMETERS = 0x200b"
  "HCI_OPCODE_LE_SET_SCAN_ENABLE = 0x200c"
  "HCI_OPCODE_LE_CREATE_CONNECTION = 0x200d"
  "HCI_OPCODE_LE_EXTENDED_CREATE_CONNECTION = 0x2043"
  "HCI_OPCODE_WRITE_SCAN_ENABLE = 0x0c1a"
  "HCI_OPCODE_WRITE_SIMPLE_PAIRING_MODE = 0x0c56"
  by (simp_all add: HCI_OPCODE_def HCI_OPCODE_RESET_def HCI_OPCODE_READ_LOCAL_VERSION_def
      HCI_OPCODE_READ_LOCAL_EXTENDED_FEATURES_def HCI_OPCODE_READ_BD_ADDR_def
      HCI_OPCODE_SET_EVENT_MASK_def HCI_OPCODE_LE_SET_EVENT_MASK_def
      HCI_OPCODE_LE_SET_RANDOM_ADDRESS_def HCI_OPCODE_LE_SET_SCAN_PARAMETERS_def
      HCI_OPCODE_LE_SET_SCAN_ENABLE_def HCI_OPCODE_LE_CREATE_CONNECTION_def
      HCI_OPCODE_LE_EXTENDED_CREATE_CONNECTION_def HCI_OPCODE_WRITE_SCAN_ENABLE_def
      HCI_OPCODE_WRITE_SIMPLE_PAIRING_MODE_def)

abbreviation (input) HCI_EVENT_COMMAND_COMPLETE :: u8 where "HCI_EVENT_COMMAND_COMPLETE \<equiv> 0x0e"
abbreviation (input) HCI_EVENT_COMMAND_STATUS :: u8 where "HCI_EVENT_COMMAND_STATUS \<equiv> 0x0f"
abbreviation (input) HCI_EVENT_VENDOR_SPECIFIC :: u8 where "HCI_EVENT_VENDOR_SPECIFIC \<equiv> 0xff"
abbreviation (input) HCI_EVENT_CONNECTION_COMPLETE :: u8 where "HCI_EVENT_CONNECTION_COMPLETE \<equiv> 0x03"
abbreviation (input) HCI_EVENT_CONNECTION_REQUEST :: u8 where "HCI_EVENT_CONNECTION_REQUEST \<equiv> 0x04"
abbreviation (input) HCI_EVENT_LE_META :: u8 where "HCI_EVENT_LE_META \<equiv> 0x3e"
abbreviation (input) HCI_SUBEVENT_LE_CONNECTION_COMPLETE :: u8 where
  "HCI_SUBEVENT_LE_CONNECTION_COMPLETE \<equiv> 0x01"
abbreviation (input) HCI_SUBEVENT_LE_ADVERTISING_REPORT :: u8 where
  "HCI_SUBEVENT_LE_ADVERTISING_REPORT \<equiv> 0x02"
abbreviation (input) HCI_SUBEVENT_LE_ENHANCED_CONNECTION_COMPLETE :: u8 where
  "HCI_SUBEVENT_LE_ENHANCED_CONNECTION_COMPLETE \<equiv> 0x0a"
abbreviation (input) HCI_SUBEVENT_LE_DIRECTED_ADVERTISING_REPORT :: u8 where
  "HCI_SUBEVENT_LE_DIRECTED_ADVERTISING_REPORT \<equiv> 0x0b"
abbreviation (input) HCI_SUBEVENT_LE_EXTENDED_ADVERTISING_REPORT :: u8 where
  "HCI_SUBEVENT_LE_EXTENDED_ADVERTISING_REPORT \<equiv> 0x0d"

text \<open>
  A receive callback (\<open>hci_rx_cb_t\<close> of \<open>include/hci_transport.h\<close>) acts on the state
  \<open>'w\<close> of the rest of the firmware; the pair \<open>(packet, len)\<close> is the list of the
  first \<open>len\<close> bytes.
\<close>

type_synonym 'w hci_rx_cb = "hci_packet_type \<Rightarrow> bytes \<Rightarrow> 'w \<Rightarrow> 'w"

definition call_rx :: "'w hci_rx_cb option \<Rightarrow> hci_packet_type \<Rightarrow> bytes \<Rightarrow> 'w \<Rightarrow> 'w" where
  "call_rx cb t pkt w = (case cb of None \<Rightarrow> w | Some f \<Rightarrow> f t pkt w)"

lemma call_rx_simps [simp]:
  "call_rx None t pkt w = w"
  "call_rx (Some f) t pkt w = f t pkt w"
  by (simp_all add: call_rx_def)

end
