(* ===== verification/Platform.thy ===== *)
theory Platform
  imports Hci_Packet
begin

text \<open>
  What the firmware is built with and what it runs on: the compile-time options
  (\<open>CMakeLists.txt\<close>, \<open>include/board_config.h\<close> and the \<open>#ifndef\<close> defaults of the
  C files) as a record, and the Pico SDK's time functions, which are not part of the
  repository, as a record of functions with their documented laws.
\<close>

section \<open>Build options\<close>

datatype hci_backend = Backend_esp32_uart | Backend_stub | Backend_cyw43

text \<open>A pin of \<open>-1\<close> is not wired. The field \<open>CYW43_WL_GPIO_LED_PIN\<close>
  is the SDK's board definition of the onboard LED, absent on a board without the wireless chip.\<close>

record build_config =
  HCI_BACKEND :: hci_backend
  ENABLE_CDC_DEBUG :: bool
  ENABLE_POWER_BUTTON_WAKE :: bool
  ENABLE_STANDBY_HID_KEYBOARD :: bool
  ENABLE_CYW43_STATUS_LED :: bool
  WAKE_ON_KNOWN_BLE_PEER :: bool
  WAKE_PERSIST_BLE_PEERS :: bool
  ENABLE_BOOTSEL_CLEAR_WAKE_PEERS :: bool
  WAKE_ON_BLE_DIRECTED_ADV :: bool
  WAKE_ON_STADIA_ADV :: bool
  WAKE_ON_CONNECTABLE_BLE_ADV :: bool
  WAKE_ON_BLE_HID :: bool
  WAKE_ON_BLE_CONTROLLER_NAME :: bool
  WAKE_ON_ANY_BLE_ADV :: bool
  PIN_PWR_OK_SENSE :: int
  PIN_USB_VBUS_SENSE :: int
  PIN_PWR_BUTTON_OUT :: int
  PIN_LED_STATUS :: int
  PIN_LED_FAULT :: int
  POWER_BUTTON_PULSE_MS :: nat
  POST_WAKE_SENSE_SETTLE_MS :: nat
  STANDBY_WAKE_ARM_DELAY_MS :: nat
  STATUS_LED_BLINK_MS :: nat
  BOOTSEL_CLEAR_HOLD_MS :: nat
  STANDBY_HID_WAKE_KEY :: u8
  CYW43_WL_GPIO_LED_PIN :: "int option"
  PIN_ESP32_UART_TX :: int
  PIN_ESP32_UART_RX :: int
  PIN_ESP32_UART_CTS :: int
  PIN_ESP32_UART_RTS :: int
  PIN_ESP32_RESET :: int
  ENABLE_UART_FLOW_CONTROL :: bool
  ESP32_HCI_UART_BAUD :: nat

definition default_config :: build_config where
  "default_config =
     \<lparr>HCI_BACKEND = Backend_esp32_uart,
      ENABLE_CDC_DEBUG = False,
      ENABLE_POWER_BUTTON_WAKE = True,
      ENABLE_STANDBY_HID_KEYBOARD = True,
      ENABLE_CYW43_STATUS_LED = True,
      WAKE_ON_KNOWN_BLE_PEER = True,
      WAKE_PERSIST_BLE_PEERS = True,
      ENABLE_BOOTSEL_CLEAR_WAKE_PEERS = True,
      WAKE_ON_BLE_DIRECTED_ADV = True,
      WAKE_ON_STADIA_ADV = True,
      WAKE_ON_CONNECTABLE_BLE_ADV = False,
      WAKE_ON_BLE_HID = False,
      WAKE_ON_BLE_CONTROLLER_NAME = False,
      WAKE_ON_ANY_BLE_ADV = False,
      PIN_PWR_OK_SENSE = -1,
      PIN_USB_VBUS_SENSE = -1,
      PIN_PWR_BUTTON_OUT = -1,
      PIN_LED_STATUS = -1,
      PIN_LED_FAULT = -1,
      POWER_BUTTON_PULSE_MS = 200,
      POST_WAKE_SENSE_SETTLE_MS = 10000,
      STANDBY_WAKE_ARM_DELAY_MS = 60000,
      STATUS_LED_BLINK_MS = 1000,
      BOOTSEL_CLEAR_HOLD_MS = 5000,
      STANDBY_HID_WAKE_KEY = 0x68,
      CYW43_WL_GPIO_LED_PIN = None,
      PIN_ESP32_UART_TX = 4,
      PIN_ESP32_UART_RX = 5,
      PIN_ESP32_UART_CTS = 6,
      PIN_ESP32_UART_RTS = 7,
      PIN_ESP32_RESET = -1,
      ENABLE_UART_FLOW_CONTROL = True,
      ESP32_HCI_UART_BAUD = 921600\<rparr>"

text \<open>The pins of \<open>include/board_config.h\<close>, which \<open>default_config\<close> leaves as they are.\<close>

definition board_config_pins :: "build_config \<Rightarrow> build_config" where
  "board_config_pins cfg = cfg\<lparr>
     PIN_ESP32_UART_TX := 4, PIN_ESP32_UART_RX := 5, PIN_ESP32_UART_CTS := 6, PIN_ESP32_UART_RTS := 7,
     PIN_ESP32_RESET := -1, PIN_PWR_OK_SENSE := -1, PIN_USB_VBUS_SENSE := -1, PIN_PWR_BUTTON_OUT := -1,
     PIN_LED_STATUS := -1, PIN_LED_FAULT := -1\<rparr>"

lemma default_config_pins: "board_config_pins default_config = default_config"
  by (simp add: board_config_pins_def default_config_def)

text \<open>The Pico 2 W front-panel build of the README.\<close>

definition pico2w_config :: build_config where
  "pico2w_config = default_config\<lparr>HCI_BACKEND := Backend_cyw43,
     PIN_PWR_BUTTON_OUT := 10, PIN_PWR_OK_SENSE := 11, PIN_USB_VBUS_SENSE := -1,
     CYW43_WL_GPIO_LED_PIN := Some 0\<rparr>"

definition backend_is_cyw43 :: "build_config \<Rightarrow> bool" where
  "backend_is_cyw43 cfg \<longleftrightarrow> HCI_BACKEND cfg = Backend_cyw43"

lemmas config_defs = default_config_def pico2w_config_def backend_is_cyw43_def

section \<open>GPIO operations\<close>

datatype gpio_dir = GPIO_IN | GPIO_OUT

datatype gpio_op =
    Gpio_init int
  | Gpio_set_dir int gpio_dir
  | Gpio_put int bool
  | Gpio_pull_up int
  | Gpio_pull_down int
  | Cyw43_gpio_put int bool

section \<open>The clock of the Pico SDK\<close>

text \<open>
  A reading of the hardware timer is a number of microseconds since boot. The SDK functions
  are the fields of a record: \<open>sdk_make_timeout_time_ms n ms\<close> is
  \<open>make_timeout_time_ms(ms)\<close> called at reading \<open>n\<close>, and so on; an
  \<open>absolute_time_t\<close> is an opaque value of type \<open>'t\<close>.
\<close>

record 't pico_clock =
  sdk_make_timeout_time_ms :: "nat \<Rightarrow> nat \<Rightarrow> 't"
  sdk_time_reached :: "nat \<Rightarrow> 't \<Rightarrow> bool"
  sdk_nil_time :: 't
  sdk_is_nil_time :: "'t \<Rightarrow> bool"
  sdk_ms_since_boot :: "nat \<Rightarrow> u32"
  sdk_sleep_ms :: "nat \<Rightarrow> nat \<Rightarrow> nat"

text \<open>
  The documented behaviour: a timeout is reached once the timer has advanced by that many
  milliseconds; the nil time is recognised as such, no timeout of a positive delay is nil, and
  the nil time (boot) has been reached; \<open>to_ms_since_boot\<close> truncates to 32 bits;
  a sleep lasts at least as long as asked.
\<close>

definition pico_clock_ok :: "'t pico_clock \<Rightarrow> bool" where
  "pico_clock_ok ck \<longleftrightarrow>
     (\<forall>n ms m. sdk_time_reached ck m (sdk_make_timeout_time_ms ck n ms) \<longleftrightarrow> n + 1000 * ms \<le> m) \<and>
     sdk_is_nil_time ck (sdk_nil_time ck) \<and>
     (\<forall>n ms. 0 < ms \<longrightarrow> \<not> sdk_is_nil_time ck (sdk_make_timeout_time_ms ck n ms)) \<and>
     (\<forall>m. sdk_time_reached ck m (sdk_nil_time ck)) \<and>
     (\<forall>n. sdk_ms_since_boot ck n = of_nat (n div 1000)) \<and>
     (\<forall>n ms. n + 1000 * ms \<le> sdk_sleep_ms ck n ms)"

text \<open>The SDK's own representation satisfies the laws: 64-bit microseconds, nil is 0.\<close>

definition us_clock :: "nat pico_clock" where
  "us_clock =
     \<lparr>sdk_make_timeout_time_ms = (\<lambda>n ms. n + 1000 * ms),
      sdk_time_reached = (\<lambda>n t. t \<le> n),
      sdk_nil_time = 0,
      sdk_is_nil_time = (\<lambda>t. t = 0),
      sdk_ms_since_boot = (\<lambda>n. of_nat (n div 1000)),
      sdk_sleep_ms = (\<lambda>n ms. n + 1000 * ms)\<rparr>"

lemma us_clock_ok [simp]: "pico_clock_ok us_clock"
  by (simp add: pico_clock_ok_def us_clock_def)

named_theorems clock_simps \<open>the laws of the clock\<close>

lemma clock_reached [clock_simps]:
  "pico_clock_ok ck \<Longrightarrow>
   sdk_time_reached ck m (sdk_make_timeout_time_ms ck n ms) \<longleftrightarrow> n + 1000 * ms \<le> m"
  by (simp add: pico_clock_ok_def)

lemma clock_nil [clock_simps]:
  "pico_clock_ok ck \<Longrightarrow> sdk_is_nil_time ck (sdk_nil_time ck)"
  "pico_clock_ok ck \<Longrightarrow> sdk_time_reached ck m (sdk_nil_time ck)"
  by (simp_all add: pico_clock_ok_def)

lemma clock_not_nil [clock_simps]:
  "pico_clock_ok ck \<Longrightarrow> 0 < ms \<Longrightarrow> \<not> sdk_is_nil_time ck (sdk_make_timeout_time_ms ck n ms)"
  by (simp add: pico_clock_ok_def)

lemma clock_sleep: "pico_clock_ok ck \<Longrightarrow> n + 1000 * ms \<le> sdk_sleep_ms ck n ms"
  by (simp add: pico_clock_ok_def)

end
