(* ===== verification/Hid_Wake.thy ===== *)
theory Hid_Wake
  imports Platform
begin

text \<open>
  \<open>src/usb_hid_wake.c\<close>: the standby USB keyboard. A wake request makes the next task that
  finds the keyboard ready press one key, and a later task release it, at least 80 ms after.
  TinyUSB's device and HID functions are parameters acting on an opaque USB world; each call
  is given the reading of the timer at which it is made. The two class callbacks TinyUSB
  requires (\<open>tud_hid_get_report_cb\<close>, \<open>tud_hid_set_report_cb\<close>) do nothing.
\<close>

section \<open>State and operations\<close>

abbreviation (input) HID_WAKE_KEYPRESS_MS :: nat where "HID_WAKE_KEYPRESS_MS \<equiv> 80"

record 't hid_wake =
  standby_mode :: bool
  key_pending :: bool
  key_down :: bool
  release_at :: 't

text \<open>\<open>tud_hid_keyboard_report tud n id modifier keys w\<close>: no keys is the \<open>NULL\<close> of the code.\<close>

record 'w tud_hid =
  tud_suspended :: "'w \<Rightarrow> bool"
  tud_mounted :: "'w \<Rightarrow> bool"
  tud_hid_ready :: "'w \<Rightarrow> bool"
  tud_remote_wakeup :: "'w \<Rightarrow> bool \<times> 'w"
  tud_hid_keyboard_report :: "nat \<Rightarrow> u8 \<Rightarrow> u8 \<Rightarrow> bytes option \<Rightarrow> 'w \<Rightarrow> bool \<times> 'w"

definition usb_hid_wake_init :: "'t pico_clock \<Rightarrow> 't hid_wake" where
  "usb_hid_wake_init ck =
     \<lparr>standby_mode = False, key_pending = False, key_down = False, release_at = sdk_nil_time ck\<rparr>"

definition usb_hid_wake_set_standby :: "bool \<Rightarrow> 't hid_wake \<Rightarrow> 't hid_wake" where
  "usb_hid_wake_set_standby standby h = h\<lparr>standby_mode := standby\<rparr>"

definition usb_hid_wake_keep_usb_connected :: "build_config \<Rightarrow> bool" where
  "usb_hid_wake_keep_usb_connected cfg = (if ENABLE_STANDBY_HID_KEYBOARD cfg then True else False)"

definition usb_hid_wake_request_keypress ::
    "build_config \<Rightarrow> 'w tud_hid \<Rightarrow> 't hid_wake \<Rightarrow> 'w \<Rightarrow> 't hid_wake \<times> 'w" where
  "usb_hid_wake_request_keypress cfg tud h w =
     (if ENABLE_STANDBY_HID_KEYBOARD cfg
      then let h = h\<lparr>key_pending := True\<rparr>
           in (if tud_suspended tud w then (h, snd (tud_remote_wakeup tud w)) else (h, w))
      else (h, w))"

definition wake_keycode :: "build_config \<Rightarrow> bytes" where
  "wake_keycode cfg = (replicate 6 0)[0 := STANDBY_HID_WAKE_KEY cfg]"

lemma wake_keycode_eq: "wake_keycode cfg = [STANDBY_HID_WAKE_KEY cfg, 0, 0, 0, 0, 0]"
  by (simp add: wake_keycode_def eval_nat_numeral)

definition usb_hid_wake_task ::
    "build_config \<Rightarrow> 't pico_clock \<Rightarrow> 'w tud_hid \<Rightarrow> nat \<Rightarrow> 't hid_wake \<Rightarrow> 'w
       \<Rightarrow> 't hid_wake \<times> 'w" where
  "usb_hid_wake_task cfg ck tud n h w =
     (if ENABLE_STANDBY_HID_KEYBOARD cfg then
        if \<not> standby_mode h \<and> \<not> key_pending h \<and> \<not> key_down h then (h, w)
        else if \<not> tud_mounted tud w then (h, w)
        else if key_down h then
          if sdk_time_reached ck n (release_at h) \<and> tud_hid_ready tud w
          then let (_, w) = tud_hid_keyboard_report tud n 0 0 None w
               in (h\<lparr>key_down := False, release_at := sdk_nil_time ck\<rparr>, w)
          else (h, w)
        else if key_pending h \<and> tud_hid_ready tud w
        then let keycode = wake_keycode cfg;
                 (ok, w) = tud_hid_keyboard_report tud n 0 0 (Some keycode) w
             in if ok
                then (h\<lparr>key_pending := False, key_down := True,
                        release_at := sdk_make_timeout_time_ms ck n HID_WAKE_KEYPRESS_MS\<rparr>, w)
                else (h, w)
        else (h, w)
      else (h, w))"

section \<open>Runs\<close>

text \<open>
  A system is the timer, the keyboard and the USB world. Between two operations of the
  firmware the timer advances and the world may change (the host mounts, suspends, polls),
  without touching the reports it has received.
\<close>

inductive hid_step ::
    "build_config \<Rightarrow> 't pico_clock \<Rightarrow> 'w tud_hid \<Rightarrow> ('w \<Rightarrow> (nat \<times> bytes option) list)
       \<Rightarrow> nat \<times> 't hid_wake \<times> 'w \<Rightarrow> nat \<times> 't hid_wake \<times> 'w \<Rightarrow> bool"
  for cfg ck tud log where
  hid_wait: "n \<le> n' \<Longrightarrow> log w' = log w \<Longrightarrow> hid_step cfg ck tud log (n, h, w) (n', h, w')"
| hid_standby:
    "hid_step cfg ck tud log (n, h, w) (n, usb_hid_wake_set_standby b h, w)"
| hid_request:
    "usb_hid_wake_request_keypress cfg tud h w = (h', w') \<Longrightarrow>
     hid_step cfg ck tud log (n, h, w) (n, h', w')"
| hid_task:
    "usb_hid_wake_task cfg ck tud n h w = (h', w') \<Longrightarrow>
     hid_step cfg ck tud log (n, h, w) (n, h', w')"

text \<open>
  The contract with TinyUSB: a report that is accepted reaches the host, a ready endpoint
  accepts it, and nothing else reaches the host.
\<close>

definition hid_recording :: "'w tud_hid \<Rightarrow> ('w \<Rightarrow> (nat \<times> bytes option) list) \<Rightarrow> bool" where
  "hid_recording tud log \<longleftrightarrow>
     (\<forall>n rid m keys w.
        (tud_hid_ready tud w \<longrightarrow> fst (tud_hid_keyboard_report tud n rid m keys w)) \<and>
        log (snd (tud_hid_keyboard_report tud n rid m keys w)) =
          log w @ (if fst (tud_hid_keyboard_report tud n rid m keys w) then [(n, keys)] else [])) \<and>
     (\<forall>w. log (snd (tud_remote_wakeup tud w)) = log w)"

text \<open>
  What the host should see: whole keystrokes, each a press of the wake key and its release
  at least 80 ms later, then possibly one press not yet released.
\<close>

definition keystrokes :: "bytes \<Rightarrow> (nat \<times> nat) list \<Rightarrow> (nat \<times> bytes option) list" where
  "keystrokes keys ps = concat (map (\<lambda>(t, t'). [(t, Some keys), (t', None)]) ps)"

definition held_long_enough :: "(nat \<times> nat) list \<Rightarrow> bool" where
  "held_long_enough ps \<longleftrightarrow> (\<forall>(t, t') \<in> set ps. t + 1000 * HID_WAKE_KEYPRESS_MS \<le> t')"

definition hid_reports_ok ::
    "build_config \<Rightarrow> 't pico_clock \<Rightarrow> 't hid_wake \<Rightarrow> (nat \<times> bytes option) list \<Rightarrow> bool" where
  "hid_reports_ok cfg ck h reports \<longleftrightarrow>
     (\<exists>ps. held_long_enough ps \<and>
        (if key_down h
         then \<exists>t. release_at h = sdk_make_timeout_time_ms ck t HID_WAKE_KEYPRESS_MS \<and>
                  reports = keystrokes (wake_keycode cfg) ps @ [(t, Some (wake_keycode cfg))]
         else reports = keystrokes (wake_keycode cfg) ps))"

lemma keystrokes_snoc:
  "keystrokes keys ps @ [(t, Some keys), (t', None)] = keystrokes keys (ps @ [(t, t')])"
  by (simp add: keystrokes_def)

lemma held_snoc:
  "held_long_enough (ps @ [(t, t')]) \<longleftrightarrow> held_long_enough ps \<and> t + 80000 \<le> t'"
  by (auto simp: held_long_enough_def)

lemma hid_reports_press:
  "hid_reports_ok cfg ck h reports \<Longrightarrow> \<not> key_down h \<Longrightarrow>
   hid_reports_ok cfg ck
     (h\<lparr>key_pending := False, key_down := True,
        release_at := sdk_make_timeout_time_ms ck n HID_WAKE_KEYPRESS_MS\<rparr>)
     (reports @ [(n, Some (wake_keycode cfg))])"
  by (auto simp: hid_reports_ok_def)

lemma hid_reports_release:
  assumes ck: "pico_clock_ok ck" and ok: "hid_reports_ok cfg ck h reports"
    and down: "key_down h" and due: "sdk_time_reached ck n (release_at h)"
  shows "hid_reports_ok cfg ck (h\<lparr>key_down := False, release_at := t'\<rparr>) (reports @ [(n, None)])"
proof -
  from ok down obtain ps t where ps: "held_long_enough ps"
    and at: "release_at h = sdk_make_timeout_time_ms ck t HID_WAKE_KEYPRESS_MS"
    and r: "reports = keystrokes (wake_keycode cfg) ps @ [(t, Some (wake_keycode cfg))]"
    by (auto simp: hid_reports_ok_def)
  from ck due at have "t + 80000 \<le> n" by (simp add: clock_simps)
  with ps have "held_long_enough (ps @ [(t, n)])" by (simp add: held_snoc)
  with r show ?thesis
    by (auto simp: hid_reports_ok_def keystrokes_snoc)
qed

lemma hid_reports_cong:
  "key_down h' = key_down h \<Longrightarrow> release_at h' = release_at h \<Longrightarrow>
   hid_reports_ok cfg ck h' reports = hid_reports_ok cfg ck h reports"
  by (simp add: hid_reports_ok_def)

lemma hid_request_ok:
  assumes "hid_recording tud log" "usb_hid_wake_request_keypress cfg tud h w = (h', w')"
  shows "log w' = log w" "key_down h' = key_down h" "release_at h' = release_at h"
  using assms by (auto simp: usb_hid_wake_request_keypress_def hid_recording_def split: if_splits)

lemma hid_recording_report:
  assumes "hid_recording tud log"
  shows "fst (tud_hid_keyboard_report tud n rid m k w) \<Longrightarrow>
      log (snd (tud_hid_keyboard_report tud n rid m k w)) = log w @ [(n, k)]"
    and "\<not> fst (tud_hid_keyboard_report tud n rid m k w) \<Longrightarrow>
      log (snd (tud_hid_keyboard_report tud n rid m k w)) = log w"
    and "tud_hid_ready tud w \<Longrightarrow> fst (tud_hid_keyboard_report tud n rid m k w)"
  using assms by (simp_all add: hid_recording_def)

text \<open>The three things a task can do.\<close>

lemma hid_task_cases:
  obtains (idle) "usb_hid_wake_task cfg ck tud n h w = (h, w)"
  | (release) "key_down h" "sdk_time_reached ck n (release_at h)" "tud_hid_ready tud w"
      "usb_hid_wake_task cfg ck tud n h w =
         (h\<lparr>key_down := False, release_at := sdk_nil_time ck\<rparr>,
          snd (tud_hid_keyboard_report tud n 0 0 None w))"
  | (press) "\<not> key_down h" "key_pending h"
      "usb_hid_wake_task cfg ck tud n h w =
         (if fst (tud_hid_keyboard_report tud n 0 0 (Some (wake_keycode cfg)) w)
          then h\<lparr>key_pending := False, key_down := True,
                 release_at := sdk_make_timeout_time_ms ck n HID_WAKE_KEYPRESS_MS\<rparr> else h,
          snd (tud_hid_keyboard_report tud n 0 0 (Some (wake_keycode cfg)) w))"
proof -
  let ?on = "ENABLE_STANDBY_HID_KEYBOARD cfg \<and> tud_mounted tud w"
  show thesis
  proof (cases "?on \<and> tud_hid_ready tud w")
    case False
    then have "usb_hid_wake_task cfg ck tud n h w = (h, w)"
      by (auto simp: usb_hid_wake_task_def)
    then show thesis by (rule idle)
  next
    case True
    show thesis
    proof (cases "key_down h")
      case down: True
      show thesis
      proof (cases "sdk_time_reached ck n (release_at h)")
        case due: True
        with True down have "usb_hid_wake_task cfg ck tud n h w =
            (h\<lparr>key_down := False, release_at := sdk_nil_time ck\<rparr>,
             snd (tud_hid_keyboard_report tud n 0 0 None w))"
          by (simp add: usb_hid_wake_task_def split_beta)
        with True down due show thesis by (intro release) simp_all
      next
        case False
        with True down have "usb_hid_wake_task cfg ck tud n h w = (h, w)"
          by (simp add: usb_hid_wake_task_def)
        then show thesis by (rule idle)
      qed
    next
      case up: False
      show thesis
      proof (cases "key_pending h")
        case pending: True
        with True up have "usb_hid_wake_task cfg ck tud n h w =
           (if fst (tud_hid_keyboard_report tud n 0 0 (Some (wake_keycode cfg)) w)
            then h\<lparr>key_pending := False, key_down := True,
                   release_at := sdk_make_timeout_time_ms ck n HID_WAKE_KEYPRESS_MS\<rparr> else h,
            snd (tud_hid_keyboard_report tud n 0 0 (Some (wake_keycode cfg)) w))"
          by (simp add: usb_hid_wake_task_def split_beta)
        with up pending show thesis by (rule press)
      next
        case False
        with True up have "usb_hid_wake_task cfg ck tud n h w = (h, w)"
          by (simp add: usb_hid_wake_task_def)
        then show thesis by (rule idle)
      qed
    qed
  qed
qed

lemma hid_task_ok:
  assumes ck: "pico_clock_ok ck" and rec: "hid_recording tud log"
    and ok: "hid_reports_ok cfg ck h (log w)"
    and run: "usb_hid_wake_task cfg ck tud n h w = (h', w')"
  shows "hid_reports_ok cfg ck h' (log w')"
proof (rule hid_task_cases [of cfg ck tud n h w])
  assume "usb_hid_wake_task cfg ck tud n h w = (h, w)"
  with run ok show ?thesis by simp
next
  assume c: "key_down h" "sdk_time_reached ck n (release_at h)" "tud_hid_ready tud w"
    and t: "usb_hid_wake_task cfg ck tud n h w =
         (h\<lparr>key_down := False, release_at := sdk_nil_time ck\<rparr>,
          snd (tud_hid_keyboard_report tud n 0 0 None w))"
  from run t have h': "h' = h\<lparr>key_down := False, release_at := sdk_nil_time ck\<rparr>"
    and w': "w' = snd (tud_hid_keyboard_report tud n 0 0 None w)" by simp_all
  have "log w' = log w @ [(n, None)]"
    unfolding w' by (intro hid_recording_report [OF rec] c)
  then show ?thesis unfolding h' by (simp add: hid_reports_release [OF ck ok c(1,2)])
next
  assume up: "\<not> key_down h"
    and "usb_hid_wake_task cfg ck tud n h w =
         (if fst (tud_hid_keyboard_report tud n 0 0 (Some (wake_keycode cfg)) w)
          then h\<lparr>key_pending := False, key_down := True,
                 release_at := sdk_make_timeout_time_ms ck n HID_WAKE_KEYPRESS_MS\<rparr> else h,
          snd (tud_hid_keyboard_report tud n 0 0 (Some (wake_keycode cfg)) w))"
  with run hid_recording_report(1,2) [OF rec] hid_reports_press [OF ok up] ok
  show ?thesis by (auto split: if_splits)
qed

lemma hid_step_ok:
  assumes "hid_step cfg ck tud log s s'" "pico_clock_ok ck" "hid_recording tud log"
    and "hid_reports_ok cfg ck (fst (snd s)) (log (snd (snd s)))"
  shows "hid_reports_ok cfg ck (fst (snd s')) (log (snd (snd s')))"
  using assms
proof cases
  case (hid_wait n n' w' w h)
  with assms show ?thesis by simp
next
  case (hid_standby n h w b)
  with assms hid_reports_cong [of "usb_hid_wake_set_standby b h" h]
  show ?thesis by (simp add: usb_hid_wake_set_standby_def)
next
  case (hid_request h w h' w' n)
  note r = hid_request_ok [OF assms(3) hid_request(3)]
  from assms hid_request r(1) hid_reports_cong [OF r(2,3)] show ?thesis by simp
next
  case (hid_task n h w h' w')
  with assms hid_task_ok [OF _ _ _ hid_task(3)] show ?thesis by simp
qed

lemma hid_run_ok:
  assumes "(hid_step cfg ck tud log)\<^sup>*\<^sup>* s s'" "pico_clock_ok ck" "hid_recording tud log"
    and "hid_reports_ok cfg ck (fst (snd s)) (log (snd (snd s)))"
  shows "hid_reports_ok cfg ck (fst (snd s')) (log (snd (snd s')))"
  using assms(1,4) by (induction rule: rtranclp_induct) (auto intro: hid_step_ok assms(2,3))

section \<open>Properties\<close>

text \<open>
  C27: Over every run of the firmware's keyboard operations, with the timer and the host
  advancing in between, the reports the host receives are whole keystrokes, each a press of
  the configured key followed by its release at least 80 ms later, then at most one press
  still held. TinyUSB is any implementation that delivers the reports it accepts.
\<close>

theorem usb_hid_wake_keystrokes:
  assumes "pico_clock_ok ck" "hid_recording tud log" "log w = []"
    and "(hid_step cfg ck tud log)\<^sup>*\<^sup>* (n, usb_hid_wake_init ck, w) (n', h', w')"
  shows "hid_reports_ok cfg ck h' (log w')"
proof -
  have "hid_reports_ok cfg ck (usb_hid_wake_init ck) (log w)"
    using assms(3) by (auto simp: hid_reports_ok_def usb_hid_wake_init_def held_long_enough_def
      keystrokes_def intro: exI [of _ "[]"])
  with hid_run_ok [OF assms(4,1,2)] show ?thesis by simp
qed

text \<open>A TinyUSB whose world is the list of reports received: mounted, awake, always ready.\<close>

definition ready_hid :: "(nat \<times> bytes option) list tud_hid" where
  "ready_hid =
     \<lparr>tud_suspended = (\<lambda>_. True), tud_mounted = (\<lambda>_. True), tud_hid_ready = (\<lambda>_. True),
      tud_remote_wakeup = (\<lambda>w. (True, w)),
      tud_hid_keyboard_report = (\<lambda>n _ _ keys w. (True, w @ [(n, keys)]))\<rparr>"

lemma ready_hid_recording: "hid_recording ready_hid (\<lambda>w. w)"
  by (simp add: hid_recording_def ready_hid_def)

lemma hid_request_ready:
  "usb_hid_wake_request_keypress default_config ready_hid h w = (h\<lparr>key_pending := True\<rparr>, w)"
  by (simp add: usb_hid_wake_request_keypress_def config_defs ready_hid_def)

text \<open>A request, a task at 1 ms, and a task 80 ms later: one keystroke.\<close>

theorem usb_hid_wake_keystrokes_witness:
  "hid_reports_ok default_config us_clock
     \<lparr>standby_mode = False, key_pending = False, key_down = True, release_at = 81000\<rparr>
     [(1000, Some [0x68, 0, 0, 0, 0, 0])]"
proof -
  let ?h0 = "usb_hid_wake_init us_clock"
  let ?h1 = "?h0\<lparr>key_pending := True\<rparr>"
  let ?h2 = "\<lparr>standby_mode = False, key_pending = False, key_down = True, release_at = 81000\<rparr>"
  let ?k = "[0x68, 0, 0, 0, 0, 0] :: bytes"
  let ?step = "hid_step default_config us_clock ready_hid (\<lambda>w. w)"
  have "?step (1000, ?h0, []) (1000, ?h1, [])"
    by (rule hid_request) (rule hid_request_ready)
  moreover have "?step (1000, ?h1, []) (1000, ?h2, [(1000, Some ?k)])"
    by (rule hid_task) (simp add: usb_hid_wake_task_def usb_hid_wake_init_def config_defs
      ready_hid_def us_clock_def wake_keycode_eq)
  ultimately have "?step\<^sup>*\<^sup>* (1000, ?h0, []) (1000, ?h2, [(1000, Some ?k)])"
    by (meson r_into_rtranclp rtranclp.rtrancl_into_rtrancl)
  from usb_hid_wake_keystrokes [OF us_clock_ok ready_hid_recording _ this] show ?thesis by simp
qed



end
