(* ===== verification/Power_Supervisor.thy ===== *)
theory Power_Supervisor
  imports Hid_Wake
begin

text \<open>
  \<open>src/power_supervisor.c\<close>: the state machine that follows the PC's power, arms standby wake,
  pulses the power button and drives the status LED. Pins are inputs from the environment
  (the level of a pin at a reading of the timer) and an output trace of GPIO operations; the
  standby keyboard is the one of theory Hid_Wake. One reading of the timer is used for a whole
  task, except that the power-button pulse sleeps and moves it. Logging is left out.
\<close>

section \<open>State\<close>

datatype power_state_t =
    POWER_STATE_UNKNOWN
  | POWER_STATE_HOST_OFF
  | POWER_STATE_STANDBY_HCI_HOST
  | POWER_STATE_WAKE_PULSE
  | POWER_STATE_WAIT_WAKE_SENSE_SETTLE
  | POWER_STATE_WAIT_HOST_BOOT
  | POWER_STATE_HOST_ON_USB_HCI
  | POWER_STATE_HOST_SHUTTING_DOWN
  | POWER_STATE_FAULT

text \<open>The values of the C enumeration, which order the states.\<close>

fun power_state_num :: "power_state_t \<Rightarrow> nat" where
  "power_state_num POWER_STATE_UNKNOWN = 0"
| "power_state_num POWER_STATE_HOST_OFF = 1"
| "power_state_num POWER_STATE_STANDBY_HCI_HOST = 2"
| "power_state_num POWER_STATE_WAKE_PULSE = 3"
| "power_state_num POWER_STATE_WAIT_WAKE_SENSE_SETTLE = 4"
| "power_state_num POWER_STATE_WAIT_HOST_BOOT = 5"
| "power_state_num POWER_STATE_HOST_ON_USB_HCI = 6"
| "power_state_num POWER_STATE_HOST_SHUTTING_DOWN = 7"
| "power_state_num POWER_STATE_FAULT = 8"

lemma power_state_num_inject [simp]: "power_state_num s = power_state_num t \<longleftrightarrow> s = t"
  by (cases s; cases t) simp_all

instantiation power_state_t :: linorder
begin

definition less_eq_power_state_t :: "power_state_t \<Rightarrow> power_state_t \<Rightarrow> bool" where
  "less_eq_power_state_t s t \<longleftrightarrow> power_state_num s \<le> power_state_num t"

definition less_power_state_t :: "power_state_t \<Rightarrow> power_state_t \<Rightarrow> bool" where
  "less_power_state_t s t \<longleftrightarrow> power_state_num s < power_state_num t"

instance
  by standard (auto simp: less_eq_power_state_t_def less_power_state_t_def)

end

record 't power =
  power_state :: power_state_t
  wake_requested :: bool
  debug_force_standby :: bool
  pwr_ok_filtered :: bool
  pwr_ok_last_raw :: bool
  usb_vbus_filtered :: bool
  usb_vbus_last_raw :: bool
  wake_reason :: string
  state_deadline :: 't
  cooldown_until :: 't
  pwr_ok_changed_at :: 't
  usb_vbus_changed_at :: 't
  standby_armed_at :: 't

text \<open>The static variables at boot; a zeroed \<open>absolute_time_t\<close> is the nil time.\<close>

definition power_boot :: "'t pico_clock \<Rightarrow> 't power" where
  "power_boot ck =
     \<lparr>power_state = POWER_STATE_UNKNOWN, wake_requested = False, debug_force_standby = False,
      pwr_ok_filtered = False, pwr_ok_last_raw = False,
      usb_vbus_filtered = False, usb_vbus_last_raw = False, wake_reason = ''none'',
      state_deadline = sdk_nil_time ck, cooldown_until = sdk_nil_time ck,
      pwr_ok_changed_at = sdk_nil_time ck, usb_vbus_changed_at = sdk_nil_time ck,
      standby_armed_at = sdk_nil_time ck\<rparr>"

section \<open>Hardware\<close>

text \<open>What the supervisor acts on: the timer, the trace of GPIO operations with the reading
  at which each was made, the standby keyboard and the USB world.\<close>

record ('t, 'w) power_io =
  io_now :: nat
  io_gpio :: "(nat \<times> gpio_op) list"
  io_hid :: "'t hid_wake"
  io_usb :: 'w

text \<open>What it reads: the clock, the level of each input pin over time, and TinyUSB.\<close>

record ('t, 'w) power_hw =
  hw_clock :: "'t pico_clock"
  hw_pins :: "nat \<Rightarrow> int \<Rightarrow> bool"
  hw_usb :: "'w tud_hid"

definition gpio_do :: "gpio_op \<Rightarrow> ('t, 'w) power_io \<Rightarrow> ('t, 'w) power_io" where
  "gpio_do op io = io\<lparr>io_gpio := io_gpio io @ [(io_now io, op)]\<rparr>"

definition pin_read_or_default :: "('t, 'w) power_hw \<Rightarrow> nat \<Rightarrow> int \<Rightarrow> bool \<Rightarrow> bool" where
  "pin_read_or_default hw n pin default_value =
     (if pin < 0 then default_value else hw_pins hw n pin)"

section \<open>Inputs\<close>

abbreviation (input) POWER_SENSE_DEBOUNCE_MS :: nat where "POWER_SENSE_DEBOUNCE_MS \<equiv> 250"

text \<open>\<open>debounce_bool\<close> updates three variables by reference; here it returns them:
  \<open>last_raw\<close>, \<open>filtered\<close>, \<open>changed_at\<close>.\<close>

definition debounce_bool ::
    "'t pico_clock \<Rightarrow> nat \<Rightarrow> bool \<Rightarrow> bool \<times> bool \<times> 't \<Rightarrow> bool \<times> bool \<times> 't" where
  "debounce_bool ck n raw s =
     (let (last_raw, filtered, changed_at) = s;
          (last_raw, changed_at) =
            (if raw \<noteq> last_raw
             then (raw, sdk_make_timeout_time_ms ck n POWER_SENSE_DEBOUNCE_MS)
             else (last_raw, changed_at));
          filtered = (if raw \<noteq> filtered \<and> sdk_time_reached ck n changed_at
                      then raw else filtered)
      in (last_raw, filtered, changed_at))"

definition standby_arm_deadline :: "build_config \<Rightarrow> 't pico_clock \<Rightarrow> nat \<Rightarrow> 't power \<Rightarrow> 't" where
  "standby_arm_deadline cfg ck n p =
     (if debug_force_standby p \<or> STANDBY_WAKE_ARM_DELAY_MS cfg = 0 then sdk_nil_time ck
      else sdk_make_timeout_time_ms ck n (STANDBY_WAKE_ARM_DELAY_MS cfg))"

definition standby_wake_armed :: "'t pico_clock \<Rightarrow> nat \<Rightarrow> 't power \<Rightarrow> bool" where
  "standby_wake_armed ck n p \<longleftrightarrow>
     sdk_is_nil_time ck (standby_armed_at p) \<or> sdk_time_reached ck n (standby_armed_at p)"

definition update_power_inputs ::
    "build_config \<Rightarrow> ('t, 'w) power_hw \<Rightarrow> nat \<Rightarrow> 't power \<Rightarrow> 't power" where
  "update_power_inputs cfg hw n p =
     (if debug_force_standby p
      then p\<lparr>pwr_ok_filtered := False, pwr_ok_last_raw := False,
             usb_vbus_filtered := False, usb_vbus_last_raw := False\<rparr>
      else
        let (l, f, c) = debounce_bool (hw_clock hw) n
              (pin_read_or_default hw n (PIN_PWR_OK_SENSE cfg) True)
              (pwr_ok_last_raw p, pwr_ok_filtered p, pwr_ok_changed_at p);
            (l', f', c') = debounce_bool (hw_clock hw) n
              (pin_read_or_default hw n (PIN_USB_VBUS_SENSE cfg) True)
              (usb_vbus_last_raw p, usb_vbus_filtered p, usb_vbus_changed_at p)
        in p\<lparr>pwr_ok_filtered := f, pwr_ok_last_raw := l,
             usb_vbus_filtered := f', usb_vbus_last_raw := l',
             pwr_ok_changed_at := c, usb_vbus_changed_at := c'\<rparr>)"

definition power_supervisor_pwr_ok :: "'t power \<Rightarrow> bool" where
  "power_supervisor_pwr_ok p = pwr_ok_filtered p"

definition power_supervisor_usb_vbus_present :: "'t power \<Rightarrow> bool" where
  "power_supervisor_usb_vbus_present p = usb_vbus_filtered p"

definition power_supervisor_get_state :: "'t power \<Rightarrow> power_state_t" where
  "power_supervisor_get_state p = power_state p"

definition power_supervisor_last_wake_reason :: "'t power \<Rightarrow> string" where
  "power_supervisor_last_wake_reason p = wake_reason p"

section \<open>Outputs\<close>

definition status_led_put :: "build_config \<Rightarrow> bool \<Rightarrow> ('t, 'w) power_io \<Rightarrow> ('t, 'w) power_io" where
  "status_led_put cfg on io =
     (let io = (if PIN_LED_STATUS cfg \<ge> 0 then gpio_do (Gpio_put (PIN_LED_STATUS cfg) on) io else io)
      in case CYW43_WL_GPIO_LED_PIN cfg of
           Some pin \<Rightarrow>
             if backend_is_cyw43 cfg \<and> ENABLE_CYW43_STATUS_LED cfg
             then gpio_do (Cyw43_gpio_put pin on) io else io
         | None \<Rightarrow> io)"

definition status_led_on :: "build_config \<Rightarrow> 't pico_clock \<Rightarrow> nat \<Rightarrow> 't power \<Rightarrow> bool" where
  "status_led_on cfg ck n p =
     (if power_state p = POWER_STATE_STANDBY_HCI_HOST then True
      else if power_state p = POWER_STATE_HOST_OFF \<and> \<not> standby_wake_armed ck n p
      then let blink_ms = (if STATUS_LED_BLINK_MS cfg = 0 then 1000
                           else of_nat (STATUS_LED_BLINK_MS cfg))
           in (sdk_ms_since_boot ck n div blink_ms) AND 1 = 0
      else False)"

definition update_status_led ::
    "build_config \<Rightarrow> ('t, 'w) power_hw \<Rightarrow> 't power \<Rightarrow> ('t, 'w) power_io \<Rightarrow> ('t, 'w) power_io" where
  "update_status_led cfg hw p io =
     status_led_put cfg (status_led_on cfg (hw_clock hw) (io_now io) p) io"

definition power_button_release :: "build_config \<Rightarrow> ('t, 'w) power_io \<Rightarrow> ('t, 'w) power_io" where
  "power_button_release cfg io =
     (let pin = PIN_PWR_BUTTON_OUT cfg in
      if pin \<ge> 0
      then gpio_do (Gpio_pull_up pin) (gpio_do (Gpio_set_dir pin GPIO_IN)
             (gpio_do (Gpio_put pin False) io))
      else io)"

definition power_button_press :: "build_config \<Rightarrow> ('t, 'w) power_io \<Rightarrow> ('t, 'w) power_io" where
  "power_button_press cfg io =
     (let pin = PIN_PWR_BUTTON_OUT cfg in
      if pin \<ge> 0
      then gpio_do (Gpio_set_dir pin GPIO_OUT) (gpio_do (Gpio_put pin False) io)
      else io)"

definition power_supervisor_pulse_power_button_ms ::
    "build_config \<Rightarrow> ('t, 'w) power_hw \<Rightarrow> nat \<Rightarrow> ('t, 'w) power_io \<Rightarrow> ('t, 'w) power_io" where
  "power_supervisor_pulse_power_button_ms cfg hw ms io =
     (if PIN_PWR_BUTTON_OUT cfg \<ge> 0
      then let io = power_button_press cfg io;
               io = io\<lparr>io_now := sdk_sleep_ms (hw_clock hw) (io_now io) ms\<rparr>
           in power_button_release cfg io
      else io)"

definition sense_pin_init :: "int \<Rightarrow> ('t, 'w) power_io \<Rightarrow> ('t, 'w) power_io" where
  "sense_pin_init pin io =
     (if pin \<ge> 0
      then gpio_do (Gpio_pull_down pin) (gpio_do (Gpio_set_dir pin GPIO_IN) (gpio_do (Gpio_init pin) io))
      else io)"

definition power_pins_init :: "build_config \<Rightarrow> ('t, 'w) power_io \<Rightarrow> ('t, 'w) power_io" where
  "power_pins_init cfg io =
     (let io = sense_pin_init (PIN_PWR_OK_SENSE cfg) io;
          io = sense_pin_init (PIN_USB_VBUS_SENSE cfg) io;
          io = (if PIN_PWR_BUTTON_OUT cfg \<ge> 0
                then power_button_release cfg (gpio_do (Gpio_init (PIN_PWR_BUTTON_OUT cfg)) io)
                else io);
          io = (if PIN_LED_STATUS cfg \<ge> 0
                then gpio_do (Gpio_put (PIN_LED_STATUS cfg) False)
                       (gpio_do (Gpio_set_dir (PIN_LED_STATUS cfg) GPIO_OUT)
                         (gpio_do (Gpio_init (PIN_LED_STATUS cfg)) io))
                else io)
      in if PIN_LED_FAULT cfg \<ge> 0
         then gpio_do (Gpio_set_dir (PIN_LED_FAULT cfg) GPIO_OUT)
                (gpio_do (Gpio_init (PIN_LED_FAULT cfg)) io)
         else io)"

section \<open>The state machine\<close>

definition power_supervisor_init ::
    "build_config \<Rightarrow> ('t, 'w) power_hw \<Rightarrow> 't power \<Rightarrow> ('t, 'w) power_io
       \<Rightarrow> 't power \<times> ('t, 'w) power_io" where
  "power_supervisor_init cfg hw p io =
     (let io = power_pins_init cfg io;
          ck = hw_clock hw; n = io_now io;
          pwr = pin_read_or_default hw n (PIN_PWR_OK_SENSE cfg) True;
          vbus = pin_read_or_default hw n (PIN_USB_VBUS_SENSE cfg) True;
          p = p\<lparr>pwr_ok_filtered := pwr, pwr_ok_last_raw := pwr,
                usb_vbus_filtered := vbus, usb_vbus_last_raw := vbus,
                pwr_ok_changed_at := sdk_make_timeout_time_ms ck n 0,
                usb_vbus_changed_at := sdk_make_timeout_time_ms ck n 0,
                power_state := (if pwr \<and> vbus then POWER_STATE_HOST_ON_USB_HCI
                                else POWER_STATE_HOST_OFF)\<rparr>
      in (p\<lparr>standby_armed_at :=
              (if power_state p = POWER_STATE_HOST_OFF then standby_arm_deadline cfg ck n p
               else sdk_nil_time ck)\<rparr>, io))"

definition power_supervisor_debug_force_standby ::
    "build_config \<Rightarrow> ('t, 'w) power_hw \<Rightarrow> nat \<Rightarrow> bool \<Rightarrow> 't power \<Rightarrow> 't power" where
  "power_supervisor_debug_force_standby cfg hw n force p =
     (let p = p\<lparr>debug_force_standby := force\<rparr> in
      if force
      then p\<lparr>pwr_ok_filtered := False, pwr_ok_last_raw := False,
             usb_vbus_filtered := False, usb_vbus_last_raw := False,
             standby_armed_at := sdk_nil_time (hw_clock hw), wake_requested := False\<rparr>
      else let pwr = pin_read_or_default hw n (PIN_PWR_OK_SENSE cfg) True;
               vbus = pin_read_or_default hw n (PIN_USB_VBUS_SENSE cfg) True
           in p\<lparr>pwr_ok_filtered := pwr, pwr_ok_last_raw := pwr,
                usb_vbus_filtered := vbus, usb_vbus_last_raw := vbus\<rparr>)"

text \<open>No reason is the \<open>NULL\<close> pointer.\<close>

definition power_supervisor_request_wake ::
    "'t pico_clock \<Rightarrow> nat \<Rightarrow> string option \<Rightarrow> 't power \<Rightarrow> 't power" where
  "power_supervisor_request_wake ck n reason p =
     (if power_state p \<noteq> POWER_STATE_STANDBY_HCI_HOST \<and> power_state p \<noteq> POWER_STATE_HOST_OFF then p
      else if \<not> sdk_time_reached ck n (cooldown_until p) then p
      else if \<not> standby_wake_armed ck n p then p
      else p\<lparr>wake_reason := (case reason of Some r \<Rightarrow> r | None \<Rightarrow> ''wake policy''),
             wake_requested := True\<rparr>)"

definition set_state ::
    "build_config \<Rightarrow> 't pico_clock \<Rightarrow> nat \<Rightarrow> power_state_t \<Rightarrow> 't power \<Rightarrow> 't power" where
  "set_state cfg ck n nxt p =
     (if power_state p = nxt then p
      else let p = p\<lparr>power_state := nxt\<rparr> in
        if nxt = POWER_STATE_HOST_OFF
        then p\<lparr>standby_armed_at := standby_arm_deadline cfg ck n p, wake_requested := False\<rparr>
        else if nxt \<noteq> POWER_STATE_STANDBY_HCI_HOST
        then p\<lparr>standby_armed_at := sdk_nil_time ck\<rparr>
        else p)"

definition power_inputs_on :: "'t power \<Rightarrow> bool" where
  "power_inputs_on p \<longleftrightarrow> power_supervisor_pwr_ok p \<and> power_supervisor_usb_vbus_present p"

text \<open>The \<open>POWER_STATE_WAKE_PULSE\<close> case of the task.\<close>

definition power_wake_pulse ::
    "build_config \<Rightarrow> ('t, 'w) power_hw \<Rightarrow> 't power \<Rightarrow> ('t, 'w) power_io
       \<Rightarrow> 't power \<times> ('t, 'w) power_io" where
  "power_wake_pulse cfg hw p io =
     (let ck = hw_clock hw;
          (hid, usb) = usb_hid_wake_request_keypress cfg (hw_usb hw) (io_hid io) (io_usb io);
          io = io\<lparr>io_hid := hid, io_usb := usb\<rparr>;
          io = (if ENABLE_POWER_BUTTON_WAKE cfg \<and> \<not> power_supervisor_pwr_ok p
                then power_supervisor_pulse_power_button_ms cfg hw (POWER_BUTTON_PULSE_MS cfg) io
                else io);
          n = io_now io;
          p = p\<lparr>cooldown_until := sdk_make_timeout_time_ms ck n (POST_WAKE_SENSE_SETTLE_MS cfg),
                state_deadline := sdk_make_timeout_time_ms ck n (POST_WAKE_SENSE_SETTLE_MS cfg)\<rparr>
      in (set_state cfg ck n POWER_STATE_WAIT_WAKE_SENSE_SETTLE p, io))"

definition power_fault_led ::
    "build_config \<Rightarrow> ('t, 'w) power_hw \<Rightarrow> ('t, 'w) power_io \<Rightarrow> ('t, 'w) power_io" where
  "power_fault_led cfg hw io =
     (if PIN_LED_FAULT cfg \<ge> 0
      then gpio_do (Gpio_put (PIN_LED_FAULT cfg)
             ((sdk_ms_since_boot (hw_clock hw) (io_now io) div 100) AND 1 \<noteq> 0)) io
      else io)"

text \<open>The \<open>switch\<close> of the task, after the inputs are updated.\<close>

definition power_switch ::
    "build_config \<Rightarrow> ('t, 'w) power_hw \<Rightarrow> 't power \<Rightarrow> ('t, 'w) power_io
       \<Rightarrow> 't power \<times> ('t, 'w) power_io" where
  "power_switch cfg hw p io =
     (let ck = hw_clock hw; n = io_now io in
      case power_state p of
        POWER_STATE_HOST_OFF \<Rightarrow>
          (if power_inputs_on p then set_state cfg ck n POWER_STATE_HOST_ON_USB_HCI p
           else if standby_wake_armed ck n p then set_state cfg ck n POWER_STATE_STANDBY_HCI_HOST p
           else p, io)
      | POWER_STATE_STANDBY_HCI_HOST \<Rightarrow>
          (if power_inputs_on p then set_state cfg ck n POWER_STATE_HOST_ON_USB_HCI p
           else if wake_requested p
           then let p = p\<lparr>wake_requested := False\<rparr>
                in if ENABLE_POWER_BUTTON_WAKE cfg \<or> ENABLE_STANDBY_HID_KEYBOARD cfg
                   then set_state cfg ck n POWER_STATE_WAKE_PULSE p else p
           else p, io)
      | POWER_STATE_WAKE_PULSE \<Rightarrow> power_wake_pulse cfg hw p io
      | POWER_STATE_WAIT_WAKE_SENSE_SETTLE \<Rightarrow>
          (if power_inputs_on p then set_state cfg ck n POWER_STATE_HOST_ON_USB_HCI p
           else if sdk_time_reached ck n (state_deadline p)
           then set_state cfg ck n POWER_STATE_WAIT_HOST_BOOT
                  (p\<lparr>state_deadline := sdk_make_timeout_time_ms ck n 120000\<rparr>)
           else p, io)
      | POWER_STATE_WAIT_HOST_BOOT \<Rightarrow>
          (if power_inputs_on p then set_state cfg ck n POWER_STATE_HOST_ON_USB_HCI p
           else if sdk_time_reached ck n (state_deadline p)
           then set_state cfg ck n POWER_STATE_HOST_OFF p
           else p, io)
      | POWER_STATE_HOST_ON_USB_HCI \<Rightarrow>
          (if \<not> power_supervisor_pwr_ok p
           then (set_state cfg ck n POWER_STATE_HOST_SHUTTING_DOWN p)
                  \<lparr>state_deadline := sdk_make_timeout_time_ms ck n 1500, wake_requested := False\<rparr>
           else p, io)
      | POWER_STATE_HOST_SHUTTING_DOWN \<Rightarrow>
          (if sdk_time_reached ck n (state_deadline p)
           then set_state cfg ck n POWER_STATE_HOST_OFF p else p, io)
      | POWER_STATE_FAULT \<Rightarrow> (p, power_fault_led cfg hw io)
      | POWER_STATE_UNKNOWN \<Rightarrow> (set_state cfg ck n POWER_STATE_HOST_OFF p, io))"

definition power_supervisor_task ::
    "build_config \<Rightarrow> ('t, 'w) power_hw \<Rightarrow> 't power \<Rightarrow> ('t, 'w) power_io
       \<Rightarrow> 't power \<times> ('t, 'w) power_io" where
  "power_supervisor_task cfg hw p io =
     (let p = update_power_inputs cfg hw (io_now io) p;
          (p, io) = power_switch cfg hw p io
      in (p, update_status_led cfg hw p io))"

lemmas power_input_defs = power_supervisor_pwr_ok_def power_supervisor_usb_vbus_present_def
  power_inputs_on_def

end
