(* ===== verification/Power_Safety.thy ===== *)
theory Power_Safety
  imports Power_Supervisor
begin

text \<open>
  What the power supervisor guarantees over whole runs: the transitions it can take, the
  spacing and shape of the power-button pulses, the arming delay, the debouncing of the
  sense pins and the meaning of the status LED.
\<close>

section \<open>Runs\<close>

text \<open>
  Between two calls of the supervisor the timer advances and the rest of the firmware runs:
  it may change the keyboard and the USB world, not the GPIO trace. \<open>dbg\<close> tells whether the
  debug command that forces standby may be used.
\<close>

inductive power_step ::
    "build_config \<Rightarrow> ('t, 'w) power_hw \<Rightarrow> bool
       \<Rightarrow> 't power \<times> ('t, 'w) power_io \<Rightarrow> 't power \<times> ('t, 'w) power_io \<Rightarrow> bool"
  for cfg hw dbg where
  power_wait:
    "io_now io \<le> n \<Longrightarrow>
     power_step cfg hw dbg (p, io) (p, io\<lparr>io_now := n, io_hid := h, io_usb := w\<rparr>)"
| power_request:
    "power_step cfg hw dbg (p, io)
       (power_supervisor_request_wake (hw_clock hw) (io_now io) reason p, io)"
| power_task:
    "power_supervisor_task cfg hw p io = (p', io') \<Longrightarrow> power_step cfg hw dbg (p, io) (p', io')"
| power_debug:
    "dbg \<Longrightarrow> power_step cfg hw dbg (p, io)
       (power_supervisor_debug_force_standby cfg hw (io_now io) force p, io)"

section \<open>What one call changes\<close>

lemma set_state_state [simp]: "power_state (set_state cfg ck n s p) = s"
  by (simp add: set_state_def)

lemma set_state_fields [simp]:
  "cooldown_until (set_state cfg ck n s p) = cooldown_until p"
  "state_deadline (set_state cfg ck n s p) = state_deadline p"
  "debug_force_standby (set_state cfg ck n s p) = debug_force_standby p"
  "pwr_ok_filtered (set_state cfg ck n s p) = pwr_ok_filtered p"
  "usb_vbus_filtered (set_state cfg ck n s p) = usb_vbus_filtered p"
  "wake_reason (set_state cfg ck n s p) = wake_reason p"
  by (simp_all add: set_state_def)

lemma set_state_requested:
  "wake_requested (set_state cfg ck n s p) \<longleftrightarrow>
   wake_requested p \<and> (power_state p = s \<or> s \<noteq> POWER_STATE_HOST_OFF)"
  by (auto simp: set_state_def)

lemma set_state_armed_at:
  "standby_armed_at (set_state cfg ck n s p) =
     (if power_state p = s \<or> s = POWER_STATE_STANDBY_HCI_HOST then standby_armed_at p
      else if s = POWER_STATE_HOST_OFF then standby_arm_deadline cfg ck n p
      else sdk_nil_time ck)"
  by (auto simp: set_state_def standby_arm_deadline_def)

lemma update_power_inputs_fields [simp]:
  "power_state (update_power_inputs cfg hw n p) = power_state p"
  "wake_requested (update_power_inputs cfg hw n p) = wake_requested p"
  "debug_force_standby (update_power_inputs cfg hw n p) = debug_force_standby p"
  "cooldown_until (update_power_inputs cfg hw n p) = cooldown_until p"
  "state_deadline (update_power_inputs cfg hw n p) = state_deadline p"
  "standby_armed_at (update_power_inputs cfg hw n p) = standby_armed_at p"
  by (simp_all add: update_power_inputs_def split_beta)

lemma standby_wake_armed_inputs [simp]:
  "standby_wake_armed ck m (update_power_inputs cfg hw n p) = standby_wake_armed ck m p"
  by (simp add: standby_wake_armed_def)

lemma debug_force_fields [simp]:
  "power_state (power_supervisor_debug_force_standby cfg hw n force p) = power_state p"
  "cooldown_until (power_supervisor_debug_force_standby cfg hw n force p) = cooldown_until p"
  "wake_requested (power_supervisor_debug_force_standby cfg hw n force p) \<longleftrightarrow>
     wake_requested p \<and> \<not> force"
  by (simp_all add: power_supervisor_debug_force_standby_def)

lemma gpio_do_fields [simp]:
  "io_now (gpio_do op io) = io_now io"
  "io_gpio (gpio_do op io) = io_gpio io @ [(io_now io, op)]"
  "io_hid (gpio_do op io) = io_hid io"
  "io_usb (gpio_do op io) = io_usb io"
  by (simp_all add: gpio_do_def)

section \<open>Transitions\<close>

text \<open>The edges of the state machine.\<close>

inductive power_edge :: "power_state_t \<Rightarrow> power_state_t \<Rightarrow> bool" where
  "power_edge POWER_STATE_UNKNOWN POWER_STATE_HOST_OFF"
| "power_edge POWER_STATE_HOST_OFF POWER_STATE_HOST_ON_USB_HCI"
| "power_edge POWER_STATE_HOST_OFF POWER_STATE_STANDBY_HCI_HOST"
| "power_edge POWER_STATE_STANDBY_HCI_HOST POWER_STATE_HOST_ON_USB_HCI"
| "power_edge POWER_STATE_STANDBY_HCI_HOST POWER_STATE_WAKE_PULSE"
| "power_edge POWER_STATE_WAKE_PULSE POWER_STATE_WAIT_WAKE_SENSE_SETTLE"
| "power_edge POWER_STATE_WAIT_WAKE_SENSE_SETTLE POWER_STATE_HOST_ON_USB_HCI"
| "power_edge POWER_STATE_WAIT_WAKE_SENSE_SETTLE POWER_STATE_WAIT_HOST_BOOT"
| "power_edge POWER_STATE_WAIT_HOST_BOOT POWER_STATE_HOST_ON_USB_HCI"
| "power_edge POWER_STATE_WAIT_HOST_BOOT POWER_STATE_HOST_OFF"
| "power_edge POWER_STATE_HOST_ON_USB_HCI POWER_STATE_HOST_SHUTTING_DOWN"
| "power_edge POWER_STATE_HOST_SHUTTING_DOWN POWER_STATE_HOST_OFF"

inductive_simps power_edge_simps [simp]:
  "power_edge POWER_STATE_UNKNOWN s"
  "power_edge POWER_STATE_HOST_OFF s"
  "power_edge POWER_STATE_STANDBY_HCI_HOST s"
  "power_edge POWER_STATE_WAKE_PULSE s"
  "power_edge POWER_STATE_WAIT_WAKE_SENSE_SETTLE s"
  "power_edge POWER_STATE_WAIT_HOST_BOOT s"
  "power_edge POWER_STATE_HOST_ON_USB_HCI s"
  "power_edge POWER_STATE_HOST_SHUTTING_DOWN s"
  "power_edge POWER_STATE_FAULT s"

lemma power_wake_pulse_state:
  "power_state (fst (power_wake_pulse cfg hw p io)) = POWER_STATE_WAIT_WAKE_SENSE_SETTLE"
  by (simp add: power_wake_pulse_def split_beta)

text \<open>The guards of each edge, as the switch reads them.\<close>

definition power_guard ::
    "build_config \<Rightarrow> 't pico_clock \<Rightarrow> nat \<Rightarrow> 't power \<Rightarrow> power_state_t \<Rightarrow> bool" where
  "power_guard cfg ck n p s \<longleftrightarrow>
     (case power_state p of
        POWER_STATE_UNKNOWN \<Rightarrow> s = POWER_STATE_HOST_OFF
      | POWER_STATE_HOST_OFF \<Rightarrow>
          s = POWER_STATE_HOST_ON_USB_HCI \<and> power_inputs_on p \<or>
          s = POWER_STATE_STANDBY_HCI_HOST \<and> \<not> power_inputs_on p \<and> standby_wake_armed ck n p
      | POWER_STATE_STANDBY_HCI_HOST \<Rightarrow>
          s = POWER_STATE_HOST_ON_USB_HCI \<and> power_inputs_on p \<or>
          s = POWER_STATE_WAKE_PULSE \<and> \<not> power_inputs_on p \<and> wake_requested p \<and>
            (ENABLE_POWER_BUTTON_WAKE cfg \<or> ENABLE_STANDBY_HID_KEYBOARD cfg)
      | POWER_STATE_WAKE_PULSE \<Rightarrow> s = POWER_STATE_WAIT_WAKE_SENSE_SETTLE
      | POWER_STATE_WAIT_WAKE_SENSE_SETTLE \<Rightarrow>
          s = POWER_STATE_HOST_ON_USB_HCI \<and> power_inputs_on p \<or>
          s = POWER_STATE_WAIT_HOST_BOOT \<and> \<not> power_inputs_on p \<and>
            sdk_time_reached ck n (state_deadline p)
      | POWER_STATE_WAIT_HOST_BOOT \<Rightarrow>
          s = POWER_STATE_HOST_ON_USB_HCI \<and> power_inputs_on p \<or>
          s = POWER_STATE_HOST_OFF \<and> \<not> power_inputs_on p \<and>
            sdk_time_reached ck n (state_deadline p)
      | POWER_STATE_HOST_ON_USB_HCI \<Rightarrow>
          s = POWER_STATE_HOST_SHUTTING_DOWN \<and> \<not> pwr_ok_filtered p
      | POWER_STATE_HOST_SHUTTING_DOWN \<Rightarrow>
          s = POWER_STATE_HOST_OFF \<and> sdk_time_reached ck n (state_deadline p)
      | POWER_STATE_FAULT \<Rightarrow> False)"

lemma power_guard_edge: "power_guard cfg ck n p s \<Longrightarrow> power_edge (power_state p) s"
  by (auto simp: power_guard_def split: power_state_t.splits)

lemma power_switch_guard:
  "power_state (fst (power_switch cfg hw p io)) = s \<longleftrightarrow>
   power_guard cfg (hw_clock hw) (io_now io) p s \<or>
   s = power_state p \<and> (\<forall>s'. \<not> power_guard cfg (hw_clock hw) (io_now io) p s')"
  by (cases "power_state p")
     (auto simp: power_switch_def power_guard_def power_wake_pulse_state power_supervisor_pwr_ok_def)

lemma power_task_split:
  "power_supervisor_task cfg hw p io =
     (fst (power_switch cfg hw (update_power_inputs cfg hw (io_now io) p) io),
      update_status_led cfg hw
        (fst (power_switch cfg hw (update_power_inputs cfg hw (io_now io) p) io))
        (snd (power_switch cfg hw (update_power_inputs cfg hw (io_now io) p) io)))"
  by (simp add: power_supervisor_task_def split_beta)

section \<open>The power button\<close>

text \<open>The readings at which the button line was driven, and whether it is driven now.\<close>

definition button_presses :: "int \<Rightarrow> (nat \<times> gpio_op) list \<Rightarrow> nat list" where
  "button_presses pin tr = map fst (filter (\<lambda>(n, op). op = Gpio_set_dir pin GPIO_OUT) tr)"

fun button_drive :: "int \<Rightarrow> nat \<times> gpio_op \<Rightarrow> bool \<Rightarrow> bool" where
  "button_drive pin (n, Gpio_set_dir p dir) d = (if p = pin then dir = GPIO_OUT else d)"
| "button_drive pin (n, Gpio_init p) d = (if p = pin then False else d)"
| "button_drive pin (n, op) d = d"

definition button_driven :: "int \<Rightarrow> (nat \<times> gpio_op) list \<Rightarrow> bool" where
  "button_driven pin tr = fold (button_drive pin) tr False"

lemma button_presses_append [simp]:
  "button_presses pin (tr @ tr') = button_presses pin tr @ button_presses pin tr'"
  "button_presses pin [] = []"
  "button_presses pin ((n, op) # tr) =
     (if op = Gpio_set_dir pin GPIO_OUT then [n] else []) @ button_presses pin tr"
  by (simp_all add: button_presses_def)

lemma button_driven_append [simp]:
  "button_driven pin [] = False"
  "button_driven pin (x # tr) = fold (button_drive pin) tr (button_drive pin x False)"
  "button_driven pin (tr @ tr') = fold (button_drive pin) tr' (button_driven pin tr)"
  by (simp_all add: button_driven_def)

text \<open>Everything but the pulse leaves the button alone.\<close>

definition same_button ::
    "build_config \<Rightarrow> ('t, 'w) power_io \<Rightarrow> ('t, 'w) power_io \<Rightarrow> bool" where
  "same_button cfg io io' \<longleftrightarrow>
     io_now io' = io_now io \<and>
     button_presses (PIN_PWR_BUTTON_OUT cfg) (io_gpio io') =
       button_presses (PIN_PWR_BUTTON_OUT cfg) (io_gpio io) \<and>
     button_driven (PIN_PWR_BUTTON_OUT cfg) (io_gpio io') =
       button_driven (PIN_PWR_BUTTON_OUT cfg) (io_gpio io)"

lemma same_button_refl [simp]: "same_button cfg io io"
  by (simp add: same_button_def)

lemma status_led_put_button [simp]: "same_button cfg io (status_led_put cfg on io)"
  by (simp add: status_led_put_def same_button_def split: option.splits)

lemma status_led_put_fields [simp]:
  "io_now (status_led_put cfg on io) = io_now io"
  "io_hid (status_led_put cfg on io) = io_hid io"
  "io_usb (status_led_put cfg on io) = io_usb io"
  by (simp_all add: status_led_put_def split: option.splits)

lemma power_fault_led_button: "same_button cfg io (power_fault_led cfg hw io)"
  by (simp add: power_fault_led_def same_button_def)

lemma update_status_led_button: "same_button cfg io (update_status_led cfg hw p io)"
  by (simp add: update_status_led_def)

text \<open>One pulse: the line is pulled low, held for the sleep, released with its pull-up.\<close>

lemma power_pulse_trace:
  assumes "PIN_PWR_BUTTON_OUT cfg \<ge> 0"
  defines "pin \<equiv> PIN_PWR_BUTTON_OUT cfg"
  shows "power_supervisor_pulse_power_button_ms cfg hw ms io =
     (let m = sdk_sleep_ms (hw_clock hw) (io_now io) ms
      in io\<lparr>io_now := m,
            io_gpio := io_gpio io @
              [(io_now io, Gpio_put pin False), (io_now io, Gpio_set_dir pin GPIO_OUT),
               (m, Gpio_put pin False), (m, Gpio_set_dir pin GPIO_IN), (m, Gpio_pull_up pin)]\<rparr>)"
  using assms by (simp add: power_supervisor_pulse_power_button_ms_def power_button_press_def
    power_button_release_def gpio_do_def)

lemma power_pulse_off:
  "PIN_PWR_BUTTON_OUT cfg < 0 \<Longrightarrow> power_supervisor_pulse_power_button_ms cfg hw ms io = io"
  by (simp add: power_supervisor_pulse_power_button_ms_def)

section \<open>Spacing of the pulses\<close>

definition pulse_gap :: "build_config \<Rightarrow> nat" where
  "pulse_gap cfg = 1000 * (POWER_BUTTON_PULSE_MS cfg + POST_WAKE_SENSE_SETTLE_MS cfg)"

text \<open>All presses lie at least a gap before a reading, in the order made.\<close>

definition spaced :: "nat \<Rightarrow> nat list \<Rightarrow> bool" where
  "spaced gap ts \<longleftrightarrow> sorted_wrt (\<lambda>a b. a + gap \<le> b) ts"

definition all_before :: "nat \<Rightarrow> nat list \<Rightarrow> nat \<Rightarrow> bool" where
  "all_before gap ts n \<longleftrightarrow> (\<forall>a \<in> set ts. a + gap \<le> n)"

lemma spaced_snoc: "spaced gap (ts @ [n]) \<longleftrightarrow> spaced gap ts \<and> all_before gap ts n"
  by (auto simp: spaced_def all_before_def sorted_wrt_append)

lemma all_before_mono: "all_before gap ts n \<Longrightarrow> n \<le> m \<Longrightarrow> all_before gap ts m"
  by (auto simp: all_before_def)

lemma all_before_snoc: "all_before gap (ts @ [n]) m \<longleftrightarrow> all_before gap ts m \<and> n + gap \<le> m"
  by (auto simp: all_before_def)

text \<open>
  The invariant: pulses are spaced; the end of the cooldown is past the gap after every
  pulse; a wake that is requested or about to be acted on was requested after the cooldown;
  the line is not left driven.
\<close>

definition presses_of :: "build_config \<Rightarrow> ('t, 'w) power_io \<Rightarrow> nat list" where
  "presses_of cfg io = button_presses (PIN_PWR_BUTTON_OUT cfg) (io_gpio io)"

definition pulse_inv ::
    "build_config \<Rightarrow> 't pico_clock \<Rightarrow> 't power \<times> ('t, 'w) power_io \<Rightarrow> bool" where
  "pulse_inv cfg ck s \<longleftrightarrow>
     (case s of (p, io) \<Rightarrow>
       spaced (pulse_gap cfg) (presses_of cfg io) \<and>
       (\<forall>m. io_now io \<le> m \<and> sdk_time_reached ck m (cooldown_until p) \<longrightarrow>
            all_before (pulse_gap cfg) (presses_of cfg io) m) \<and>
       (wake_requested p \<or> power_state p = POWER_STATE_WAKE_PULSE \<longrightarrow>
            all_before (pulse_gap cfg) (presses_of cfg io) (io_now io)) \<and>
       (power_state p = POWER_STATE_WAKE_PULSE \<longrightarrow> \<not> wake_requested p) \<and>
       \<not> button_driven (PIN_PWR_BUTTON_OUT cfg) (io_gpio io))"

lemma pulse_inv_button:
  "same_button cfg io io' \<Longrightarrow> pulse_inv cfg ck (p, io') = pulse_inv cfg ck (p, io)"
  by (simp add: pulse_inv_def same_button_def presses_of_def)

lemma pulse_inv_cong:
  "pulse_inv cfg ck (p, io) \<Longrightarrow> cooldown_until p' = cooldown_until p \<Longrightarrow>
   (wake_requested p' \<or> power_state p' = POWER_STATE_WAKE_PULSE \<Longrightarrow>
      wake_requested p \<or> power_state p = POWER_STATE_WAKE_PULSE) \<Longrightarrow>
   (power_state p' = POWER_STATE_WAKE_PULSE \<Longrightarrow> \<not> wake_requested p') \<Longrightarrow>
   pulse_inv cfg ck (p', io)"
  by (auto simp: pulse_inv_def)

lemma pulse_inv_wait:
  "pulse_inv cfg ck (p, io) \<Longrightarrow> io_now io \<le> n \<Longrightarrow>
   pulse_inv cfg ck (p, io\<lparr>io_now := n, io_hid := h, io_usb := w\<rparr>)"
  by (auto simp: pulse_inv_def presses_of_def intro: all_before_mono)

lemma pulse_inv_request:
  "pulse_inv cfg ck (p, io) \<Longrightarrow>
   pulse_inv cfg ck (power_supervisor_request_wake ck (io_now io) reason p, io)"
  by (auto simp: pulse_inv_def power_supervisor_request_wake_def)

lemma pulse_inv_debug:
  "pulse_inv cfg (hw_clock hw) (p, io) \<Longrightarrow>
   pulse_inv cfg (hw_clock hw) (power_supervisor_debug_force_standby cfg hw n force p, io)"
  by (auto simp: pulse_inv_def)

lemma pulse_inv_wake_pulse:
  assumes ck: "pico_clock_ok (hw_clock hw)" and inv: "pulse_inv cfg (hw_clock hw) (p, io)"
    and st: "power_state p = POWER_STATE_WAKE_PULSE"
  shows "pulse_inv cfg (hw_clock hw) (power_wake_pulse cfg hw p io)"
proof -
  let ?ck = "hw_clock hw" and ?gap = "pulse_gap cfg" and ?pin = "PIN_PWR_BUTTON_OUT cfg"
  let ?hid = "usb_hid_wake_request_keypress cfg (hw_usb hw) (io_hid io) (io_usb io)"
  let ?io1 = "io\<lparr>io_hid := fst ?hid, io_usb := snd ?hid\<rparr>"
  let ?io2 = "if ENABLE_POWER_BUTTON_WAKE cfg \<and> \<not> power_supervisor_pwr_ok p
              then power_supervisor_pulse_power_button_ms cfg hw (POWER_BUTTON_PULSE_MS cfg) ?io1
              else ?io1"
  obtain p2 where eq: "power_wake_pulse cfg hw p io = (p2, ?io2)"
    and cool: "cooldown_until p2 =
      sdk_make_timeout_time_ms ?ck (io_now ?io2) (POST_WAKE_SENSE_SETTLE_MS cfg)"
    and req: "wake_requested p2 = wake_requested p"
    and st': "power_state p2 = POWER_STATE_WAIT_WAKE_SENSE_SETTLE"
    by (simp add: power_wake_pulse_def split_beta set_state_requested)
  from inv st have sp: "spaced ?gap (presses_of cfg io)"
    and bf: "all_before ?gap (presses_of cfg io) (io_now io)"
    and dr: "\<not> button_driven ?pin (io_gpio io)" and nr: "\<not> wake_requested p"
    by (simp_all add: pulse_inv_def)
  show ?thesis
  proof (cases "ENABLE_POWER_BUTTON_WAKE cfg \<and> \<not> power_supervisor_pwr_ok p \<and> ?pin \<ge> 0")
    case False
    then have io2: "?io2 = ?io1" by (auto simp: power_pulse_off)
    show ?thesis
      unfolding eq io2 pulse_inv_def
      using sp bf dr nr req st' by (auto simp: presses_of_def intro: all_before_mono)
  next
    case True
    let ?m = "sdk_sleep_ms ?ck (io_now io) (POWER_BUTTON_PULSE_MS cfg)"
    from True have io2: "?io2 = ?io1\<lparr>io_now := ?m,
            io_gpio := io_gpio io @
              [(io_now io, Gpio_put ?pin False), (io_now io, Gpio_set_dir ?pin GPIO_OUT),
               (?m, Gpio_put ?pin False), (?m, Gpio_set_dir ?pin GPIO_IN), (?m, Gpio_pull_up ?pin)]\<rparr>"
      by (simp add: power_pulse_trace)
    have m: "io_now io + 1000 * POWER_BUTTON_PULSE_MS cfg \<le> ?m" by (rule clock_sleep [OF ck])
    have pr: "presses_of cfg ?io2 = presses_of cfg io @ [io_now io]"
      unfolding io2 by (simp add: presses_of_def)
    have nd: "\<not> button_driven ?pin (io_gpio ?io2)"
      unfolding io2 by (simp add: button_driven_def)
    have now: "io_now ?io2 = ?m"
      unfolding io2 by simp
    have late: "all_before ?gap (presses_of cfg ?io2) k"
      if "?m \<le> k" "sdk_time_reached ?ck k (cooldown_until p2)" for k
    proof -
      from that(2) cool now ck have "?m + 1000 * POST_WAKE_SENSE_SETTLE_MS cfg \<le> k"
        by (simp add: clock_simps)
      with m have "io_now io + ?gap \<le> k" by (simp add: pulse_gap_def)
      then show ?thesis
        unfolding pr all_before_snoc using all_before_mono [OF bf] by simp
    qed
    show ?thesis
      unfolding eq pulse_inv_def prod.case pr spaced_snoc now
      using sp bf nd late req nr st' pr by auto
  qed
qed

lemma pulse_inv_switch:
  assumes ck: "pico_clock_ok (hw_clock hw)" and inv: "pulse_inv cfg (hw_clock hw) (p, io)"
  shows "pulse_inv cfg (hw_clock hw) (power_switch cfg hw p io)"
proof (cases "power_state p")
  case POWER_STATE_WAKE_PULSE
  with pulse_inv_wake_pulse [OF ck inv] show ?thesis by (simp add: power_switch_def)
next
  case POWER_STATE_FAULT
  with inv show ?thesis
    by (simp add: power_switch_def pulse_inv_button [OF power_fault_led_button])
qed (auto simp: power_switch_def set_state_requested intro!: pulse_inv_cong [OF inv])

lemma pulse_inv_task:
  assumes "pico_clock_ok (hw_clock hw)" "pulse_inv cfg (hw_clock hw) (p, io)"
  shows "pulse_inv cfg (hw_clock hw) (power_supervisor_task cfg hw p io)"
proof -
  let ?p = "update_power_inputs cfg hw (io_now io) p"
  have "pulse_inv cfg (hw_clock hw) (?p, io)"
    using assms(2) by (auto simp: pulse_inv_def)
  then have "pulse_inv cfg (hw_clock hw) (power_switch cfg hw ?p io)"
    by (rule pulse_inv_switch [OF assms(1)])
  then show ?thesis
    unfolding power_task_split pulse_inv_button [OF update_status_led_button] by simp
qed

lemma pulse_inv_step:
  assumes "power_step cfg hw dbg s s'" "pico_clock_ok (hw_clock hw)" "pulse_inv cfg (hw_clock hw) s"
  shows "pulse_inv cfg (hw_clock hw) s'"
  using assms
proof cases
  case (power_wait io n p w h)
  with assms(3) show ?thesis by (simp add: pulse_inv_wait)
next
  case (power_request p io reason)
  with assms(3) show ?thesis by (simp add: pulse_inv_request)
next
  case (power_task p io p' io')
  with assms(3) pulse_inv_task [OF assms(2), of cfg p io] show ?thesis by simp
next
  case (power_debug p io force)
  with assms(3) show ?thesis by (simp add: pulse_inv_debug)
qed

lemma pulse_inv_run:
  assumes "(power_step cfg hw dbg)\<^sup>*\<^sup>* s s'" "pico_clock_ok (hw_clock hw)"
    and "pulse_inv cfg (hw_clock hw) s"
  shows "pulse_inv cfg (hw_clock hw) s'"
  using assms(1,3) by (induction rule: rtranclp_induct) (auto intro: pulse_inv_step assms(2))

text \<open>At boot: pins that are not shared leave the line released and no press made.\<close>

definition button_pin_distinct :: "build_config \<Rightarrow> bool" where
  "button_pin_distinct cfg \<longleftrightarrow>
     PIN_PWR_BUTTON_OUT cfg \<ge> 0 \<longrightarrow>
     PIN_PWR_BUTTON_OUT cfg \<noteq> PIN_LED_STATUS cfg \<and> PIN_PWR_BUTTON_OUT cfg \<noteq> PIN_LED_FAULT cfg"

lemma power_pins_init_trace:
  assumes "button_pin_distinct cfg" "io_gpio io = []"
  shows "presses_of cfg (power_pins_init cfg io) = []"
    and "\<not> button_driven (PIN_PWR_BUTTON_OUT cfg) (io_gpio (power_pins_init cfg io))"
  using assms
  by (auto simp: power_pins_init_def sense_pin_init_def power_button_release_def presses_of_def
      button_pin_distinct_def)

lemma power_init_fields:
  "power_state (fst (power_supervisor_init cfg hw p io)) \<in>
     {POWER_STATE_HOST_ON_USB_HCI, POWER_STATE_HOST_OFF}"
  "wake_requested (fst (power_supervisor_init cfg hw p io)) = wake_requested p"
  "snd (power_supervisor_init cfg hw p io) = power_pins_init cfg io"
  by (auto simp: power_supervisor_init_def)

lemma pulse_inv_init:
  assumes "button_pin_distinct cfg" "io_gpio io = []"
  shows "pulse_inv cfg (hw_clock hw) (power_supervisor_init cfg hw (power_boot ck) io)"
proof -
  obtain p io' where r: "power_supervisor_init cfg hw (power_boot ck) io = (p, io')"
    by fastforce
  with power_init_fields [of cfg hw "power_boot ck" io]
  have "\<not> wake_requested p" "power_state p \<noteq> POWER_STATE_WAKE_PULSE"
    and io': "io' = power_pins_init cfg io"
    by (auto simp: power_boot_def)
  with power_pins_init_trace [OF assms] show ?thesis
    unfolding r by (auto simp: pulse_inv_def spaced_def all_before_def)
qed

section \<open>The arming delay\<close>

lemma request_wake_fields [simp]:
  "power_state (power_supervisor_request_wake ck n r p) = power_state p"
  "standby_armed_at (power_supervisor_request_wake ck n r p) = standby_armed_at p"
  "debug_force_standby (power_supervisor_request_wake ck n r p) = debug_force_standby p"
  "pwr_ok_filtered (power_supervisor_request_wake ck n r p) = pwr_ok_filtered p"
  by (simp_all add: power_supervisor_request_wake_def)

text \<open>
  Until the delay counted from reading \<open>n\<close> is over, the PC counts as off and not armed, or as on,
  or as shutting down.
\<close>

definition arming ::
    "build_config \<Rightarrow> 't pico_clock \<Rightarrow> nat \<Rightarrow> nat list \<Rightarrow> 't power \<times> ('t, 'w) power_io \<Rightarrow> bool" where
  "arming cfg ck n pressed s \<longleftrightarrow>
     (case s of (p, io) \<Rightarrow>
       n \<le> io_now io \<and>
       (io_now io < n + 1000 * STANDBY_WAKE_ARM_DELAY_MS cfg \<longrightarrow>
          presses_of cfg io = pressed \<and> \<not> debug_force_standby p \<and>
          (power_state p \<in> {POWER_STATE_HOST_ON_USB_HCI, POWER_STATE_HOST_SHUTTING_DOWN} \<or>
           power_state p = POWER_STATE_HOST_OFF \<and>
             (\<exists>m \<ge> n. standby_armed_at p =
                sdk_make_timeout_time_ms ck m (STANDBY_WAKE_ARM_DELAY_MS cfg)))))"

lemma arming_button:
  "same_button cfg io io' \<Longrightarrow> arming cfg ck n pressed (p, io') = arming cfg ck n pressed (p, io)"
  by (simp add: arming_def same_button_def presses_of_def)

lemma power_switch_io:
  "power_state p \<noteq> POWER_STATE_WAKE_PULSE \<Longrightarrow> same_button cfg io (snd (power_switch cfg hw p io))"
  by (cases "power_state p") (simp_all add: power_switch_def power_fault_led_button)

lemma arming_switch:
  assumes ck: "pico_clock_ok (hw_clock hw)" and d: "0 < STANDBY_WAKE_ARM_DELAY_MS cfg"
    and inv: "arming cfg (hw_clock hw) n pressed (p, io)"
    and early: "io_now io < n + 1000 * STANDBY_WAKE_ARM_DELAY_MS cfg"
  shows "arming cfg (hw_clock hw) n pressed (power_switch cfg hw p io)"
proof -
  from inv early have n: "n \<le> io_now io" and pr: "presses_of cfg io = pressed"
    and dbg: "\<not> debug_force_standby p" by (simp_all add: arming_def)
  from inv early consider (on) "power_state p = POWER_STATE_HOST_ON_USB_HCI"
    | (down) "power_state p = POWER_STATE_HOST_SHUTTING_DOWN"
    | (off) m where "power_state p = POWER_STATE_HOST_OFF" "n \<le> m"
        "standby_armed_at p = sdk_make_timeout_time_ms (hw_clock hw) m (STANDBY_WAKE_ARM_DELAY_MS cfg)"
    by (auto simp: arming_def)
  then show ?thesis
  proof cases
    case on
    with n pr dbg show ?thesis by (simp add: arming_def power_switch_def)
  next
    case down
    with n pr dbg d show ?thesis
      by (auto simp: arming_def power_switch_def set_state_armed_at standby_arm_deadline_def)
  next
    case off
    with ck d early have "\<not> standby_wake_armed (hw_clock hw) (io_now io) p"
      by (simp add: standby_wake_armed_def clock_simps)
    with off n pr dbg show ?thesis
      by (auto simp: arming_def power_switch_def)
  qed
qed

lemma power_wake_pulse_now:
  "pico_clock_ok (hw_clock hw) \<Longrightarrow> io_now io \<le> io_now (snd (power_wake_pulse cfg hw p io))"
  using clock_sleep [of "hw_clock hw" "io_now io" "POWER_BUTTON_PULSE_MS cfg"]
  by (cases "PIN_PWR_BUTTON_OUT cfg \<ge> 0")
     (auto simp: power_wake_pulse_def split_beta power_pulse_trace power_pulse_off)

lemma power_switch_now:
  assumes "pico_clock_ok (hw_clock hw)"
  shows "io_now io \<le> io_now (snd (power_switch cfg hw p io))"
proof (cases "power_state p = POWER_STATE_WAKE_PULSE")
  case True
  with power_wake_pulse_now [OF assms] show ?thesis by (simp add: power_switch_def)
next
  case False
  then show ?thesis using power_switch_io [of p cfg io hw] by (simp add: same_button_def)
qed

lemma arming_task:
  assumes ck: "pico_clock_ok (hw_clock hw)" and d: "0 < STANDBY_WAKE_ARM_DELAY_MS cfg"
    and inv: "arming cfg (hw_clock hw) n pressed (p, io)"
  shows "arming cfg (hw_clock hw) n pressed (power_supervisor_task cfg hw p io)"
proof -
  let ?p = "update_power_inputs cfg hw (io_now io) p"
  have inv': "arming cfg (hw_clock hw) n pressed (?p, io)"
    using inv by (simp add: arming_def)
  have "arming cfg (hw_clock hw) n pressed (power_switch cfg hw ?p io)"
  proof (cases "io_now io < n + 1000 * STANDBY_WAKE_ARM_DELAY_MS cfg")
    case True
    then show ?thesis by (rule arming_switch [OF ck d inv'])
  next
    case False
    with power_switch_now [OF ck, of io cfg ?p] inv show ?thesis
      by (auto simp: arming_def split_beta)
  qed
  then show ?thesis
    unfolding power_task_split arming_button [OF update_status_led_button] by simp
qed

lemma arming_run:
  assumes "(power_step cfg hw False)\<^sup>*\<^sup>* s s'" "pico_clock_ok (hw_clock hw)"
    and "0 < STANDBY_WAKE_ARM_DELAY_MS cfg" "arming cfg (hw_clock hw) n pressed s"
  shows "arming cfg (hw_clock hw) n pressed s'"
  using assms(1,4)
proof (induction rule: rtranclp_induct)
  case (step s s')
  then have inv: "arming cfg (hw_clock hw) n pressed s" by blast
  from step(2) show ?case
  proof cases
    case (power_task p io p' io')
    with inv arming_task [OF assms(2,3), of n pressed p io] show ?thesis by simp
  qed (use inv in \<open>auto simp: arming_def presses_of_def\<close>)
qed

section \<open>Debouncing\<close>

text \<open>Samples of a raw input, each with the reading at which it was taken.\<close>

fun debounce_samples ::
    "'t pico_clock \<Rightarrow> (nat \<times> bool) list \<Rightarrow> bool \<times> bool \<times> 't \<Rightarrow> bool \<times> bool \<times> 't" where
  "debounce_samples ck [] s = s"
| "debounce_samples ck ((n, raw) # ss) s = debounce_samples ck ss (debounce_bool ck n raw s)"

lemma debounce_samples_append:
  "debounce_samples ck (ss @ ss') s = debounce_samples ck ss' (debounce_samples ck ss s)"
proof (induction ss arbitrary: s)
  case (Cons x ss)
  then show ?case by (cases x) simp
qed simp

text \<open>The level has been stable from reading \<open>n\<close> on.\<close>

definition stable_since :: "nat \<Rightarrow> bool \<Rightarrow> (nat \<times> bool) list \<Rightarrow> bool" where
  "stable_since n v ss \<longleftrightarrow> (\<forall>(m, x) \<in> set ss. n \<le> m \<longrightarrow> x = v)"

text \<open>The variables record the last sample and, while it differs from the filtered value,
  the deadline counted from the start of the stretch of equal samples it belongs to.\<close>

definition stretch_start :: "(nat \<times> bool) list \<Rightarrow> bool \<Rightarrow> nat \<Rightarrow> bool" where
  "stretch_start ss v k \<longleftrightarrow>
     (k, v) \<in> set ss \<and> stable_since k v ss \<and>
     (\<forall>(m, x) \<in> set ss. stable_since m v ss \<longrightarrow> k \<le> m)"

definition debounce_inv ::
    "'t pico_clock \<Rightarrow> (nat \<times> bool) list \<Rightarrow> bool \<times> bool \<times> 't \<Rightarrow> bool" where
  "debounce_inv ck ss s \<longleftrightarrow>
     (case s of (last_raw, filtered, changed_at) \<Rightarrow>
       (ss \<noteq> [] \<longrightarrow> last_raw = snd (last ss)) \<and>
       (last_raw \<noteq> filtered \<longrightarrow>
         (\<exists>k. changed_at = sdk_make_timeout_time_ms ck k POWER_SENSE_DEBOUNCE_MS \<and>
              stretch_start ss last_raw k)))"

lemma stable_since_snoc:
  "stable_since m v (ss @ [(n, x)]) \<longleftrightarrow> stable_since m v ss \<and> (m \<le> n \<longrightarrow> x = v)"
  by (auto simp: stable_since_def)

lemma stretch_continues:
  assumes "stretch_start ss v k" "\<forall>(m, x) \<in> set ss. m < n"
  shows "stretch_start (ss @ [(n, v)]) v k"
  using assms by (fastforce simp: stretch_start_def stable_since_snoc)

lemma stretch_begins:
  assumes "\<forall>(m, x) \<in> set ss. m < n" "sorted_wrt (<) (map fst ss)"
    and "ss \<noteq> [] \<Longrightarrow> snd (last ss) \<noteq> v"
  shows "stretch_start (ss @ [(n, v)]) v n"
proof -
  have "\<not> stable_since m v ss" if "(m, x) \<in> set ss" for m x
  proof -
    from that have ne: "ss \<noteq> []" by auto
    obtain ys t y where ss: "ss = ys @ [(t, y)]"
      using ne by (metis rev_exhaust surj_pair)
    with assms(2) that have "m \<le> t" by (auto simp: sorted_wrt_append)
    moreover have "y \<noteq> v" using assms(3) [OF ne] ss by simp
    ultimately show ?thesis by (auto simp: ss stable_since_snoc)
  qed
  with assms(1) show ?thesis
    by (fastforce simp: stretch_start_def stable_since_snoc stable_since_def)
qed

lemma debounce_inv_step:
  assumes ck: "pico_clock_ok ck" and inv: "debounce_inv ck ss s"
    and n: "\<forall>(m, x) \<in> set ss. m < n" and so: "sorted_wrt (<) (map fst ss)"
    and init: "ss = [] \<Longrightarrow> fst s = fst (snd s)"
  shows "debounce_inv ck (ss @ [(n, raw)]) (debounce_bool ck n raw s)"
proof -
  obtain l f c where s: "s = (l, f, c)" by (cases s)
  from inv s have l: "ss \<noteq> [] \<Longrightarrow> l = snd (last ss)"
    and st: "l \<noteq> f \<Longrightarrow> \<exists>k. c = sdk_make_timeout_time_ms ck k POWER_SENSE_DEBOUNCE_MS \<and>
      stretch_start ss l k"
    by (simp_all add: debounce_inv_def)
  show ?thesis
  proof (cases "raw = l")
    case True
    with st stretch_continues [OF _ n, of l] show ?thesis
      by (auto simp: s debounce_inv_def debounce_bool_def)
  next
    case False
    then have "stretch_start (ss @ [(n, raw)]) raw n"
      using l by (intro stretch_begins [OF n so]) auto
    with False ck show ?thesis
      by (auto simp: s debounce_inv_def debounce_bool_def clock_simps)
  qed
qed

lemma debounce_inv_samples:
  assumes "pico_clock_ok ck" "sorted_wrt (<) (map fst ss)"
  shows "debounce_inv ck ss (debounce_samples ck ss (v, v, c))"
  using assms(2)
proof (induction ss rule: rev_induct)
  case (snoc y ss)
  obtain n raw where y: "y = (n, raw)" by (cases y)
  from snoc.prems have b: "\<forall>(m, x) \<in> set ss. m < n" and s: "sorted_wrt (<) (map fst ss)"
    by (auto simp: y sorted_wrt_append)
  from debounce_inv_step [OF assms(1) snoc.IH [OF s] b s] show ?case
    by (simp add: y debounce_samples_append)
qed (simp add: debounce_inv_def)

text \<open>The filtered value after a list of samples, and when one more sample changes it.\<close>

definition filtered_value :: "'t pico_clock \<Rightarrow> (nat \<times> bool) list \<Rightarrow> bool \<Rightarrow> 't \<Rightarrow> bool" where
  "filtered_value ck ss v c = fst (snd (debounce_samples ck ss (v, v, c)))"

lemma debounce_flip:
  assumes ck: "pico_clock_ok ck" and so: "sorted_wrt (<) (map fst (ss @ [(n, raw)]))"
  shows "filtered_value ck (ss @ [(n, raw)]) v c \<noteq> filtered_value ck ss v c \<longleftrightarrow>
    raw \<noteq> filtered_value ck ss v c \<and>
    (\<exists>m. (m, raw) \<in> set ss \<and> m + 250000 \<le> n \<and> stable_since m raw ss)"
proof -
  obtain l f c' where s: "debounce_samples ck ss (v, v, c) = (l, f, c')"
    by (cases "debounce_samples ck ss (v, v, c)")
  have so': "sorted_wrt (<) (map fst ss)" and n: "\<forall>(m, x) \<in> set ss. m < n"
    using so by (auto simp: sorted_wrt_append)
  from debounce_inv_samples [OF ck so', of v c] s
  have l: "ss \<noteq> [] \<Longrightarrow> l = snd (last ss)"
    and st: "l \<noteq> f \<Longrightarrow> \<exists>k. c' = sdk_make_timeout_time_ms ck k POWER_SENSE_DEBOUNCE_MS \<and>
      stretch_start ss l k"
    by (simp_all add: debounce_inv_def)
  have old: "filtered_value ck ss v c = f"
    by (simp add: filtered_value_def s)
  have new: "filtered_value ck (ss @ [(n, raw)]) v c =
      (if raw = l \<and> raw \<noteq> f \<and> sdk_time_reached ck n c' then raw else f)"
    using ck by (auto simp: filtered_value_def s debounce_samples_append debounce_bool_def clock_simps)
  have last: "raw = l" if "(m, raw) \<in> set ss" "stable_since m raw ss" for m
  proof -
    from that(1) have ne: "ss \<noteq> []" by auto
    obtain ys t y where ss: "ss = ys @ [(t, y)]"
      using ne by (metis rev_exhaust surj_pair)
    with so' that(1) have "m \<le> t" by (auto simp: sorted_wrt_append)
    with that(2) have "y = raw" by (simp add: ss stable_since_snoc)
    with l [OF ne] ss show ?thesis by simp
  qed
  show ?thesis
  proof (cases "raw = f")
    case True
    then have "filtered_value ck (ss @ [(n, raw)]) v c = f" unfolding new by (simp split: if_splits)
    with True old show ?thesis by blast
  next
    case False
    show ?thesis
    proof (cases "raw = l")
      case True
      with False st obtain k where c': "c' = sdk_make_timeout_time_ms ck k POWER_SENSE_DEBOUNCE_MS"
        and k: "stretch_start ss raw k" by blast
      have flip: "filtered_value ck (ss @ [(n, raw)]) v c \<noteq> f \<longleftrightarrow> sdk_time_reached ck n c'"
        unfolding new using False True by simp
      have "sdk_time_reached ck n c' \<longleftrightarrow> k + 250000 \<le> n"
        unfolding c' by (simp add: clock_simps ck)
      moreover have "k \<le> m" if "(m, raw) \<in> set ss" "stable_since m raw ss" for m
        using k that by (auto simp: stretch_start_def)
      moreover have "(k, raw) \<in> set ss" "stable_since k raw ss"
        using k by (simp_all add: stretch_start_def)
      ultimately have "(\<exists>m. (m, raw) \<in> set ss \<and> m + 250000 \<le> n \<and> stable_since m raw ss) \<longleftrightarrow>
          sdk_time_reached ck n c'"
        by (metis add_le_cancel_right le_trans)
      with flip False old show ?thesis by blast
    next
      case lraw: False
      then have "filtered_value ck (ss @ [(n, raw)]) v c = f" unfolding new by simp
      with lraw last old show ?thesis by blast
    qed
  qed
qed

end
