(* ===== verification/Power_Properties.thy ===== *)
theory Power_Properties
  imports Power_Safety
begin

text \<open>
  The properties of the power supervisor, with a concrete board (\<open>pico2w_config\<close>, the SDK's
  microsecond clock, a sense pin that stays low) on which each is applied.
\<close>

section \<open>A concrete board\<close>

definition low_hw :: "(nat, (nat \<times> bytes option) list) power_hw" where
  "low_hw = \<lparr>hw_clock = us_clock, hw_pins = (\<lambda>_ _. False), hw_usb = ready_hid\<rparr>"

definition io_at :: "nat \<Rightarrow> (nat, (nat \<times> bytes option) list) power_io" where
  "io_at n = \<lparr>io_now = n, io_gpio = [], io_hid = usb_hid_wake_init us_clock, io_usb = []\<rparr>"

lemmas board_defs = low_hw_def io_at_def us_clock_def ready_hid_def config_defs

lemma low_hw_clock [simp]: "hw_clock low_hw = us_clock"
  by (simp add: low_hw_def)

lemma io_at_fields [simp]: "io_now (io_at n) = n" "io_gpio (io_at n) = []"
  by (simp_all add: io_at_def)

section \<open>Transitions\<close>

text \<open>
  One task of the supervisor takes exactly the transition whose guard the debounced
  inputs, the arming deadline, the pending request and the state's deadline enable, and stays
  where it is when none is enabled; no other change of state is possible.
\<close>

theorem power_task_transition:
  "power_state (fst (power_supervisor_task cfg hw p io)) = s \<longleftrightarrow>
   power_guard cfg (hw_clock hw) (io_now io) (update_power_inputs cfg hw (io_now io) p) s \<or>
   s = power_state p \<and>
     (\<nexists>s'. power_guard cfg (hw_clock hw) (io_now io) (update_power_inputs cfg hw (io_now io) p) s')"
  unfolding power_task_split fst_conv power_switch_guard by simp

text \<open>
  C3: In every run from boot, whatever wake requests and debug commands arrive, two presses
  of the power button are at least the pulse and the cooldown apart, and the button line is
  released whenever the supervisor is not inside a pulse.
\<close>

theorem power_pulses_spaced:
  assumes "pico_clock_ok (hw_clock hw)" "button_pin_distinct cfg" "io_gpio io = []"
    and "(power_step cfg hw True)\<^sup>*\<^sup>*
           (power_supervisor_init cfg hw (power_boot (hw_clock hw)) io) (p', io')"
  shows "sorted_wrt (\<lambda>a b. a + 1000 * (POWER_BUTTON_PULSE_MS cfg + POST_WAKE_SENSE_SETTLE_MS cfg) \<le> b)
           (button_presses (PIN_PWR_BUTTON_OUT cfg) (io_gpio io')) \<and>
         \<not> button_driven (PIN_PWR_BUTTON_OUT cfg) (io_gpio io')"
  using pulse_inv_run [OF assms(4,1) pulse_inv_init [OF assms(2,3)]]
  by (simp add: pulse_inv_def spaced_def presses_of_def pulse_gap_def)

theorem power_pulses_spaced_witness:
  "\<not> button_driven 10 (io_gpio (snd (power_supervisor_init pico2w_config low_hw (power_boot us_clock) (io_at 0))))"
proof -
  obtain p io where r: "power_supervisor_init pico2w_config low_hw (power_boot us_clock) (io_at 0) = (p, io)"
    by fastforce
  have "button_pin_distinct pico2w_config" by (simp add: button_pin_distinct_def config_defs)
  then have "\<not> button_driven (PIN_PWR_BUTTON_OUT pico2w_config) (io_gpio io)"
    using power_pulses_spaced [of low_hw pico2w_config "io_at 0" p io] r by simp
  then show ?thesis unfolding r by (simp add: config_defs)
qed

text \<open>
  C19: When the supervisor starts to count the PC as off, no wake output is possible until the
  arming delay is over: the button is not pressed and the standby and wake states are not
  reached, whatever is requested, as long as the debug override is not used.
\<close>

theorem power_arm_delay:
  assumes "pico_clock_ok (hw_clock hw)" "0 < STANDBY_WAKE_ARM_DELAY_MS cfg"
    and "power_state p = POWER_STATE_HOST_OFF" "\<not> debug_force_standby p"
    and "standby_armed_at p = standby_arm_deadline cfg (hw_clock hw) (io_now io) p"
    and "(power_step cfg hw False)\<^sup>*\<^sup>* (p, io) (p', io')"
    and "io_now io' < io_now io + 1000 * STANDBY_WAKE_ARM_DELAY_MS cfg"
  shows "button_presses (PIN_PWR_BUTTON_OUT cfg) (io_gpio io') =
           button_presses (PIN_PWR_BUTTON_OUT cfg) (io_gpio io) \<and>
         power_state p' \<in> {POWER_STATE_HOST_OFF, POWER_STATE_HOST_ON_USB_HCI,
                           POWER_STATE_HOST_SHUTTING_DOWN}"
proof -
  have "arming cfg (hw_clock hw) (io_now io) (presses_of cfg io) (p, io)"
    using assms(2-5) by (auto simp: arming_def standby_arm_deadline_def)
  from arming_run [OF assms(6,1,2) this] assms(7) show ?thesis
    by (auto simp: arming_def presses_of_def)
qed

theorem power_arm_delay_witness:
  "power_state (fst (power_supervisor_task pico2w_config low_hw
     (fst (power_supervisor_init pico2w_config low_hw (power_boot us_clock) (io_at 0))) (io_at 59999000)))
   \<in> {POWER_STATE_HOST_OFF, POWER_STATE_HOST_ON_USB_HCI, POWER_STATE_HOST_SHUTTING_DOWN}"
proof -
  let ?p = "fst (power_supervisor_init pico2w_config low_hw (power_boot us_clock) (io_at 0))"
  let ?io = "io_at 59999000"
  obtain p' io' where r: "power_supervisor_task pico2w_config low_hw ?p ?io = (p', io')" by fastforce
  have off: "power_state ?p = POWER_STATE_HOST_OFF" "\<not> debug_force_standby ?p"
      "standby_armed_at ?p = standby_arm_deadline pico2w_config (hw_clock low_hw) (io_now (io_at 0)) ?p"
    by (simp_all add: power_supervisor_init_def power_pins_init_def sense_pin_init_def
      power_button_release_def board_defs power_boot_def pin_read_or_default_def standby_arm_deadline_def gpio_do_def)
  have io: "(io_at 0)\<lparr>io_now := 59999000, io_hid := usb_hid_wake_init us_clock, io_usb := []\<rparr> = ?io"
    by (simp add: io_at_def)
  have w: "power_step pico2w_config low_hw False (?p, io_at 0) (?p, ?io)"
    unfolding io [symmetric] by (rule power_wait) simp
  have "power_step pico2w_config low_hw False (?p, ?io) (p', io')"
    by (rule power_task) (rule r)
  with w have run: "(power_step pico2w_config low_hw False)\<^sup>*\<^sup>* (?p, io_at 0) (p', io')"
    by (meson r_into_rtranclp rtranclp.rtrancl_into_rtrancl)
  have now: "io_now io' < io_now (io_at 0) + 1000 * STANDBY_WAKE_ARM_DELAY_MS pico2w_config"
  proof -
    have "io_now (snd (power_switch pico2w_config low_hw
        (update_power_inputs pico2w_config low_hw 59999000 ?p) ?io)) = io_now ?io"
      using power_switch_io [of "update_power_inputs pico2w_config low_hw 59999000 ?p"
        pico2w_config ?io low_hw] off(1) by (simp add: same_button_def)
    moreover have "io_now io' = io_now (snd (power_switch pico2w_config low_hw
        (update_power_inputs pico2w_config low_hw 59999000 ?p) ?io))"
      using r by (auto simp: power_task_split update_status_led_def)
    ultimately show ?thesis by (simp add: config_defs)
  qed
  have "0 < STANDBY_WAKE_ARM_DELAY_MS pico2w_config" by (simp add: config_defs)
  from power_arm_delay [OF _ this off run now] r show ?thesis by simp
qed

section \<open>Debouncing\<close>

text \<open>
  C24: The debounced value of an input changes on a sample exactly when the raw level has
  differed from it, without interruption, over all samples of the last 250 ms or longer: a
  glitch shorter than that never changes it, and a level held that long always does.
\<close>

theorem debounce_flips_when_stable:
  assumes "pico_clock_ok ck" "sorted_wrt (<) (map fst (ss @ [(n, raw)]))"
  shows "fst (snd (debounce_samples ck (ss @ [(n, raw)]) (v, v, c))) \<noteq>
           fst (snd (debounce_samples ck ss (v, v, c))) \<longleftrightarrow>
         raw \<noteq> fst (snd (debounce_samples ck ss (v, v, c))) \<and>
         (\<exists>m. (m, raw) \<in> set ss \<and> m + 250000 \<le> n \<and> stable_since m raw ss)"
  using debounce_flip [OF assms] by (simp add: filtered_value_def)

theorem debounce_flips_when_stable_witness:
  "fst (snd (debounce_samples us_clock [(0, True), (1000, False), (2000, True), (3000, False), (253000, False)]
     (True, True, 0))) = False \<and>
   fst (snd (debounce_samples us_clock [(0, True), (1000, False), (2000, True), (3000, False)]
     (True, True, 0))) = True"
proof -
  let ?ss = "[(0, True), (1000, False), (2000, True), (3000, False)] :: (nat \<times> bool) list"
  have old: "fst (snd (debounce_samples us_clock ?ss (True, True, 0))) = True"
    by (simp add: debounce_bool_def us_clock_def)
  have st: "stable_since 3000 False ?ss" by (simp add: stable_since_def)
  then have m: "\<exists>m. (m, False) \<in> set ?ss \<and> m + 250000 \<le> 253000 \<and> stable_since m False ?ss"
    by (intro exI [of _ 3000]) simp
  have so: "sorted_wrt (<) (map fst (?ss @ [(253000, False)]))" by simp
  from debounce_flips_when_stable [OF us_clock_ok so, of True 0] old m
  show ?thesis by auto
qed

section \<open>The wake pulse\<close>

text \<open>The sense pin is wired and low from now on, and its filter has seen it low.\<close>

definition sense_low :: "build_config \<Rightarrow> ('t, 'w) power_hw \<Rightarrow> nat \<Rightarrow> 't power \<Rightarrow> bool" where
  "sense_low cfg hw n p \<longleftrightarrow>
     PIN_PWR_OK_SENSE cfg \<ge> 0 \<and> (\<forall>m \<ge> n. \<not> hw_pins hw m (PIN_PWR_OK_SENSE cfg)) \<and>
     \<not> pwr_ok_filtered p \<and> \<not> pwr_ok_last_raw p"

lemma sense_low_inputs:
  "sense_low cfg hw n p \<Longrightarrow> n \<le> m \<Longrightarrow> sense_low cfg hw n (update_power_inputs cfg hw m p)"
  by (auto simp: sense_low_def update_power_inputs_def split_beta debounce_bool_def
      pin_read_or_default_def)

lemma sense_low_off:
  "sense_low cfg hw n p \<Longrightarrow> \<not> power_inputs_on p"
  "sense_low cfg hw n p \<Longrightarrow> \<not> power_supervisor_pwr_ok p"
  by (simp_all add: sense_low_def power_input_defs)

lemma sense_low_cong:
  "pwr_ok_filtered p' = pwr_ok_filtered p \<Longrightarrow> pwr_ok_last_raw p' = pwr_ok_last_raw p \<Longrightarrow>
   sense_low cfg hw n p' = sense_low cfg hw n p"
  by (simp add: sense_low_def)

lemma set_state_last_raw [simp]: "pwr_ok_last_raw (set_state cfg ck n s p) = pwr_ok_last_raw p"
  by (simp add: set_state_def)

text \<open>A task that finds the sense low, in the states that matter for a wake.\<close>

lemma power_task_fields:
  "fst (power_supervisor_task cfg hw p io) =
     fst (power_switch cfg hw (update_power_inputs cfg hw (io_now io) p) io)"
  by (simp add: power_task_split)

lemma power_task_low_off:
  assumes "sense_low cfg hw n p" "n \<le> io_now io"
  shows "\<not> power_inputs_on (update_power_inputs cfg hw (io_now io) p)"
  using sense_low_off(1) [OF sense_low_inputs [OF assms]] .

lemma power_task_sense_low:
  assumes "sense_low cfg hw n p" "n \<le> io_now io"
  shows "sense_low cfg hw n (fst (power_supervisor_task cfg hw p io))"
proof -
  let ?p = "update_power_inputs cfg hw (io_now io) p"
  have "pwr_ok_filtered (fst (power_switch cfg hw ?p io)) = pwr_ok_filtered ?p \<and>
        pwr_ok_last_raw (fst (power_switch cfg hw ?p io)) = pwr_ok_last_raw ?p"
    by (cases "power_state p") (simp_all add: power_switch_def power_wake_pulse_def split_beta)
  with sense_low_inputs [OF assms] show ?thesis
    unfolding power_task_fields by (simp add: sense_low_def)
qed

text \<open>What setting the status LED adds to the trace.\<close>

definition led_trace :: "build_config \<Rightarrow> nat \<Rightarrow> bool \<Rightarrow> (nat \<times> gpio_op) list" where
  "led_trace cfg n on =
     (if PIN_LED_STATUS cfg \<ge> 0 then [(n, Gpio_put (PIN_LED_STATUS cfg) on)] else []) @
     (case CYW43_WL_GPIO_LED_PIN cfg of
        Some pin \<Rightarrow> if backend_is_cyw43 cfg \<and> ENABLE_CYW43_STATUS_LED cfg
                    then [(n, Cyw43_gpio_put pin on)] else []
      | None \<Rightarrow> [])"

lemma status_led_put_trace:
  "io_gpio (status_led_put cfg on io) = io_gpio io @ led_trace cfg (io_now io) on"
  by (cases "CYW43_WL_GPIO_LED_PIN cfg") (auto simp: status_led_put_def led_trace_def)

text \<open>
  A task in the wake-pulse state requests the standby keypress and, when the power-button
  wake is built in and the debounced sense is low, holds the button line low for at least the
  configured time and releases it; otherwise the button is not touched. Either way the
  cooldown starts after the pulse.
\<close>

theorem power_wake_pulse_task:
  assumes "pico_clock_ok (hw_clock hw)" "power_state p = POWER_STATE_WAKE_PULSE"
    and "PIN_PWR_BUTTON_OUT cfg \<ge> 0"
    and "power_supervisor_task cfg hw p io = (p', io')"
  shows "power_state p' = POWER_STATE_WAIT_WAKE_SENSE_SETTLE \<and>
    cooldown_until p' =
      sdk_make_timeout_time_ms (hw_clock hw) (io_now io') (POST_WAKE_SENSE_SETTLE_MS cfg) \<and>
    (io_hid io', io_usb io') =
      usb_hid_wake_request_keypress cfg (hw_usb hw) (io_hid io) (io_usb io) \<and>
    (if ENABLE_POWER_BUTTON_WAKE cfg \<and>
        \<not> pwr_ok_filtered (update_power_inputs cfg hw (io_now io) p)
     then io_now io + 1000 * POWER_BUTTON_PULSE_MS cfg \<le> io_now io' \<and>
          io_gpio io' = io_gpio io @
            [(io_now io, Gpio_put (PIN_PWR_BUTTON_OUT cfg) False),
             (io_now io, Gpio_set_dir (PIN_PWR_BUTTON_OUT cfg) GPIO_OUT),
             (io_now io', Gpio_put (PIN_PWR_BUTTON_OUT cfg) False),
             (io_now io', Gpio_set_dir (PIN_PWR_BUTTON_OUT cfg) GPIO_IN),
             (io_now io', Gpio_pull_up (PIN_PWR_BUTTON_OUT cfg))] @
            led_trace cfg (io_now io') False
     else io_now io' = io_now io \<and>
          io_gpio io' = io_gpio io @ led_trace cfg (io_now io) False)"
proof -
  let ?p = "update_power_inputs cfg hw (io_now io) p"
  obtain p2 io2 where r: "power_wake_pulse cfg hw ?p io = (p2, io2)" by fastforce
  then have st: "power_state p2 = POWER_STATE_WAIT_WAKE_SENSE_SETTLE"
    using power_wake_pulse_state [of cfg hw ?p io] by simp
  have "power_switch cfg hw ?p io = (p2, io2)"
    using assms(2) r by (simp add: power_switch_def)
  with assms(4) st have eq: "p' = p2" "io' = status_led_put cfg False io2"
    by (auto simp: power_task_split update_status_led_def status_led_on_def)
  show ?thesis
    unfolding eq status_led_put_trace
    using r clock_sleep [OF assms(1), of "io_now io" "POWER_BUTTON_PULSE_MS cfg"] assms(3)
    by (auto simp: power_wake_pulse_def split_beta power_pulse_trace power_supervisor_pwr_ok_def)
qed

text \<open>A supervisor in a given state, with its inputs filtered low.\<close>

definition power_in :: "power_state_t \<Rightarrow> nat \<Rightarrow> nat power" where
  "power_in s deadline =
     (power_boot us_clock)\<lparr>power_state := s, state_deadline := deadline\<rparr>"

lemmas power_in_defs = power_in_def power_boot_def board_defs

lemma sense_low_in: "sense_low pico2w_config low_hw n (power_in s d)"
  by (simp add: sense_low_def power_in_defs)

theorem power_wake_pulse_task_witness:
  "io_gpio (snd (power_supervisor_task pico2w_config low_hw
     (power_in POWER_STATE_WAKE_PULSE 0) (io_at 1000))) =
   [(1000, Gpio_put 10 False), (1000, Gpio_set_dir 10 GPIO_OUT), (201000, Gpio_put 10 False),
    (201000, Gpio_set_dir 10 GPIO_IN), (201000, Gpio_pull_up 10), (201000, Cyw43_gpio_put 0 False)]"
proof -
  let ?p = "power_in POWER_STATE_WAKE_PULSE 0"
  obtain p' io' where r: "power_supervisor_task pico2w_config low_hw ?p (io_at 1000) = (p', io')"
    by fastforce
  have now: "io_now io' = 201000"
    using r by (auto simp: power_task_split power_switch_def power_wake_pulse_def split_beta
      power_pulse_trace update_status_led_def power_supervisor_pwr_ok_def update_power_inputs_def
      debounce_bool_def pin_read_or_default_def power_in_defs)
  have "\<not> pwr_ok_filtered (update_power_inputs pico2w_config low_hw 1000 ?p)"
    using sense_low_inputs [OF sense_low_in, of 0 1000 POWER_STATE_WAKE_PULSE 0]
    by (simp add: sense_low_def)
  then show ?thesis
    using power_wake_pulse_task [of low_hw ?p pico2w_config "io_at 1000" p' io'] r now
    by (simp add: led_trace_def power_in_def config_defs)
qed

section \<open>A wake from request to recovery\<close>

lemma request_wake_accepts:
  assumes "power_state p \<in> {POWER_STATE_STANDBY_HCI_HOST, POWER_STATE_HOST_OFF}"
    and "sdk_time_reached ck n (cooldown_until p)" "standby_wake_armed ck n p"
  shows "power_supervisor_request_wake ck n (Some r) p = p\<lparr>wake_reason := r, wake_requested := True\<rparr>"
  using assms by (auto simp: power_supervisor_request_wake_def)

text \<open>Standby with the sense low: nothing to do, or a request to act on.\<close>

lemma power_task_idle:
  assumes "power_state p = POWER_STATE_STANDBY_HCI_HOST" "\<not> wake_requested p"
    and "sense_low cfg hw n p" "n \<le> io_now io" "power_supervisor_task cfg hw p io = (p', io')"
  shows "p' = update_power_inputs cfg hw (io_now io) p" "same_button cfg io io'"
  using assms power_task_low_off [OF assms(3,4)] update_status_led_button
  by (auto simp: power_task_split power_switch_def)

lemma power_task_requested:
  assumes "power_state p = POWER_STATE_STANDBY_HCI_HOST" "wake_requested p"
    and low: "sense_low cfg hw n p" "n \<le> io_now io" and "ENABLE_POWER_BUTTON_WAKE cfg"
    and t: "power_supervisor_task cfg hw p io = (p', io')"
  shows "power_state p' = POWER_STATE_WAKE_PULSE" "wake_reason p' = wake_reason p" "\<not> wake_requested p'"
    "sense_low cfg hw n p'" "same_button cfg io io'" "io_hid io' = io_hid io"
proof -
  let ?u = "update_power_inputs cfg hw (io_now io) p"
  have rs: "wake_reason ?u = wake_reason p" by (simp add: update_power_inputs_def split_beta)
  have sw: "power_switch cfg hw ?u io =
      (set_state cfg (hw_clock hw) (io_now io) POWER_STATE_WAKE_PULSE (?u\<lparr>wake_requested := False\<rparr>), io)"
    using assms(1,2,5) power_task_low_off [OF low] by (simp add: power_switch_def)
  show "sense_low cfg hw n p'" using power_task_sense_low [OF low] t by (metis fst_conv)
  show "power_state p' = POWER_STATE_WAKE_PULSE" "wake_reason p' = wake_reason p" "\<not> wake_requested p'"
    "same_button cfg io io'"
    using t rs by (auto simp: power_task_split sw set_state_requested update_status_led_button)
  show "io_hid io' = io_hid io" using t by (auto simp: power_task_split sw update_status_led_def)
qed

text \<open>The pulse.\<close>

lemma power_task_pulse:
  assumes "power_state p = POWER_STATE_WAKE_PULSE" and low: "sense_low cfg hw n p" "n \<le> io_now io"
    and "ENABLE_POWER_BUTTON_WAKE cfg" "PIN_PWR_BUTTON_OUT cfg \<ge> 0"
    and "power_supervisor_task cfg hw p io = (p', io')"
  shows "power_state p' = POWER_STATE_WAIT_WAKE_SENSE_SETTLE" "wake_reason p' = wake_reason p"
    "wake_requested p' = wake_requested p" "presses_of cfg io' = presses_of cfg io @ [io_now io]"
    "ENABLE_STANDBY_HID_KEYBOARD cfg \<longrightarrow> key_pending (io_hid io')"
proof -
  let ?v = "update_power_inputs cfg hw (io_now io) p"
  have pv: "\<not> power_supervisor_pwr_ok ?v" by (rule sense_low_off(2) [OF sense_low_inputs [OF low]])
  obtain p3 io3 where w: "power_wake_pulse cfg hw ?v io = (p3, io3)" by fastforce
  have rv: "wake_reason ?v = wake_reason p" by (simp add: update_power_inputs_def split_beta)
  have 3: "power_state p3 = POWER_STATE_WAIT_WAKE_SENSE_SETTLE" "wake_reason p3 = wake_reason p"
      "wake_requested p3 = wake_requested p" "presses_of cfg io3 = presses_of cfg io @ [io_now io]"
      "ENABLE_STANDBY_HID_KEYBOARD cfg \<longrightarrow> key_pending (io_hid io3)"
    using w rv pv assms(4,5)
    by (auto simp: power_wake_pulse_def split_beta set_state_requested power_pulse_trace
        presses_of_def usb_hid_wake_request_keypress_def)
  have "power_switch cfg hw ?v io = (p3, io3)" using assms(1) w by (simp add: power_switch_def)
  then have eq: "p' = p3" "io' = update_status_led cfg hw p3 io3"
    using assms(6) by (auto simp: power_task_split)
  have "presses_of cfg io' = presses_of cfg io3" "io_hid io' = io_hid io3"
    using update_status_led_button [of cfg io3 hw p3]
    by (simp_all add: eq same_button_def presses_of_def) (simp add: update_status_led_def)
  with 3 eq(1) show "power_state p' = POWER_STATE_WAIT_WAKE_SENSE_SETTLE" "wake_reason p' = wake_reason p"
    "wake_requested p' = wake_requested p" "presses_of cfg io' = presses_of cfg io @ [io_now io]"
    "ENABLE_STANDBY_HID_KEYBOARD cfg \<longrightarrow> key_pending (io_hid io')" by simp_all
qed

text \<open>
  C25: A wake requested in standby, after arming and cooldown, is acted on by the next two
  tasks while the sense stays low: the reason is recorded, the button is pressed once and the
  standby keypress is pending.
\<close>

theorem power_wake_request_fires:
  assumes "pico_clock_ok (hw_clock hw)" "power_state p = POWER_STATE_STANDBY_HCI_HOST"
    and "sdk_time_reached (hw_clock hw) (io_now io) (cooldown_until p)"
    and "standby_wake_armed (hw_clock hw) (io_now io) p"
    and "sense_low cfg hw (io_now io) p" "ENABLE_POWER_BUTTON_WAKE cfg" "PIN_PWR_BUTTON_OUT cfg \<ge> 0"
    and "power_supervisor_task cfg hw
           (power_supervisor_request_wake (hw_clock hw) (io_now io) (Some r) p) io = (p1, io1)"
    and "power_supervisor_task cfg hw p1 io1 = (p2, io2)"
  shows "power_state p2 = POWER_STATE_WAIT_WAKE_SENSE_SETTLE \<and> wake_reason p2 = r \<and>
    \<not> wake_requested p2 \<and>
    button_presses (PIN_PWR_BUTTON_OUT cfg) (io_gpio io2) =
      button_presses (PIN_PWR_BUTTON_OUT cfg) (io_gpio io) @ [io_now io] \<and>
    (ENABLE_STANDBY_HID_KEYBOARD cfg \<longrightarrow> key_pending (io_hid io2))"
proof -
  let ?ck = "hw_clock hw" and ?n = "io_now io"
  let ?q = "p\<lparr>wake_reason := r, wake_requested := True\<rparr>"
  have q: "power_supervisor_request_wake ?ck ?n (Some r) p = ?q"
    using assms(2-4) by (intro request_wake_accepts) simp_all
  have lowq: "sense_low cfg hw ?n ?q" using assms(5) by (simp add: sense_low_def)
  note 1 = power_task_requested [OF _ _ lowq order_refl assms(6) assms(8) [unfolded q]]
  have p1: "power_state p1 = POWER_STATE_WAKE_PULSE" "wake_reason p1 = r" "\<not> wake_requested p1"
      "sense_low cfg hw ?n p1" "same_button cfg io io1" "io_hid io1 = io_hid io"
    using 1 assms(2) by simp_all
  have now1: "io_now io1 = ?n" and pr1: "presses_of cfg io1 = presses_of cfg io"
    using p1(5) by (simp_all add: same_button_def presses_of_def)
  have "?n \<le> io_now io1" by (simp add: now1)
  from power_task_pulse [OF p1(1,4) this assms(6,7,9)] p1(2,3) now1 pr1 show ?thesis
    by (simp add: presses_of_def)
qed

theorem power_wake_request_fires_witness:
  "button_presses 10 (io_gpio (snd (let (p1, io1) = power_supervisor_task pico2w_config low_hw
       (power_supervisor_request_wake us_clock 5000 (Some ''adv'')
         (power_in POWER_STATE_STANDBY_HCI_HOST 0)) (io_at 5000)
     in power_supervisor_task pico2w_config low_hw p1 io1))) = [5000]"
proof -
  let ?p = "power_in POWER_STATE_STANDBY_HCI_HOST 0"
  obtain p1 io1 where r1: "power_supervisor_task pico2w_config low_hw
      (power_supervisor_request_wake us_clock 5000 (Some ''adv'') ?p) (io_at 5000) = (p1, io1)"
    by fastforce
  obtain p2 io2 where r2: "power_supervisor_task pico2w_config low_hw p1 io1 = (p2, io2)" by fastforce
  have "power_state ?p = POWER_STATE_STANDBY_HCI_HOST"
    and "sdk_time_reached us_clock 5000 (cooldown_until ?p)" "standby_wake_armed us_clock 5000 ?p"
    and "ENABLE_POWER_BUTTON_WAKE pico2w_config" "PIN_PWR_BUTTON_OUT pico2w_config = 10"
    by (simp_all add: power_in_defs standby_wake_armed_def)
  with power_wake_request_fires [of low_hw ?p "io_at 5000" pico2w_config "''adv''" p1 io1 p2 io2] r1 r2
    sense_low_in [of 5000]
  show ?thesis by simp
qed



text \<open>
  The settle time after a pulse does not make the supervisor distrust a high sense: as
  soon as both debounced inputs are on it takes the host as on, however far the deadline is.
\<close>

theorem power_settle_trusts_high_sense:
  assumes "power_state p = POWER_STATE_WAIT_WAKE_SENSE_SETTLE"
    and "power_inputs_on (update_power_inputs cfg hw (io_now io) p)"
  shows "power_state (fst (power_supervisor_task cfg hw p io)) = POWER_STATE_HOST_ON_USB_HCI"
  using assms by (simp add: power_task_fields power_switch_def)

theorem power_settle_trusts_high_sense_witness:
  "power_state (fst (power_supervisor_task default_config low_hw
     ((power_in POWER_STATE_WAIT_WAKE_SENSE_SETTLE 9999999)\<lparr>pwr_ok_filtered := True,
       pwr_ok_last_raw := True, usb_vbus_filtered := True, usb_vbus_last_raw := True\<rparr>) (io_at 1)))
   = POWER_STATE_HOST_ON_USB_HCI"
  by (rule power_settle_trusts_high_sense)
     (simp_all add: power_in_defs power_input_defs update_power_inputs_def debounce_bool_def
        pin_read_or_default_def)

section \<open>The status LED\<close>

text \<open>
  C30: After every task the status LED is on in standby, blinks with the configured
  half-period while the PC is off and standby is not armed yet, and is off in every other
  state, in the onboard LED of a wireless board as in a wired one.
\<close>

theorem power_status_led:
  assumes "pico_clock_ok (hw_clock hw)" "0 < STATUS_LED_BLINK_MS cfg"
    and "STATUS_LED_BLINK_MS cfg < 2 ^ 32" "io_now io' div 1000 < 2 ^ 32"
    and "power_supervisor_task cfg hw p io = (p', io')"
  shows "\<exists>tr. io_gpio io' = tr @ led_trace cfg (io_now io')
    (power_state p' = POWER_STATE_STANDBY_HCI_HOST \<or>
     power_state p' = POWER_STATE_HOST_OFF \<and>
       \<not> standby_wake_armed (hw_clock hw) (io_now io') p' \<and>
       even (io_now io' div 1000 div STATUS_LED_BLINK_MS cfg))"
proof -
  let ?n = "io_now io'" and ?b = "STATUS_LED_BLINK_MS cfg"
  have ms: "sdk_ms_since_boot (hw_clock hw) ?n = of_nat (?n div 1000)"
    using assms(1) by (simp add: pico_clock_ok_def)
  have un: "unat (of_nat (?n div 1000) :: u32) = ?n div 1000" "unat (of_nat ?b :: u32) = ?b"
    using assms(3,4) by (simp_all add: unsigned_of_nat take_bit_nat_eq_self)
  have "(of_nat (?n div 1000) div of_nat ?b :: u32) AND 1 = 0 \<longleftrightarrow>
      even (unat (of_nat (?n div 1000) div of_nat ?b :: u32))"
    by (rule word_and_1_even)
  then have blink: "(of_nat (?n div 1000) div of_nat ?b :: u32) AND 1 = 0 \<longleftrightarrow>
      even (?n div 1000 div ?b)"
    by (simp add: unat_div un)
  obtain q i where eq: "p' = q" "io' = status_led_put cfg (status_led_on cfg (hw_clock hw) (io_now i) q) i"
    using assms(5) by (auto simp: power_task_split update_status_led_def)
  then have now: "io_now i = ?n" by simp
  have "status_led_on cfg (hw_clock hw) ?n q \<longleftrightarrow>
      power_state q = POWER_STATE_STANDBY_HCI_HOST \<or>
      power_state q = POWER_STATE_HOST_OFF \<and> \<not> standby_wake_armed (hw_clock hw) ?n q \<and>
        even (?n div 1000 div ?b)"
    using assms(2) ms blink by (simp add: status_led_on_def)
  then show ?thesis
    unfolding eq(2) status_led_put_trace by (simp add: now eq(1))
qed

theorem power_status_led_witness:
  "\<exists>tr. io_gpio (snd (power_supervisor_task pico2w_config low_hw
      ((power_in POWER_STATE_HOST_OFF 0)\<lparr>standby_armed_at := 60000000\<rparr>) (io_at 2500000))) =
    tr @ [(2500000, Cyw43_gpio_put 0 True)]"
proof -
  let ?p = "(power_in POWER_STATE_HOST_OFF 0)\<lparr>standby_armed_at := 60000000\<rparr>"
  obtain p' io' where r: "power_supervisor_task pico2w_config low_hw ?p (io_at 2500000) = (p', io')"
    by fastforce
  have low: "sense_low pico2w_config low_hw 0 ?p"
    using sense_low_in [of 0 POWER_STATE_HOST_OFF 0] by (simp add: sense_low_def)
  let ?u = "update_power_inputs pico2w_config low_hw 2500000 ?p"
  have off: "\<not> power_inputs_on ?u" using sense_low_off [OF sense_low_inputs [OF low]] by simp
  have na: "\<not> standby_wake_armed us_clock 2500000 ?u"
    by (simp add: standby_wake_armed_def us_clock_def)
  have st: "power_state ?u = POWER_STATE_HOST_OFF" by (simp add: power_in_def)
  have p': "p' = ?u" and now: "io_now io' = 2500000"
    using r off na st by (auto simp: power_task_split power_switch_def update_status_led_def)
  have cfg: "STATUS_LED_BLINK_MS pico2w_config = 1000"
    and led: "led_trace pico2w_config 2500000 True = [(2500000, Cyw43_gpio_put 0 True)]"
    by (simp_all add: config_defs led_trace_def)
  show ?thesis
    using power_status_led [of low_hw pico2w_config io' ?p "io_at 2500000" p'] r now na st
    by (simp add: cfg p' led)
qed

end
