(* ===== verification/Lru.thy ===== *)
theory Lru
  imports Main
begin

text \<open>
  The interface of a bounded memory of keys in order of use, least recently used first: what
  the wake policy relies on to decide whether an advertiser is known. The bound on how soon a
  key can be forgotten is proved once here from the laws.
\<close>

text \<open>
  Using a key moves it to the end; a new key is added at the end, and drops the first one when
  the memory is full. The flag tells whether anything changed.
\<close>

definition lru_remember :: "nat \<Rightarrow> 'k \<Rightarrow> 'k list \<Rightarrow> bool \<times> 'k list" where
  "lru_remember cap k xs =
     (if k \<in> set xs
      then if k \<in> set (butlast xs) then (True, remove1 k xs @ [k]) else (False, xs)
      else (True, (if length xs < cap then xs else tl xs) @ [k]))"

lemma distinct_not_in_butlast:
  "distinct xs \<Longrightarrow> k \<in> set xs \<Longrightarrow> k \<notin> set (butlast xs) \<longleftrightarrow> xs = butlast xs @ [k]"
  by (cases xs rule: rev_cases) auto

lemma lru_remember_member: "k \<in> set (snd (lru_remember cap k xs))"
  by (auto simp: lru_remember_def)

lemma lru_remember_length:
  "length xs \<le> cap \<Longrightarrow> 0 < cap \<Longrightarrow> length (snd (lru_remember cap k xs)) \<le> cap"
  by (auto simp: lru_remember_def length_remove1 dest: in_set_butlastD)

lemma lru_remember_distinct: "distinct xs \<Longrightarrow> distinct (snd (lru_remember cap k xs))"
  by (cases xs) (auto simp: lru_remember_def)

lemma lru_remember_last:
  "distinct xs \<Longrightarrow> snd (lru_remember cap k xs) = butlast (snd (lru_remember cap k xs)) @ [k]"
  using distinct_not_in_butlast [of xs k] by (auto simp: lru_remember_def)

text \<open>A key with few newer ones survives the use of another.\<close>

lemma lru_remember_newer:
  assumes "distinct xs" "xs = ys @ k # zs" "set zs \<subseteq> J" "finite J" "card (insert j J) < cap" "j \<noteq> k"
  shows "\<exists>ys' zs'. snd (lru_remember cap j xs) = ys' @ k # zs' \<and> set zs' \<subseteq> insert j J"
proof -
  consider (same) "snd (lru_remember cap j xs) = xs"
    | (move) "snd (lru_remember cap j xs) = remove1 j xs @ [j]"
    | (add) "j \<notin> set xs" "length xs < cap" "snd (lru_remember cap j xs) = xs @ [j]"
    | (evict) "j \<notin> set xs" "\<not> length xs < cap" "snd (lru_remember cap j xs) = tl xs @ [j]"
    by (cases "j \<in> set xs"; cases "j \<in> set (butlast xs)"; cases "length xs < cap")
       (simp_all add: lru_remember_def)
  then show ?thesis
  proof cases
    case same
    with assms(2,3) show ?thesis by blast
  next
    case move
    show ?thesis
    proof (cases "j \<in> set ys")
      case True
      then have "remove1 j xs @ [j] = remove1 j ys @ k # (zs @ [j])"
        by (simp add: assms(2) remove1_append)
      with move assms(3) show ?thesis by (intro exI) auto
    next
      case False
      then have "remove1 j xs @ [j] = ys @ k # (remove1 j zs @ [j])"
        using assms(6) by (simp add: assms(2) remove1_append)
      moreover have "set (remove1 j zs @ [j]) \<subseteq> insert j J"
        using assms(3) set_remove1_subset [of j zs] by auto
      ultimately show ?thesis using move by metis
    qed
  next
    case add
    then have "snd (lru_remember cap j xs) = ys @ k # (zs @ [j])" by (simp add: assms(2))
    with assms(3) show ?thesis by (intro exI) auto
  next
    case evict
    have "ys \<noteq> []"
    proof
      assume "ys = []"
      then have "length xs = Suc (length zs)" by (simp add: assms(2))
      moreover have "length zs = card (set zs)"
        using assms(1,2) by (simp add: distinct_card)
      moreover have "card (insert j (set zs)) = Suc (card (set zs))"
        using evict(1) assms(2) by (subst card_insert_disjoint) auto
      moreover have "card (insert j (set zs)) \<le> card (insert j J)"
        using assms(3,4) by (intro card_mono) auto
      ultimately show False using evict(2) assms(5) by simp
    qed
    then have "snd (lru_remember cap j xs) = tl ys @ k # (zs @ [j])"
      using evict(3) by (simp add: assms(2))
    with assms(3) show ?thesis by (intro exI) auto
  qed
qed

locale lru_memory =
  fixes mem_inv :: "'s \<Rightarrow> bool"
    and known :: "'s \<Rightarrow> 'k list"
    and valid :: "'k \<Rightarrow> bool"
    and capacity :: nat
    and remember :: "'k \<Rightarrow> 's \<Rightarrow> 's"
    and matches :: "'k \<Rightarrow> 's \<Rightarrow> bool"
  assumes capacity_pos: "0 < capacity"
    and known_bound: "mem_inv s \<Longrightarrow> length (known s) \<le> capacity"
    and remember_inv: "mem_inv s \<Longrightarrow> valid k \<Longrightarrow> mem_inv (remember k s)"
    and remember_known:
      "mem_inv s \<Longrightarrow> valid k \<Longrightarrow> known (remember k s) = snd (lru_remember capacity k (known s))"
    and matches_known: "mem_inv s \<Longrightarrow> matches k s \<longleftrightarrow> k \<in> set (known s)"
begin

lemma remember_matches: "mem_inv s \<Longrightarrow> valid k \<Longrightarrow> matches k (remember k s)"
  by (simp add: matches_known remember_inv remember_known lru_remember_member)

lemma remember_keeps_distinct:
  "mem_inv s \<Longrightarrow> valid k \<Longrightarrow> distinct (known s) \<Longrightarrow> distinct (known (remember k s))"
  by (simp add: remember_known lru_remember_distinct)

lemma fold_inv: "mem_inv s \<Longrightarrow> \<forall>k \<in> set ks. valid k \<Longrightarrow> mem_inv (fold remember ks s)"
  by (induction ks arbitrary: s) (auto simp: remember_inv)

lemma fold_newer:
  assumes "mem_inv s" "\<forall>k \<in> set ks. valid k" "distinct (known s)" "known s = ys @ k # zs"
    and "set zs \<subseteq> J" "finite J" "card ((J \<union> set ks) - {k}) < capacity" "k \<notin> J"
  shows "k \<in> set (known (fold remember ks s))"
  using assms
proof (induction ks arbitrary: s ys zs J)
  case Nil
  then show ?case by simp
next
  case (Cons j ks)
  let ?s = "remember j s"
  have inv: "mem_inv ?s" and d: "distinct (known ?s)" and v: "\<forall>k \<in> set ks. valid k"
    using Cons.prems(1-3) by (auto simp: remember_inv remember_keeps_distinct)
  have kn: "known ?s = snd (lru_remember capacity j (known s))"
    using Cons.prems(1,2) by (simp add: remember_known)
  show ?case
  proof (cases "j = k")
    case True
    with lru_remember_last [OF Cons.prems(3), of capacity j] kn
    have "known ?s = butlast (known ?s) @ k # []" by simp
    moreover have "card (({} \<union> set ks) - {k}) < capacity"
      by (rule le_less_trans [OF card_mono Cons.prems(7)]) (use Cons.prems(6) in auto)
    ultimately have "k \<in> set (known (fold remember ks ?s))"
      by (intro Cons.IH [OF inv v d, of _ "[]" "{}"]) auto
    then show ?thesis by simp
  next
    case False
    have "card (insert j J) < capacity"
      by (rule le_less_trans [OF card_mono Cons.prems(7)]) (use Cons.prems(6,8) False in auto)
    from lru_remember_newer [OF Cons.prems(3,4,5,6) this False] kn
    obtain ys' zs' where "known ?s = ys' @ k # zs'" "set zs' \<subseteq> insert j J" by auto
    moreover have "card ((insert j J \<union> set ks) - {k}) < capacity"
      using Cons.prems(7) by simp
    ultimately have "k \<in> set (known (fold remember ks ?s))"
      using Cons.prems(6,8) False by (intro Cons.IH [OF inv v d, of ys' zs' "insert j J"]) auto
    then show ?thesis by simp
  qed
qed

text \<open>A key once used is still known after any uses of fewer than \<open>capacity\<close> other keys.\<close>

lemma not_forgotten:
  assumes "mem_inv s" "valid k" "\<forall>j \<in> set ks. valid j" "distinct (known s)"
    and "card (set ks - {k}) < capacity"
  shows "matches k (fold remember ks (remember k s))"
proof -
  let ?s = "remember k s"
  have inv: "mem_inv ?s" and d: "distinct (known ?s)"
    using assms(1,2,4) by (auto simp: remember_inv remember_keeps_distinct)
  have "known ?s = butlast (known ?s) @ k # []"
    using lru_remember_last [OF assms(4), of capacity k] assms(1,2) by (simp add: remember_known)
  then have "k \<in> set (known (fold remember ks ?s))"
    using assms(5) by (intro fold_newer [OF inv assms(3) d, of _ k "[]" "{}"]) auto
  then show ?thesis
    using fold_inv [OF inv assms(3)] by (simp add: matches_known)
qed

end

end
