(* ===== verification/Wake_Peers.thy ===== *)
theory Wake_Peers
  imports Platform Lru
begin

text \<open>
  The list of Bluetooth LE peers allowed to wake the PC (\<open>src/wake_policy.c\<close>, lines 13-242):
  sixteen slots in order of use, learned from the connections the host makes, saved to one
  flash page two seconds after a change and loaded at boot. The flash functions of the Pico
  SDK are parameters acting on an opaque world whose bytes can be read.
\<close>

section \<open>The peer array\<close>

abbreviation (input) MAX_KNOWN_BLE_PEERS :: nat where "MAX_KNOWN_BLE_PEERS \<equiv> 16"
abbreviation (input) WAKE_PEER_MAGIC :: u32 where "WAKE_PEER_MAGIC \<equiv> 0x57424c45"
abbreviation (input) WAKE_PEER_VERSION :: u16 where "WAKE_PEER_VERSION \<equiv> 1"
abbreviation (input) WAKE_PEER_SAVE_DELAY_MS :: nat where "WAKE_PEER_SAVE_DELAY_MS \<equiv> 2000"

record ble_peer =
  in_use :: bool
  addr_type :: u8
  addr :: bytes

definition zero_peer :: ble_peer where
  "zero_peer = \<lparr>in_use = False, addr_type = 0, addr = replicate 6 0\<rparr>"

definition no_peers :: "ble_peer list" where
  "no_peers = replicate MAX_KNOWN_BLE_PEERS zero_peer"

definition known_ble_peer_count :: "ble_peer list \<Rightarrow> nat" where
  "known_ble_peer_count ps = length (filter in_use ps)"

text \<open>\<open>address\<close> is the six bytes the pointer \<open>addr\<close> points to.\<close>

definition ble_addr_equal :: "ble_peer \<Rightarrow> u8 \<Rightarrow> bytes \<Rightarrow> bool" where
  "ble_addr_equal peer atype address \<longleftrightarrow>
     in_use peer \<and> addr_type peer = atype \<and> addr peer = address"

text \<open>The loop of \<open>remove_known_ble_peer_at\<close>: every later slot moves down by one.\<close>

function shift_peers :: "nat \<Rightarrow> ble_peer list \<Rightarrow> ble_peer list" where
  "shift_peers i ps =
     (if i + 1 < MAX_KNOWN_BLE_PEERS then shift_peers (i + 1) (ps[i := ps ! (i + 1)]) else ps)"
  by auto
termination by (relation "measure (\<lambda>(i, _). 16 - i)") auto

declare shift_peers.simps [simp del]

definition remove_known_ble_peer_at :: "nat \<Rightarrow> ble_peer list \<Rightarrow> ble_peer list" where
  "remove_known_ble_peer_at i ps =
     (shift_peers i ps)[MAX_KNOWN_BLE_PEERS - 1 := zero_peer]"

definition append_known_ble_peer :: "u8 \<Rightarrow> bytes \<Rightarrow> ble_peer list \<Rightarrow> ble_peer list option" where
  "append_known_ble_peer atype address ps =
     (let count = known_ble_peer_count ps;
          full = count \<ge> MAX_KNOWN_BLE_PEERS;
          ps = (if full then remove_known_ble_peer_at 0 ps else ps);
          count = (if full then MAX_KNOWN_BLE_PEERS - 1 else count)
      in wr ps count \<lparr>in_use = True, addr_type = atype, addr = address\<rparr>)"

text \<open>The loops over the slots: the first one that holds the address.\<close>

fun find_peer :: "ble_peer list \<Rightarrow> u8 \<Rightarrow> bytes \<Rightarrow> nat option" where
  "find_peer [] atype address = None"
| "find_peer (p # ps) atype address =
     (if ble_addr_equal p atype address then Some 0
      else map_option Suc (find_peer ps atype address))"

record 't wake_policy =
  known_ble_peers :: "ble_peer list"
  peers_dirty :: bool
  peers_dirty_at :: 't
  standby_adv_reports :: u32

definition mark_peers_dirty ::
    "build_config \<Rightarrow> 't pico_clock \<Rightarrow> nat \<Rightarrow> 't wake_policy \<Rightarrow> 't wake_policy" where
  "mark_peers_dirty cfg ck n st =
     (if WAKE_PERSIST_BLE_PEERS cfg
      then st\<lparr>peers_dirty := True,
              peers_dirty_at := sdk_make_timeout_time_ms ck n WAKE_PEER_SAVE_DELAY_MS\<rparr>
      else st)"

text \<open>What \<open>remember_ble_peer\<close> does to the array; the flag is false when nothing changes.\<close>

definition remember_in_array :: "u8 \<Rightarrow> bytes \<Rightarrow> ble_peer list \<Rightarrow> (bool \<times> ble_peer list) option" where
  "remember_in_array atype address ps =
     (case find_peer ps atype address of
        Some i \<Rightarrow>
          let count = known_ble_peer_count ps in
          if count > 0 \<and> i + 1 = count then Some (False, ps)
          else let peer = ps ! i;
                   ps = remove_known_ble_peer_at i ps
               in map_option (Pair True) (wr ps (known_ble_peer_count ps) peer)
      | None \<Rightarrow> map_option (Pair True) (append_known_ble_peer atype address ps))"

definition remember_ble_peer ::
    "build_config \<Rightarrow> 't pico_clock \<Rightarrow> nat \<Rightarrow> u8 \<Rightarrow> bytes \<Rightarrow> 't wake_policy
       \<Rightarrow> (bool \<times> 't wake_policy) option" where
  "remember_ble_peer cfg ck n atype address st =
     (if WAKE_ON_KNOWN_BLE_PEER cfg then do {
        (changed, ps) \<leftarrow> remember_in_array atype address (known_ble_peers st);
        if changed then Some (True, mark_peers_dirty cfg ck n (st\<lparr>known_ble_peers := ps\<rparr>))
        else Some (False, st)
      } else Some (False, st))"

definition known_ble_peer_matches ::
    "build_config \<Rightarrow> u8 \<Rightarrow> bytes \<Rightarrow> 't wake_policy \<Rightarrow> bool" where
  "known_ble_peer_matches cfg atype address st =
     (if WAKE_ON_KNOWN_BLE_PEER cfg
      then find_peer (known_ble_peers st) atype address \<noteq> None else False)"

definition wake_policy_observe_host_packet ::
    "build_config \<Rightarrow> 't pico_clock \<Rightarrow> nat \<Rightarrow> hci_packet_type \<Rightarrow> bytes \<Rightarrow> 't wake_policy
       \<Rightarrow> 't wake_policy option" where
  "wake_policy_observe_host_packet cfg ck n t packet st =
     (if t \<noteq> HCI_PKT_EVENT \<or> length packet < 2 then Some st
      else do {
        b0 \<leftarrow> rd packet 0;
        if b0 = HCI_EVENT_LE_META \<and> length packet \<ge> 14 then do {
          sub \<leftarrow> rd packet 2;
          status \<leftarrow> rd packet 3;
          if (sub = HCI_SUBEVENT_LE_CONNECTION_COMPLETE \<or>
              sub = HCI_SUBEVENT_LE_ENHANCED_CONNECTION_COMPLETE) \<and> status = 0
          then do {
            atype \<leftarrow> rd packet 7;
            address \<leftarrow> sub_bytes packet 8 6;
            map_option snd (remember_ble_peer cfg ck n atype address st)
          } else Some st
        } else Some st
      })"

section \<open>The flash store\<close>

abbreviation (input) FLASH_PAGE_SIZE :: nat where "FLASH_PAGE_SIZE \<equiv> 256"
abbreviation (input) FLASH_SECTOR_SIZE :: nat where "FLASH_SECTOR_SIZE \<equiv> 4096"

text \<open>
  The SDK's flash functions. \<open>flash_safe_execute fl f ms w\<close> calls \<open>f\<close> with the other core and
  the interrupts held off, or returns an error code other than \<open>PICO_OK\<close> (0);
  \<open>flash_byte fl w off\<close> is the memory-mapped byte at an offset of the flash.
\<close>

record 'w pico_flash =
  PICO_FLASH_SIZE_BYTES :: nat
  flash_byte :: "'w \<Rightarrow> nat \<Rightarrow> u8"
  flash_range_erase :: "nat \<Rightarrow> nat \<Rightarrow> 'w \<Rightarrow> 'w"
  flash_range_program :: "nat \<Rightarrow> bytes \<Rightarrow> 'w \<Rightarrow> 'w"
  save_and_disable_interrupts :: "'w \<Rightarrow> u32 \<times> 'w"
  restore_interrupts :: "u32 \<Rightarrow> 'w \<Rightarrow> 'w"
  flash_safe_execute :: "('w \<Rightarrow> 'w) \<Rightarrow> nat \<Rightarrow> 'w \<Rightarrow> int \<times> 'w"

definition WAKE_PEER_FLASH_OFFSET :: "'w pico_flash \<Rightarrow> nat" where
  "WAKE_PEER_FLASH_OFFSET fl = PICO_FLASH_SIZE_BYTES fl - 4 * FLASH_SECTOR_SIZE"

text \<open>FNV-1a over the bytes.\<close>

definition checksum_bytes :: "bytes \<Rightarrow> u32" where
  "checksum_bytes xs = foldl (\<lambda>h b. (h XOR ucast b) * 16777619) 2166136261 xs"

text \<open>
  The struct \<open>wake_peer_store_t\<close> as it lies in memory on the little-endian target: magic (4),
  version (2), size (2), checksum (4), count (1), reserved (3), then sixteen peers of eight
  bytes, 144 in all.
\<close>

abbreviation (input) STORE_SIZE :: nat where "STORE_SIZE \<equiv> 144"

definition u32_bytes :: "u32 \<Rightarrow> bytes" where
  "u32_bytes v = [ucast v, ucast (drop_bit 8 v), ucast (drop_bit 16 v), ucast (drop_bit 24 v)]"

definition le32_at :: "bytes \<Rightarrow> nat \<Rightarrow> u32" where
  "le32_at raw i = ucast (raw ! i) OR push_bit 8 (ucast (raw ! (i + 1)))
     OR push_bit 16 (ucast (raw ! (i + 2))) OR push_bit 24 (ucast (raw ! (i + 3)))"

definition peer_bytes :: "ble_peer \<Rightarrow> bytes" where
  "peer_bytes p = (if in_use p then 1 else 0) # addr_type p # addr p"

definition peer_at :: "bytes \<Rightarrow> nat \<Rightarrow> ble_peer" where
  "peer_at raw i =
     (let b = take 8 (drop (16 + 8 * i) raw)
      in \<lparr>in_use = b ! 0 \<noteq> 0, addr_type = b ! 1, addr = drop 2 b\<rparr>)"

definition store_bytes :: "u32 \<Rightarrow> ble_peer list \<Rightarrow> bytes" where
  "store_bytes checksum ps =
     u32_bytes WAKE_PEER_MAGIC @ [lo8 WAKE_PEER_VERSION, hi8 WAKE_PEER_VERSION] @
     [lo8 (of_nat STORE_SIZE), hi8 (of_nat STORE_SIZE)] @ u32_bytes checksum @
     [of_nat (known_ble_peer_count ps), 0, 0, 0] @ concat (map peer_bytes ps)"

definition store_checksum :: "bytes \<Rightarrow> u32" where
  "store_checksum raw = checksum_bytes (take 8 raw @ [0, 0, 0, 0] @ drop 12 raw)"

definition flash_store :: "'w pico_flash \<Rightarrow> 'w \<Rightarrow> bytes" where
  "flash_store fl w = map (\<lambda>i. flash_byte fl w (WAKE_PEER_FLASH_OFFSET fl + i)) [0..<STORE_SIZE]"

text \<open>The loading loop: slots in use among the first \<open>count\<close> are copied down in order.\<close>

definition load_known_ble_peers ::
    "build_config \<Rightarrow> 'w pico_flash \<Rightarrow> 'w \<Rightarrow> ble_peer list \<Rightarrow> ble_peer list" where
  "load_known_ble_peers cfg fl w ps =
     (if WAKE_PERSIST_BLE_PEERS cfg then
        let raw = flash_store fl w; count = unat (raw ! 12) in
        if le32_at raw 0 \<noteq> WAKE_PEER_MAGIC \<or> le16 (raw ! 4) (raw ! 5) \<noteq> WAKE_PEER_VERSION \<or>
           le16 (raw ! 6) (raw ! 7) \<noteq> of_nat STORE_SIZE \<or> count > MAX_KNOWN_BLE_PEERS \<or>
           le32_at raw 8 \<noteq> store_checksum raw
        then ps
        else let loaded = filter in_use (map (peer_at raw) [0..<count])
             in loaded @ drop (length loaded) ps
      else ps)"

definition save_known_ble_peers_flash_op :: "'w pico_flash \<Rightarrow> bytes \<Rightarrow> 'w \<Rightarrow> 'w" where
  "save_known_ble_peers_flash_op fl page w =
     (let (interrupts, w) = save_and_disable_interrupts fl w;
          w = flash_range_erase fl (WAKE_PEER_FLASH_OFFSET fl) FLASH_SECTOR_SIZE w;
          w = flash_range_program fl (WAKE_PEER_FLASH_OFFSET fl) (take FLASH_PAGE_SIZE page) w
      in restore_interrupts fl interrupts w)"

text \<open>The store built in RAM, its checksum, and the page around it.\<close>

definition store_image :: "ble_peer list \<Rightarrow> u32 \<times> bytes" where
  "store_image ps =
     (let checksum = store_checksum (store_bytes 0 ps) in (checksum, store_bytes checksum ps))"

definition save_known_ble_peers ::
    "build_config \<Rightarrow> 'w pico_flash \<Rightarrow> ble_peer list \<Rightarrow> 'w \<Rightarrow> bool \<times> 'w" where
  "save_known_ble_peers cfg fl ps w =
     (if WAKE_PERSIST_BLE_PEERS cfg then
        let (checksum, store) = store_image ps;
            page = store @ replicate (FLASH_PAGE_SIZE - STORE_SIZE) 0xff;
            (rc, w) = flash_safe_execute fl (save_known_ble_peers_flash_op fl page) 1000 w
        in if rc \<noteq> 0 then (False, w)
           else if le32_at (flash_store fl w) 8 \<noteq> checksum then (False, w)
           else (True, w)
      else (True, w))"

section \<open>The policy's operations\<close>

definition wake_policy_init ::
    "build_config \<Rightarrow> 'w pico_flash \<Rightarrow> 'w \<Rightarrow> 't wake_policy \<Rightarrow> 't wake_policy" where
  "wake_policy_init cfg fl w st =
     st\<lparr>known_ble_peers := load_known_ble_peers cfg fl w no_peers, peers_dirty := False\<rparr>"

definition wake_policy_task ::
    "build_config \<Rightarrow> 't pico_clock \<Rightarrow> 'w pico_flash \<Rightarrow> nat \<Rightarrow> 't wake_policy \<Rightarrow> 'w
       \<Rightarrow> 't wake_policy \<times> 'w" where
  "wake_policy_task cfg ck fl n st w =
     (if WAKE_PERSIST_BLE_PEERS cfg \<and> peers_dirty st \<and> sdk_time_reached ck n (peers_dirty_at st)
      then let st = st\<lparr>peers_dirty := False\<rparr>
           in (st, snd (save_known_ble_peers cfg fl (known_ble_peers st) w))
      else (st, w))"

definition wake_policy_clear_known_peers ::
    "build_config \<Rightarrow> 'w pico_flash \<Rightarrow> 't wake_policy \<Rightarrow> 'w \<Rightarrow> 't wake_policy \<times> 'w" where
  "wake_policy_clear_known_peers cfg fl st w =
     (let st = st\<lparr>known_ble_peers := no_peers, peers_dirty := False\<rparr>
      in (st, snd (save_known_ble_peers cfg fl (known_ble_peers st) w)))"

text \<open>The static variables at boot.\<close>

definition wake_policy_boot :: "'t pico_clock \<Rightarrow> 't wake_policy" where
  "wake_policy_boot ck =
     \<lparr>known_ble_peers = no_peers, peers_dirty = False, peers_dirty_at = sdk_nil_time ck,
      standby_adv_reports = 0\<rparr>"

section \<open>The array as a list\<close>

text \<open>
  The slots in use come first: the array is determined by the list of addresses it holds, in
  order of use, and every operation acts on that list.
\<close>

definition used_peer :: "u8 \<times> bytes \<Rightarrow> ble_peer" where
  "used_peer k = \<lparr>in_use = True, addr_type = fst k, addr = snd k\<rparr>"

definition peers_of :: "(u8 \<times> bytes) list \<Rightarrow> ble_peer list" where
  "peers_of xs = map used_peer xs @ replicate (MAX_KNOWN_BLE_PEERS - length xs) zero_peer"

definition known_peers :: "ble_peer list \<Rightarrow> (u8 \<times> bytes) list" where
  "known_peers ps = map (\<lambda>p. (addr_type p, addr p)) (filter in_use ps)"

definition valid_address :: "u8 \<times> bytes \<Rightarrow> bool" where
  "valid_address k \<longleftrightarrow> length (snd k) = 6"

definition peers_inv :: "ble_peer list \<Rightarrow> bool" where
  "peers_inv ps \<longleftrightarrow>
     ps = peers_of (known_peers ps) \<and> length (known_peers ps) \<le> MAX_KNOWN_BLE_PEERS \<and>
     (\<forall>k \<in> set (known_peers ps). valid_address k)"

lemma used_peer_simps [simp]:
  "in_use (used_peer k)" "addr_type (used_peer k) = fst k" "addr (used_peer k) = snd k"
  by (simp_all add: used_peer_def)

lemma zero_peer_simps [simp]: "\<not> in_use zero_peer"
  by (simp add: zero_peer_def)

lemma filter_used [simp]:
  "filter in_use (map used_peer xs) = map used_peer xs" "filter in_use (replicate n zero_peer) = []"
  by (induction xs) simp_all

lemma known_peers_of [simp]: "known_peers (peers_of xs) = xs"
  by (simp add: known_peers_def peers_of_def comp_def)

lemma known_ble_peer_count_of [simp]: "known_ble_peer_count (peers_of xs) = length xs"
  by (simp add: known_ble_peer_count_def peers_of_def)

lemma length_peers_of [simp]: "length xs \<le> 16 \<Longrightarrow> length (peers_of xs) = 16"
  by (simp add: peers_of_def)

lemma peers_inv_of:
  "peers_inv (peers_of xs) \<longleftrightarrow> length xs \<le> 16 \<and> (\<forall>k \<in> set xs. valid_address k)"
  by (simp add: peers_inv_def)

lemma peers_invE:
  assumes "peers_inv ps"
  obtains xs where "ps = peers_of xs" "length xs \<le> 16" "\<forall>k \<in> set xs. valid_address k"
  using assms by (auto simp: peers_inv_def)

lemma no_peers_of: "no_peers = peers_of []"
  by (simp add: no_peers_def peers_of_def)

lemma shift_peers_eq:
  "length ps = 16 \<Longrightarrow> i < 16 \<Longrightarrow>
   shift_peers i ps = take i ps @ drop (Suc i) ps @ [ps ! 15]"
proof (induction i ps rule: shift_peers.induct)
  case (1 i ps)
  show ?case
  proof (cases "i + 1 < 16")
    case True
    let ?ps = "ps[i := ps ! (i + 1)]"
    have "shift_peers i ps = take (Suc i) ?ps @ drop (Suc (Suc i)) ?ps @ [?ps ! 15]"
      using 1 True by (simp add: shift_peers.simps [of i ps])
    also have "take (Suc i) ?ps = take i ps @ [ps ! Suc i]"
      using 1(2,3) by simp
    also have "?ps ! 15 = ps ! 15" using True by simp
    also have "drop (Suc (Suc i)) ?ps = drop (Suc (Suc i)) ps" by simp
    finally show ?thesis
      using True 1(2) Cons_nth_drop_Suc [of "Suc i" ps] by simp
  next
    case False
    then have "i = 15" using 1(3) by simp
    then show ?thesis
      using 1(2) take_Suc_conv_app_nth [of 15 ps] by (simp add: shift_peers.simps [of 15])
  qed
qed

lemma remove_peers_of:
  assumes "length xs \<le> 16" "i < length xs"
  shows "remove_known_ble_peer_at i (peers_of xs) = peers_of (take i xs @ drop (Suc i) xs)"
proof -
  let ?ps = "peers_of xs" and ?ys = "take i xs @ drop (Suc i) xs"
  have l: "length ?ps = 16" using assms by simp
  have "remove_known_ble_peer_at i ?ps = (take i ?ps @ drop (Suc i) ?ps) @ [zero_peer]"
    using assms by (simp add: remove_known_ble_peer_at_def shift_peers_eq l list_update_append)
  also have "take i ?ps = map used_peer (take i xs)"
    using assms by (simp add: peers_of_def take_map)
  also have "drop (Suc i) ?ps = map used_peer (drop (Suc i) xs) @ replicate (16 - length xs) zero_peer"
    using assms by (simp add: peers_of_def drop_map)
  also have "(map used_peer (take i xs) @ map used_peer (drop (Suc i) xs) @
      replicate (16 - length xs) zero_peer) @ [zero_peer] = peers_of ?ys"
    using assms by (simp add: peers_of_def replicate_append_same Suc_diff_le)
      (simp flip: replicate_Suc add: Suc_diff_le)
  finally show ?thesis .
qed

lemma remove_first_peer:
  "length xs \<le> 16 \<Longrightarrow> xs \<noteq> [] \<Longrightarrow> remove_known_ble_peer_at 0 (peers_of xs) = peers_of (tl xs)"
  using remove_peers_of [of xs 0] by (simp add: drop_Suc)

text \<open>Writing the first free slot appends.\<close>

lemma write_free_slot:
  assumes "length xs < 16"
  shows "wr (peers_of xs) (length xs) (used_peer k) = Some (peers_of (xs @ [k]))"
proof -
  have "(replicate (16 - length xs) zero_peer)[0 := used_peer k] =
      used_peer k # replicate (16 - Suc (length xs)) zero_peer"
    using assms by (cases "16 - length xs") auto
  then show ?thesis
    using assms by (simp add: peers_of_def list_update_append)
qed

lemma append_peers_of:
  assumes "length xs \<le> 16"
  shows "append_known_ble_peer atype address (peers_of xs) =
    Some (peers_of ((if length xs < 16 then xs else tl xs) @ [(atype, address)]))"
proof -
  have k: "\<lparr>in_use = True, addr_type = atype, addr = address\<rparr> = used_peer (atype, address)"
    by (simp add: used_peer_def)
  show ?thesis
  proof (cases "length xs < 16")
    case True
    with write_free_slot [of xs "(atype, address)"] show ?thesis
      by (simp add: append_known_ble_peer_def k)
  next
    case False
    with assms have "length (tl xs) = 15" "xs \<noteq> []" by auto
    with assms False remove_first_peer [of xs] write_free_slot [of "tl xs" "(atype, address)"]
    show ?thesis by (simp add: append_known_ble_peer_def k)
  qed
qed

text \<open>The search finds the first slot that holds the address.\<close>

lemma find_peer_Some:
  "find_peer ps atype address = Some i \<Longrightarrow>
   i < length ps \<and> ble_addr_equal (ps ! i) atype address \<and>
   (\<forall>j < i. \<not> ble_addr_equal (ps ! j) atype address)"
proof (induction ps arbitrary: i)
  case (Cons p ps)
  then show ?case
    by (auto simp: less_Suc_eq_0_disj nth_Cons split: if_splits)
qed simp

lemma find_peer_None:
  "find_peer ps atype address = None \<longleftrightarrow> (\<forall>p \<in> set ps. \<not> ble_addr_equal p atype address)"
  by (induction ps) auto

lemma equal_used_peer [simp]:
  "ble_addr_equal (used_peer k) atype address \<longleftrightarrow> k = (atype, address)"
  by (cases k) (auto simp: ble_addr_equal_def)

lemma find_peers_of_None:
  "find_peer (peers_of xs) atype address = None \<longleftrightarrow> (atype, address) \<notin> set xs"
proof -
  have "\<not> ble_addr_equal zero_peer atype address" by (simp add: ble_addr_equal_def)
  then have "(\<exists>p \<in> set (peers_of xs). ble_addr_equal p atype address) \<longleftrightarrow>
      (\<exists>k \<in> set xs. ble_addr_equal (used_peer k) atype address)"
    by (simp add: peers_of_def bex_Un set_replicate_conv_if)
  then show ?thesis by (auto simp: find_peer_None)
qed

lemma find_peers_of_Some:
  assumes "length xs \<le> 16" "find_peer (peers_of xs) atype address = Some i"
  shows "i < length xs" "xs ! i = (atype, address)" "(atype, address) \<notin> set (take i xs)"
proof -
  from find_peer_Some [OF assms(2)] assms(1) have i: "i < 16"
    and eq: "ble_addr_equal (peers_of xs ! i) atype address"
    and before: "\<forall>j < i. \<not> ble_addr_equal (peers_of xs ! j) atype address" by auto
  show l: "i < length xs"
  proof (rule ccontr)
    assume "\<not> i < length xs"
    with i eq have "ble_addr_equal zero_peer atype address"
      by (simp add: peers_of_def nth_append)
    then show False by (simp add: ble_addr_equal_def)
  qed
  with eq show "xs ! i = (atype, address)" by (simp add: peers_of_def nth_append)
  from before l show "(atype, address) \<notin> set (take i xs)"
    by (auto simp: peers_of_def nth_append in_set_conv_nth)
qed

lemma remove1_at:
  "i < length xs \<Longrightarrow> xs ! i = k \<Longrightarrow> k \<notin> set (take i xs) \<Longrightarrow>
   remove1 k xs = take i xs @ drop (Suc i) xs"
  by (metis id_take_nth_drop remove1.simps(2) remove1_append)

lemma in_butlast_iff:
  assumes "i < length xs" "xs ! i = k" "k \<notin> set (take i xs)"
  shows "k \<in> set (butlast xs) \<longleftrightarrow> Suc i \<noteq> length xs"
proof
  assume "k \<in> set (butlast xs)"
  show "Suc i \<noteq> length xs"
  proof
    assume "Suc i = length xs"
    then have "butlast xs = take i xs" by (metis butlast_conv_take diff_Suc_1)
    with \<open>k \<in> set (butlast xs)\<close> assms(3) show False by simp
  qed
next
  assume "Suc i \<noteq> length xs"
  with assms(1) have "i < length (butlast xs)" by simp
  with assms(2) show "k \<in> set (butlast xs)" by (metis nth_butlast nth_mem)
qed

text \<open>The array operation refines the memory in order of use.\<close>

lemma remember_in_array_peers:
  assumes "length xs \<le> 16"
  shows "remember_in_array atype address (peers_of xs) =
    Some (fst (lru_remember 16 (atype, address) xs),
          peers_of (snd (lru_remember 16 (atype, address) xs)))"
proof (cases "find_peer (peers_of xs) atype address")
  case None
  then have "(atype, address) \<notin> set xs" by (simp add: find_peers_of_None)
  with None assms show ?thesis
    by (simp add: remember_in_array_def append_peers_of lru_remember_def)
next
  case (Some i)
  let ?k = "(atype, address)"
  note f = find_peers_of_Some [OF assms Some]
  have k: "?k \<in> set xs" using f by (metis nth_mem)
  note b = in_butlast_iff [OF f]
  show ?thesis
  proof (cases "Suc i = length xs")
    case True
    with k b Some f(1) show ?thesis
      by (auto simp: remember_in_array_def lru_remember_def)
  next
    case False
    have r: "remove_known_ble_peer_at i (peers_of xs) = peers_of (remove1 ?k xs)"
      using remove_peers_of [OF assms f(1)] remove1_at [OF f] by simp
    have l: "length (remove1 ?k xs) < 16"
      using assms k f(1) by (simp add: length_remove1)
    have p: "peers_of xs ! i = used_peer ?k"
      using f(1,2) by (simp add: peers_of_def nth_append)
    from False Some b k r p write_free_slot [OF l, of ?k] f(1) show ?thesis
      by (simp add: remember_in_array_def lru_remember_def)
  qed
qed

text \<open>The memory the wake policy keeps is an instance of the interface.\<close>

definition array_remember :: "u8 \<times> bytes \<Rightarrow> ble_peer list \<Rightarrow> ble_peer list" where
  "array_remember k ps =
     (case remember_in_array (fst k) (snd k) ps of Some (_, ps') \<Rightarrow> ps' | None \<Rightarrow> ps)"

definition array_matches :: "u8 \<times> bytes \<Rightarrow> ble_peer list \<Rightarrow> bool" where
  "array_matches k ps \<longleftrightarrow> find_peer ps (fst k) (snd k) \<noteq> None"

lemma set_remember: "set (snd (lru_remember cap k xs)) \<subseteq> insert k (set xs)"
  using set_remove1_subset [of k xs] list.set_sel(2) [of xs]
  by (cases xs) (auto simp: lru_remember_def)

lemma array_remember_peers_of:
  "length xs \<le> 16 \<Longrightarrow> array_remember k (peers_of xs) = peers_of (snd (lru_remember 16 k xs))"
  using remember_in_array_peers [of xs "fst k" "snd k"] by (simp add: array_remember_def)

lemma array_remember_inv:
  assumes "peers_inv ps" "valid_address k"
  shows "peers_inv (array_remember k ps)"
proof -
  from assms(1) obtain xs where xs: "ps = peers_of xs" "length xs \<le> 16" "\<forall>k \<in> set xs. valid_address k"
    by (rule peers_invE)
  then have "length (snd (lru_remember 16 k xs)) \<le> 16"
    by (intro lru_remember_length) simp_all
  with xs assms(2) set_remember [of 16 k xs] show ?thesis
    by (auto simp: array_remember_peers_of peers_inv_of)
qed

interpretation peer_memory: lru_memory peers_inv known_peers valid_address
  MAX_KNOWN_BLE_PEERS array_remember array_matches
proof unfold_locales
  fix ps k assume inv: "peers_inv ps"
  then obtain xs where xs: "ps = peers_of xs" "length xs \<le> 16" by (rule peers_invE)
  show "length (known_peers ps) \<le> MAX_KNOWN_BLE_PEERS" using xs by simp
  show "array_matches k ps \<longleftrightarrow> k \<in> set (known_peers ps)"
    using find_peers_of_None [of xs "fst k" "snd k"] xs by (simp add: array_matches_def)
  assume "valid_address k"
  with inv show "peers_inv (array_remember k ps)" by (rule array_remember_inv)
  show "known_peers (array_remember k ps) = snd (lru_remember MAX_KNOWN_BLE_PEERS k (known_peers ps))"
    using xs by (simp add: array_remember_peers_of)
qed simp

section \<open>The policy's operations on the list\<close>

definition policy_inv :: "'t wake_policy \<Rightarrow> bool" where
  "policy_inv st \<longleftrightarrow> peers_inv (known_ble_peers st)"

definition policy_peers :: "'t wake_policy \<Rightarrow> (u8 \<times> bytes) list" where
  "policy_peers st = known_peers (known_ble_peers st)"

lemma policy_boot_inv [simp]: "policy_inv (wake_policy_boot ck)" "policy_peers (wake_policy_boot ck) = []"
  by (simp_all add: policy_inv_def policy_peers_def wake_policy_boot_def no_peers_of peers_inv_of)

lemma mark_peers_dirty_peers [simp]:
  "known_ble_peers (mark_peers_dirty cfg ck n st) = known_ble_peers st"
  "standby_adv_reports (mark_peers_dirty cfg ck n st) = standby_adv_reports st"
  by (simp_all add: mark_peers_dirty_def)

lemma remember_ble_peer_list:
  assumes "policy_inv st" "length address = 6" "WAKE_ON_KNOWN_BLE_PEER cfg"
  obtains st' where
    "remember_ble_peer cfg ck n atype address st =
       Some (fst (lru_remember 16 (atype, address) (policy_peers st)), st')"
    "policy_inv st'"
    "policy_peers st' = snd (lru_remember 16 (atype, address) (policy_peers st))"
    "known_ble_peers st' = array_remember (atype, address) (known_ble_peers st)"
    "fst (lru_remember 16 (atype, address) (policy_peers st)) \<Longrightarrow>
       WAKE_PERSIST_BLE_PEERS cfg \<Longrightarrow>
       peers_dirty st' \<and> peers_dirty_at st' = sdk_make_timeout_time_ms ck n WAKE_PEER_SAVE_DELAY_MS"
    "standby_adv_reports st' = standby_adv_reports st"
proof -
  let ?k = "(atype, address)"
  let ?r = "lru_remember 16 ?k (policy_peers st)"
  from assms(1) obtain xs where xs: "known_ble_peers st = peers_of xs" "length xs \<le> 16"
    "\<forall>k \<in> set xs. valid_address k" by (auto simp: policy_inv_def elim: peers_invE)
  have px: "policy_peers st = xs" by (simp add: policy_peers_def xs)
  have arr: "remember_in_array atype address (known_ble_peers st) = Some (fst ?r, peers_of (snd ?r))"
    using remember_in_array_peers [OF xs(2), of atype address] by (simp add: xs(1) px)
  have inv: "peers_inv (array_remember ?k (known_ble_peers st))"
    using assms by (intro array_remember_inv) (simp_all add: policy_inv_def valid_address_def)
  have ar: "array_remember ?k (known_ble_peers st) = peers_of (snd ?r)"
    by (simp add: array_remember_def arr)
  let ?st = "if fst ?r then mark_peers_dirty cfg ck n (st\<lparr>known_ble_peers := peers_of (snd ?r)\<rparr>) else st"
  have same: "peers_of (snd ?r) = known_ble_peers st" if "\<not> fst ?r"
    using that by (simp add: lru_remember_def px xs(1) split: if_splits)
  have kb: "known_ble_peers ?st = peers_of (snd ?r)"
    using same by simp
  show thesis
  proof (rule that [of ?st])
    show "remember_ble_peer cfg ck n atype address st = Some (fst ?r, ?st)"
      using assms(3) arr by (simp add: remember_ble_peer_def)
    show "policy_inv ?st" using inv kb ar by (simp add: policy_inv_def)
    have "policy_peers ?st = known_peers (known_ble_peers ?st)" by (rule policy_peers_def)
    also have "\<dots> = snd ?r" by (simp only: kb known_peers_of)
    finally show "policy_peers ?st = snd ?r" .
    show "known_ble_peers ?st = array_remember ?k (known_ble_peers st)" using kb ar by simp
  qed (auto simp: mark_peers_dirty_def)
qed

lemma known_ble_peer_matches_list:
  "policy_inv st \<Longrightarrow> known_ble_peer_matches cfg atype address st \<longleftrightarrow>
     WAKE_ON_KNOWN_BLE_PEER cfg \<and> (atype, address) \<in> set (policy_peers st)"
  using peer_memory.matches_known [of "known_ble_peers st" "(atype, address)"]
  by (simp add: known_ble_peer_matches_def policy_inv_def policy_peers_def array_matches_def)

end
