(* ===== verification/Wake_Policy.thy ===== *)
theory Wake_Policy
  imports Wake_Peers "HOL-Library.Sublist"
begin

text \<open>
  Which packets wake the PC (\<open>src/wake_policy.c\<close>, lines 244-494): the advertising-data and
  advertising-report parsers and the wake decision. Every read of a packet is checked, so a
  result \<open>Some\<close> shows the parser stayed inside it. A decision is the reason the code stores
  through its out parameter, \<open>None\<close> when it returns false (it stores no reason then).
\<close>

section \<open>Names and service lists\<close>

definition ascii :: "string \<Rightarrow> bytes" where
  "ascii s = map of_char s"

definition lower_ascii :: "u8 \<Rightarrow> u8" where
  "lower_ascii b = (if 0x41 \<le> b \<and> b \<le> 0x5a then b - 0x41 + 0x61 else b)"

text \<open>The inner loop of \<open>ascii_contains_token\<close> at one position, then the outer loop.\<close>

fun token_at :: "bytes \<Rightarrow> nat \<Rightarrow> bytes \<Rightarrow> bool option" where
  "token_at data i [] = Some True"
| "token_at data i (c # cs) = do {
     a \<leftarrow> rd data i;
     if lower_ascii a \<noteq> lower_ascii c then Some False else token_at data (i + 1) cs
   }"

function token_from :: "bytes \<Rightarrow> nat \<Rightarrow> bytes \<Rightarrow> bool option" where
  "token_from data i token =
     (if i \<le> length data - length token then do {
        m \<leftarrow> token_at data i token;
        if m then Some True else token_from data (i + 1) token
      } else Some False)"
  by auto
termination by (relation "measure (\<lambda>(data, i, _). Suc (length data) - i)") auto

declare token_from.simps [simp del]

definition ascii_contains_token :: "bytes \<Rightarrow> bytes \<Rightarrow> bool option" where
  "ascii_contains_token data token =
     (if length token = 0 \<or> length token > length data then Some False
      else token_from data 0 token)"

fun ad_uuid16_list_has :: "bytes \<Rightarrow> u16 \<Rightarrow> bool" where
  "ad_uuid16_list_has (lo # hi # rest) uuid =
     (if le16 lo hi = uuid then True else ad_uuid16_list_has rest uuid)"
| "ad_uuid16_list_has _ uuid = False"

text \<open>The alternatives of \<open>||\<close>, tried in order.\<close>

fun contains_any :: "bytes \<Rightarrow> bytes list \<Rightarrow> bool option" where
  "contains_any data [] = Some False"
| "contains_any data (tk # tks) = do {
     m \<leftarrow> ascii_contains_token data tk;
     if m then Some True else contains_any data tks
   }"

definition controller_tokens :: "bytes list" where
  "controller_tokens = map ascii
     [''controller'', ''gamepad'', ''dualsense'', ''stadia'', ''xbox'', ''wireless controller'']"

definition ad_name_looks_like_controller :: "bytes \<Rightarrow> bool option" where
  "ad_name_looks_like_controller data = contains_any data controller_tokens"

definition ad_name_is_stadia :: "bytes \<Rightarrow> bool" where
  "ad_name_is_stadia data \<longleftrightarrow>
     (if length data < 6 then False else take 6 data = ascii ''Stadia'')"

section \<open>Advertising data\<close>

text \<open>No match, or a match with its reason and whether the sender is to be learned.\<close>

datatype ad_match = No_match | Match string bool

definition ad_stadia :: "build_config \<Rightarrow> u8 \<Rightarrow> bytes \<Rightarrow> ad_match" where
  "ad_stadia cfg ad_type ad_data =
     (if WAKE_ON_STADIA_ADV cfg \<and> (ad_type = 0x08 \<or> ad_type = 0x09) \<and> ad_name_is_stadia ad_data
      then Match ''Stadia BLE advertisement'' True else No_match)"

definition ad_hid :: "build_config \<Rightarrow> u8 \<Rightarrow> bytes \<Rightarrow> ad_match" where
  "ad_hid cfg ad_type ad_data =
     (if WAKE_ON_BLE_HID cfg then
        if (ad_type = 0x02 \<or> ad_type = 0x03) \<and> ad_uuid16_list_has ad_data 0x1812
        then Match ''BLE HID service advertisement'' False
        else if ad_type = 0x16 \<and> length ad_data \<ge> 2 \<and> le16 (ad_data ! 0) (ad_data ! 1) = 0x1812
        then Match ''BLE HID service data'' False
        else if ad_type = 0x19 \<and> length ad_data \<ge> 2 \<and>
                drop_bit 6 (le16 (ad_data ! 0) (ad_data ! 1)) = 15
        then Match ''BLE HID appearance'' False
        else No_match
      else No_match)"

definition ad_controller :: "build_config \<Rightarrow> u8 \<Rightarrow> bytes \<Rightarrow> ad_match option" where
  "ad_controller cfg ad_type ad_data =
     (if WAKE_ON_BLE_CONTROLLER_NAME cfg \<and> (ad_type = 0x08 \<or> ad_type = 0x09) then do {
        m \<leftarrow> ad_name_looks_like_controller ad_data;
        Some (if m then Match ''BLE controller name'' False else No_match)
      } else Some No_match)"

text \<open>The checks on one field, in the order of the code.\<close>

definition ad_field_matches :: "build_config \<Rightarrow> u8 \<Rightarrow> bytes \<Rightarrow> ad_match option" where
  "ad_field_matches cfg ad_type ad_data =
     (if ad_stadia cfg ad_type ad_data \<noteq> No_match then Some (ad_stadia cfg ad_type ad_data)
      else if ad_hid cfg ad_type ad_data \<noteq> No_match then Some (ad_hid cfg ad_type ad_data)
      else ad_controller cfg ad_type ad_data)"

function ad_from :: "build_config \<Rightarrow> bytes \<Rightarrow> nat \<Rightarrow> ad_match option" where
  "ad_from cfg data pos =
     (if pos < length data then do {
        field_len \<leftarrow> rd data pos;
        if field_len = 0 then Some No_match
        else if unat field_len > length data - (pos + 1) then Some No_match
        else do {
          ad_type \<leftarrow> rd data (pos + 1);
          ad_data \<leftarrow> sub_bytes data (pos + 2) (unat field_len - 1);
          m \<leftarrow> ad_field_matches cfg ad_type ad_data;
          if m \<noteq> No_match then Some m else ad_from cfg data (pos + 1 + unat field_len)
        }
      } else Some No_match)"
  by auto
termination by (relation "measure (\<lambda>(_, data, pos). length data - pos)") auto

declare ad_from.simps [simp del]

definition le_advertising_data_matches :: "build_config \<Rightarrow> bytes \<Rightarrow> ad_match option" where
  "le_advertising_data_matches cfg data = ad_from cfg data 0"

section \<open>Advertising reports\<close>

text \<open>A matching advertiser is learned when the data says so.\<close>

definition learn_if ::
    "build_config \<Rightarrow> 't pico_clock \<Rightarrow> nat \<Rightarrow> bool \<Rightarrow> u8 \<Rightarrow> bytes \<Rightarrow> 't wake_policy
       \<Rightarrow> 't wake_policy option" where
  "learn_if cfg ck n learn atype address st =
     (if learn then map_option snd (remember_ble_peer cfg ck n atype address st) else Some st)"

text \<open>The fields of the report at a position: event type, address type, address, data;
  \<open>Some None\<close> when the rest of the packet is too short for it and the loop breaks.\<close>

definition adv_report_at :: "bytes \<Rightarrow> nat \<Rightarrow> (u8 \<times> u8 \<times> bytes \<times> bytes) option option" where
  "adv_report_at params pos =
     (if pos + 9 > length params then Some None
      else do {
        event_type \<leftarrow> rd params pos;
        atype \<leftarrow> rd params (pos + 1);
        address \<leftarrow> sub_bytes params (pos + 2) 6;
        data_len \<leftarrow> rd params (pos + 8);
        if pos + 9 + unat data_len > length params then Some None
        else do {
          data \<leftarrow> sub_bytes params (pos + 9) (unat data_len);
          Some (Some (event_type, atype, address, data))
        }
      })"

text \<open>The data check at the end of both report loops.\<close>

definition report_data ::
    "build_config \<Rightarrow> 't pico_clock \<Rightarrow> nat \<Rightarrow> u8 \<Rightarrow> bytes \<Rightarrow> bytes \<Rightarrow> 't wake_policy
       \<Rightarrow> (string option \<times> 't wake_policy) option" where
  "report_data cfg ck n atype address data st = do {
     m \<leftarrow> le_advertising_data_matches cfg data;
     case m of
       Match r learn \<Rightarrow> do {
         st \<leftarrow> learn_if cfg ck n learn atype address st;
         Some (Some r, st)
       }
     | No_match \<Rightarrow> Some (None, st)
   }"

definition adv_report_matches ::
    "build_config \<Rightarrow> 't pico_clock \<Rightarrow> nat \<Rightarrow> u8 \<times> u8 \<times> bytes \<times> bytes \<Rightarrow> 't wake_policy
       \<Rightarrow> (string option \<times> 't wake_policy) option" where
  "adv_report_matches cfg ck n report st =
     (let (event_type, atype, address, data) = report;
          st = st\<lparr>standby_adv_reports := standby_adv_reports st + 1\<rparr>
      in if WAKE_ON_KNOWN_BLE_PEER cfg \<and> known_ble_peer_matches cfg atype address st
         then Some (Some ''known BLE peer advertisement'', st)
         else if WAKE_ON_CONNECTABLE_BLE_ADV cfg \<and> (event_type = 0x00 \<or> event_type = 0x01)
         then Some (Some (if event_type = 0x01 then ''BLE directed advertisement''
                          else ''BLE connectable advertisement''), st)
         else report_data cfg ck n atype address data st)"

text \<open>The loop of \<open>le_advertising_report_matches\<close>; the first argument counts the reports left.
  The position advances past the report's data and its RSSI byte.\<close>

fun adv_reports ::
    "nat \<Rightarrow> build_config \<Rightarrow> 't pico_clock \<Rightarrow> nat \<Rightarrow> bytes \<Rightarrow> nat \<Rightarrow> 't wake_policy
       \<Rightarrow> (string option \<times> 't wake_policy) option" where
  "adv_reports 0 cfg ck n params pos st = Some (None, st)"
| "adv_reports (Suc left) cfg ck n params pos st =
     (case adv_report_at params pos of
        None \<Rightarrow> None
      | Some None \<Rightarrow> Some (None, st)
      | Some (Some report) \<Rightarrow>
          (case adv_report_matches cfg ck n report st of
             Some (None, st') \<Rightarrow> adv_reports left cfg ck n params
               (pos + (9 + length (snd (snd (snd report))) + 1)) st'
           | result \<Rightarrow> result))"

definition le_advertising_report_matches ::
    "build_config \<Rightarrow> 't pico_clock \<Rightarrow> nat \<Rightarrow> bytes \<Rightarrow> 't wake_policy
       \<Rightarrow> (string option \<times> 't wake_policy) option" where
  "le_advertising_report_matches cfg ck n params st =
     (if length params < 2 then Some (None, st)
      else do {
        sub \<leftarrow> rd params 0;
        if sub \<noteq> HCI_SUBEVENT_LE_ADVERTISING_REPORT then Some (None, st)
        else do {
          reports \<leftarrow> rd params 1;
          adv_reports (unat reports) cfg ck n params 2 st
        }
      })"

fun directed_reports :: "nat \<Rightarrow> bytes \<Rightarrow> nat \<Rightarrow> string option option" where
  "directed_reports 0 params pos = Some None"
| "directed_reports (Suc left) params pos =
     (if pos + 16 > length params then Some None
      else do {
        event_type \<leftarrow> rd params pos;
        if event_type = 0x01 then Some (Some ''BLE directed advertisement'')
        else directed_reports left params (pos + 16)
      })"

definition le_directed_advertising_report_matches ::
    "build_config \<Rightarrow> bytes \<Rightarrow> string option option" where
  "le_directed_advertising_report_matches cfg params =
     (if length params < 2 then Some None
      else do {
        sub \<leftarrow> rd params 0;
        if sub \<noteq> HCI_SUBEVENT_LE_DIRECTED_ADVERTISING_REPORT then Some None
        else if WAKE_ON_BLE_DIRECTED_ADV cfg then do {
          reports \<leftarrow> rd params 1;
          directed_reports (unat reports) params 2
        } else Some None
      })"

definition ext_report_at :: "bytes \<Rightarrow> nat \<Rightarrow> (u16 \<times> u8 \<times> bytes \<times> bytes) option option" where
  "ext_report_at params pos =
     (if pos + 24 > length params then Some None
      else do {
        b0 \<leftarrow> rd params pos;
        b1 \<leftarrow> rd params (pos + 1);
        atype \<leftarrow> rd params (pos + 2);
        address \<leftarrow> sub_bytes params (pos + 3) 6;
        data_len \<leftarrow> rd params (pos + 23);
        if pos + 24 + unat data_len > length params then Some None
        else do {
          data \<leftarrow> sub_bytes params (pos + 24) (unat data_len);
          Some (Some (le16 b0 b1, atype, address, data))
        }
      })"

definition ext_report_matches ::
    "build_config \<Rightarrow> 't pico_clock \<Rightarrow> nat \<Rightarrow> u16 \<times> u8 \<times> bytes \<times> bytes \<Rightarrow> 't wake_policy
       \<Rightarrow> (string option \<times> 't wake_policy) option" where
  "ext_report_matches cfg ck n report st =
     (let (event_type, atype, address, data) = report;
          st = st\<lparr>standby_adv_reports := standby_adv_reports st + 1\<rparr>
      in if WAKE_ON_KNOWN_BLE_PEER cfg \<and> known_ble_peer_matches cfg atype address st
         then Some (Some ''known BLE peer extended advertisement'', st)
         else if WAKE_ON_CONNECTABLE_BLE_ADV cfg \<and> event_type AND 0x0001 \<noteq> 0
         then Some (Some ''BLE connectable extended advertisement'', st)
         else if WAKE_ON_CONNECTABLE_BLE_ADV cfg \<and> event_type AND 0x0004 \<noteq> 0
         then Some (Some ''BLE directed extended advertisement'', st)
         else report_data cfg ck n atype address data st)"

fun ext_adv_reports ::
    "nat \<Rightarrow> build_config \<Rightarrow> 't pico_clock \<Rightarrow> nat \<Rightarrow> bytes \<Rightarrow> nat \<Rightarrow> 't wake_policy
       \<Rightarrow> (string option \<times> 't wake_policy) option" where
  "ext_adv_reports 0 cfg ck n params pos st = Some (None, st)"
| "ext_adv_reports (Suc left) cfg ck n params pos st =
     (case ext_report_at params pos of
        None \<Rightarrow> None
      | Some None \<Rightarrow> Some (None, st)
      | Some (Some report) \<Rightarrow>
          (case ext_report_matches cfg ck n report st of
             Some (None, st') \<Rightarrow> ext_adv_reports left cfg ck n params
               (pos + (24 + length (snd (snd (snd report))))) st'
           | result \<Rightarrow> result))"

definition le_extended_advertising_report_matches ::
    "build_config \<Rightarrow> 't pico_clock \<Rightarrow> nat \<Rightarrow> bytes \<Rightarrow> 't wake_policy
       \<Rightarrow> (string option \<times> 't wake_policy) option" where
  "le_extended_advertising_report_matches cfg ck n params st =
     (if length params < 2 then Some (None, st)
      else do {
        sub \<leftarrow> rd params 0;
        if sub \<noteq> HCI_SUBEVENT_LE_EXTENDED_ADVERTISING_REPORT then Some (None, st)
        else do {
          reports \<leftarrow> rd params 1;
          ext_adv_reports (unat reports) cfg ck n params 2 st
        }
      })"

section \<open>The decision\<close>

definition wake_policy_packet_matches ::
    "build_config \<Rightarrow> 't pico_clock \<Rightarrow> nat \<Rightarrow> hci_packet_type \<Rightarrow> bytes \<Rightarrow> 't wake_policy
       \<Rightarrow> (string option \<times> 't wake_policy) option" where
  "wake_policy_packet_matches cfg ck n t packet st =
     (if t \<noteq> HCI_PKT_EVENT \<or> length packet < 2 then Some (None, st)
      else do {
        b0 \<leftarrow> rd packet 0;
        if b0 = HCI_EVENT_CONNECTION_REQUEST then Some (Some ''classic connection request'', st)
        else if b0 = HCI_EVENT_LE_META \<and> length packet \<ge> 4 then do {
          sub \<leftarrow> rd packet 2;
          if sub = HCI_SUBEVENT_LE_ADVERTISING_REPORT then
            (if WAKE_ON_ANY_BLE_ADV cfg then Some (Some ''BLE advertisement'', st)
             else le_advertising_report_matches cfg ck n (drop 2 packet) st)
          else if sub = HCI_SUBEVENT_LE_DIRECTED_ADVERTISING_REPORT then
            map_option (\<lambda>r. (r, st)) (le_directed_advertising_report_matches cfg (drop 2 packet))
          else if sub = HCI_SUBEVENT_LE_EXTENDED_ADVERTISING_REPORT then
            le_extended_advertising_report_matches cfg ck n (drop 2 packet) st
          else Some (None, st)
        } else Some (None, st)
      })"

end
