(* ===== verification/Wake_Match.thy ===== *)
theory Wake_Match
  imports Wake_Policy
begin

text \<open>
  What the parsers of theory Wake_Policy compute: they never read outside the packet, they
  end, and they agree with a specification that first parses a packet into fields and reports
  and then asks which of them wakes the PC.
\<close>

section \<open>Names\<close>

lemma token_at_eq:
  "i + length token \<le> length data \<Longrightarrow>
   token_at data i token =
     Some (map lower_ascii (take (length token) (drop i data)) = map lower_ascii token)"
proof (induction token arbitrary: i)
  case (Cons c cs)
  then have "drop i data = data ! i # drop (i + 1) data"
    by (simp add: Cons_nth_drop_Suc)
  with Cons show ?case by simp
qed simp

text \<open>The token occurs at one of the positions still to be tried.\<close>

definition token_occurs :: "bytes \<Rightarrow> bytes \<Rightarrow> nat \<Rightarrow> bool" where
  "token_occurs data token i \<longleftrightarrow>
     i + length token \<le> length data \<and>
     map lower_ascii (take (length token) (drop i data)) = map lower_ascii token"

lemma ex_from_step: "(\<exists>j \<ge> i. P j) \<longleftrightarrow> P i \<or> (\<exists>j \<ge> Suc i. P j)"
  using Suc_le_eq le_eq_less_or_eq by auto

lemma token_from_eq:
  "length token \<le> length data \<Longrightarrow>
   token_from data i token = Some (\<exists>j \<ge> i. token_occurs data token j)"
proof (induction "Suc (length data) - i" arbitrary: i rule: less_induct)
  case less
  show ?case
  proof (cases "i \<le> length data - length token")
    case True
    with less.prems have le: "i + length token \<le> length data" by linarith
    have at: "token_at data i token = Some (token_occurs data token i)"
      unfolding token_at_eq [OF le] using le by (simp add: token_occurs_def)
    have "token_from data (i + 1) token = Some (\<exists>j \<ge> i + 1. token_occurs data token j)"
      using True by (intro less.hyps [OF _ less.prems]) auto
    then have "token_from data i token =
        Some (token_occurs data token i \<or> (\<exists>j \<ge> i + 1. token_occurs data token j))"
      using True at by (subst token_from.simps) simp
    also have "(token_occurs data token i \<or> (\<exists>j \<ge> i + 1. token_occurs data token j)) \<longleftrightarrow>
        (\<exists>j \<ge> i. token_occurs data token j)"
      using ex_from_step [of i "token_occurs data token"] by simp
    finally show ?thesis .
  next
    case False
    then have "token_from data i token = Some False" by (subst token_from.simps) simp
    moreover have "\<not> (\<exists>j \<ge> i. token_occurs data token j)"
      using False by (auto simp: token_occurs_def)
    ultimately show ?thesis by simp
  qed
qed

lemma token_occurs_sublist:
  "(\<exists>j. token_occurs data token j) \<longleftrightarrow> sublist (map lower_ascii token) (map lower_ascii data)"
proof
  assume "\<exists>j. token_occurs data token j"
  then obtain j where j: "map lower_ascii (take (length token) (drop j data)) = map lower_ascii token"
    by (auto simp: token_occurs_def)
  have "map lower_ascii data =
      map lower_ascii (take j data) @ map lower_ascii token @ map lower_ascii (drop (length token) (drop j data))"
    unfolding j [symmetric] map_append [symmetric] append_take_drop_id ..
  then show "sublist (map lower_ascii token) (map lower_ascii data)" by (metis sublist_appendI)
next
  assume "sublist (map lower_ascii token) (map lower_ascii data)"
  then obtain xs ys where eq: "map lower_ascii data = xs @ map lower_ascii token @ ys"
    by (auto simp: sublist_def)
  have "map lower_ascii (take (length token) (drop (length xs) data)) =
      take (length token) (drop (length xs) (map lower_ascii data))"
    by (simp add: take_map drop_map)
  also have "\<dots> = map lower_ascii token" unfolding eq by simp
  finally have "token_occurs data token (length xs)"
    using arg_cong [OF eq, of length] by (simp add: token_occurs_def)
  then show "\<exists>j. token_occurs data token j" by blast
qed

lemma ascii_contains_token_eq:
  "ascii_contains_token data token =
     Some (token \<noteq> [] \<and> sublist (map lower_ascii token) (map lower_ascii data))"
proof (cases "length token = 0 \<or> length token > length data")
  case True
  then have "token = [] \<or> \<not> sublist (map lower_ascii token) (map lower_ascii data)"
    using sublist_length_le [of "map lower_ascii token" "map lower_ascii data"] by auto
  with True show ?thesis by (auto simp: ascii_contains_token_def)
next
  case False
  then show ?thesis
    by (auto simp: ascii_contains_token_def token_from_eq simp flip: token_occurs_sublist)
qed

lemma contains_any_eq:
  "contains_any data tks =
     Some (\<exists>tk \<in> set tks. tk \<noteq> [] \<and> sublist (map lower_ascii tk) (map lower_ascii data))"
  by (induction tks) (auto simp: ascii_contains_token_eq)

lemma controller_tokens_nonempty: "[] \<notin> set controller_tokens"
  by (simp add: controller_tokens_def ascii_def)

lemma looks_like_controller_eq:
  "ad_name_looks_like_controller data =
     Some (\<exists>tk \<in> set controller_tokens. sublist (map lower_ascii tk) (map lower_ascii data))"
proof -
  have "tk \<noteq> []" if "tk \<in> set controller_tokens" for tk
    using that controller_tokens_nonempty by metis
  then show ?thesis by (auto simp: ad_name_looks_like_controller_def contains_any_eq)
qed

lemma stadia_length [simp]: "length (ascii ''Stadia'') = 6"
  by (simp add: ascii_def)

lemma name_is_stadia_prefix: "ad_name_is_stadia data \<longleftrightarrow> prefix (ascii ''Stadia'') data"
proof
  assume "ad_name_is_stadia data"
  then have "take 6 data = ascii ''Stadia''" by (simp add: ad_name_is_stadia_def split: if_splits)
  then show "prefix (ascii ''Stadia'') data" by (metis take_is_prefix)
next
  assume "prefix (ascii ''Stadia'') data"
  then obtain zs where "data = ascii ''Stadia'' @ zs" by (auto simp: prefix_def)
  then show "ad_name_is_stadia data" by (simp add: ad_name_is_stadia_def)
qed

lemma uuid16_list_has_iff:
  "ad_uuid16_list_has data uuid \<longleftrightarrow>
     (\<exists>i. 2 * i + 1 < length data \<and> le16 (data ! (2 * i)) (data ! (2 * i + 1)) = uuid)"
proof (induction data uuid rule: ad_uuid16_list_has.induct)
  case (1 lo hi rest uuid)
  have "(\<exists>i. 2 * i + 1 < length (lo # hi # rest) \<and>
         le16 ((lo # hi # rest) ! (2 * i)) ((lo # hi # rest) ! (2 * i + 1)) = uuid) \<longleftrightarrow>
      le16 lo hi = uuid \<or>
      (\<exists>i. 2 * i + 1 < length rest \<and> le16 (rest ! (2 * i)) (rest ! (2 * i + 1)) = uuid)"
    (is "(\<exists>i. ?P i) \<longleftrightarrow> ?Q \<or> (\<exists>i. ?R i)")
  proof -
    have "?P 0 \<longleftrightarrow> ?Q" by simp
    moreover have "?P (Suc i) \<longleftrightarrow> ?R i" for i by simp
    ultimately show ?thesis by (metis not0_implies_Suc)
  qed
  with 1 show ?case by simp
qed simp_all

section \<open>Advertising data\<close>

text \<open>The fields of advertising data: type and contents, up to a zero length or a field that
  does not fit.\<close>

function ad_fields :: "bytes \<Rightarrow> (u8 \<times> bytes) list" where
  "ad_fields [] = []"
| "ad_fields (n # rest) =
     (if n = 0 \<or> unat n > length rest then []
      else (rest ! 0, take (unat n - 1) (drop 1 rest)) # ad_fields (drop (unat n) rest))"
  by pat_completeness auto
termination by (relation "measure length") auto

text \<open>The code's check of one field never fails.\<close>

definition field_match :: "build_config \<Rightarrow> u8 \<times> bytes \<Rightarrow> ad_match" where
  "field_match cfg f = the (ad_field_matches cfg (fst f) (snd f))"

lemma ad_field_matches_Some: "ad_field_matches cfg t d = Some (field_match cfg (t, d))"
  by (simp add: ad_field_matches_def field_match_def ad_controller_def looks_like_controller_eq)

fun first_match :: "build_config \<Rightarrow> (u8 \<times> bytes) list \<Rightarrow> ad_match" where
  "first_match cfg [] = No_match"
| "first_match cfg (f # fs) =
     (if field_match cfg f \<noteq> No_match then field_match cfg f else first_match cfg fs)"

lemma ad_from_eq: "ad_from cfg data pos = Some (first_match cfg (ad_fields (drop pos data)))"
proof (induction "length data - pos" arbitrary: pos rule: less_induct)
  case less
  show ?case
  proof (cases "pos < length data")
    case False
    then show ?thesis by (subst ad_from.simps) simp
  next
    case True
    let ?n = "data ! pos" and ?rest = "drop (pos + 1) data"
    have d: "drop pos data = ?n # ?rest" using True by (simp add: Cons_nth_drop_Suc)
    show ?thesis
    proof (cases "?n = 0 \<or> unat ?n > length ?rest")
      case stop: True
      then show ?thesis using True d by (subst ad_from.simps) auto
    next
      case False
      then have n: "0 < unat ?n" "pos + 1 + unat ?n \<le> length data"
        using True by (auto simp: unat_gt_0)
      have r0: "?rest ! 0 = data ! (pos + 1)" using n by simp
      have tk: "take (unat ?n - 1) (drop 1 ?rest) = take (unat ?n - 1) (drop (pos + 2) data)"
        by simp
      have rec: "ad_from cfg data (pos + 1 + unat ?n) =
          Some (first_match cfg (ad_fields (drop (pos + 1 + unat ?n) data)))"
        using True by (intro less.hyps) auto
      have "ad_from cfg data pos =
          (let m = field_match cfg (data ! (pos + 1), take (unat ?n - 1) (drop (pos + 2) data))
           in if m \<noteq> No_match then Some m else ad_from cfg data (pos + 1 + unat ?n))"
        using True False n by (subst ad_from.simps) (simp add: ad_field_matches_Some)
      also have "\<dots> = Some (first_match cfg
          ((data ! (pos + 1), take (unat ?n - 1) (drop (pos + 2) data)) #
           ad_fields (drop (pos + 1 + unat ?n) data)))"
        using rec by simp
      also have "(data ! (pos + 1), take (unat ?n - 1) (drop (pos + 2) data)) #
           ad_fields (drop (pos + 1 + unat ?n) data) = ad_fields (drop pos data)"
        using False r0 tk unfolding d by (simp add: add.commute)
      finally show ?thesis .
    qed
  qed
qed

lemma le_advertising_data_matches_eq:
  "le_advertising_data_matches cfg data = Some (first_match cfg (ad_fields data))"
  by (simp add: le_advertising_data_matches_def ad_from_eq)

section \<open>Reports\<close>

text \<open>The reports of a packet, parsed without looking at the policy: event type, address type,
  address, data.\<close>

fun legacy_reports :: "nat \<Rightarrow> bytes \<Rightarrow> (u8 \<times> u8 \<times> bytes \<times> bytes) list" where
  "legacy_reports 0 ps = []"
| "legacy_reports (Suc left) ps =
     (if length ps < 9 \<or> length ps < 9 + unat (ps ! 8) then []
      else (ps ! 0, ps ! 1, take 6 (drop 2 ps), take (unat (ps ! 8)) (drop 9 ps)) #
           legacy_reports left (drop (10 + unat (ps ! 8)) ps))"

fun extended_reports :: "nat \<Rightarrow> bytes \<Rightarrow> (u16 \<times> u8 \<times> bytes \<times> bytes) list" where
  "extended_reports 0 ps = []"
| "extended_reports (Suc left) ps =
     (if length ps < 24 \<or> length ps < 24 + unat (ps ! 23) then []
      else (le16 (ps ! 0) (ps ! 1), ps ! 2, take 6 (drop 3 ps), take (unat (ps ! 23)) (drop 24 ps)) #
           extended_reports left (drop (24 + unat (ps ! 23)) ps))"

fun directed_report_types :: "nat \<Rightarrow> bytes \<Rightarrow> u8 list" where
  "directed_report_types 0 ps = []"
| "directed_report_types (Suc left) ps =
     (if length ps < 16 then [] else ps ! 0 # directed_report_types left (drop 16 ps))"

text \<open>The loops of the code: the first report the decision accepts ends them.\<close>

fun scan :: "('r \<Rightarrow> 's \<Rightarrow> (string option \<times> 's) option) \<Rightarrow> 'r list \<Rightarrow> 's
    \<Rightarrow> (string option \<times> 's) option" where
  "scan decide [] s = Some (None, s)"
| "scan decide (r # rs) s =
     (case decide r s of Some (None, s') \<Rightarrow> scan decide rs s' | result \<Rightarrow> result)"

lemma adv_report_at_eq:
  "pos \<le> length params \<Longrightarrow>
   adv_report_at params pos = Some
     (let ps = drop pos params in
      if length ps < 9 \<or> length ps < 9 + unat (ps ! 8) then None
      else Some (ps ! 0, ps ! 1, take 6 (drop 2 ps), take (unat (ps ! 8)) (drop 9 ps)))"
  by (auto simp: adv_report_at_def add.commute)

lemma ext_report_at_eq:
  "pos \<le> length params \<Longrightarrow>
   ext_report_at params pos = Some
     (let ps = drop pos params in
      if length ps < 24 \<or> length ps < 24 + unat (ps ! 23) then None
      else Some (le16 (ps ! 0) (ps ! 1), ps ! 2, take 6 (drop 3 ps),
                 take (unat (ps ! 23)) (drop 24 ps)))"
  by (auto simp: ext_report_at_def add.commute)

text \<open>A report whose RSSI byte is cut off ends the packet, so the loop may step one byte past
  its end.\<close>

lemma legacy_reports_short: "length ps < 9 \<Longrightarrow> legacy_reports left ps = []"
  by (cases left) simp_all

lemma adv_reports_short:
  "length params < pos + 9 \<Longrightarrow> adv_reports left cfg ck n params pos st = Some (None, st)"
  by (cases left) (simp_all add: adv_report_at_def)

lemma length_take_drop: "a + k \<le> length ps \<Longrightarrow> length (take k (drop a ps)) = k"
  by simp

lemma adv_reports_eq:
  "adv_reports left cfg ck n params pos st =
     scan (adv_report_matches cfg ck n) (legacy_reports left (drop pos params)) st"
proof (induction left arbitrary: pos st)
  case (Suc left)
  show ?case
  proof (cases "length params < pos + 9")
    case True
    then have "length (drop pos params) < 9" by simp
    then show ?thesis
      unfolding legacy_reports_short [OF \<open>length (drop pos params) < 9\<close>] adv_reports_short [OF True]
      by simp
  next
    case False
    then have pos: "pos \<le> length params" by simp
    let ?ps = "drop pos params"
    let ?r = "(?ps ! 0, ?ps ! 1, take 6 (drop 2 ?ps), take (unat (?ps ! 8)) (drop 9 ?ps))"
    show ?thesis
    proof (cases "length ?ps < 9 \<or> length ?ps < 9 + unat (?ps ! 8)")
      case True
      then have "adv_report_at params pos = Some None"
        unfolding adv_report_at_eq [OF pos] Let_def by (simp only: if_True)
      moreover have "legacy_reports (Suc left) ?ps = []"
        using True by (simp only: legacy_reports.simps if_True)
      ultimately show ?thesis by simp
    next
      case fits: False
      obtain r where r: "r = ?r" by blast
      from fits have at: "adv_report_at params pos = Some (Some r)"
        unfolding adv_report_at_eq [OF pos] Let_def r by (simp only: if_False)
      have "9 + unat (?ps ! 8) \<le> length ?ps" using fits by linarith
      then have len: "length (snd (snd (snd r))) = unat (?ps ! 8)"
        unfolding r snd_conv by (rule length_take_drop)
      have ls: "legacy_reports (Suc left) ?ps =
          r # legacy_reports left (drop (pos + (9 + unat (?ps ! 8) + 1)) params)"
        using fits by (simp add: add_ac r)
      show ?thesis
        unfolding adv_reports.simps at ls scan.simps len
        by (simp add: Suc.IH len split: option.splits)
    qed
  qed
qed simp

lemma ext_adv_reports_eq:
  "pos \<le> length params \<Longrightarrow>
   ext_adv_reports left cfg ck n params pos st =
     scan (ext_report_matches cfg ck n) (extended_reports left (drop pos params)) st"
proof (induction left arbitrary: pos st)
  case (Suc left)
  let ?ps = "drop pos params"
  let ?r = "(le16 (?ps ! 0) (?ps ! 1), ?ps ! 2, take 6 (drop 3 ?ps), take (unat (?ps ! 23)) (drop 24 ?ps))"
  show ?case
  proof (cases "length ?ps < 24 \<or> length ?ps < 24 + unat (?ps ! 23)")
    case True
    then have "ext_report_at params pos = Some None"
      unfolding ext_report_at_eq [OF Suc.prems] Let_def by (simp only: if_True)
    moreover have "extended_reports (Suc left) ?ps = []"
      using True by (simp only: extended_reports.simps if_True)
    ultimately show ?thesis by simp
  next
    case fits: False
    obtain r where r: "r = ?r" by blast
    from fits have at: "ext_report_at params pos = Some (Some r)"
      unfolding ext_report_at_eq [OF Suc.prems] Let_def r by (simp only: if_False)
    have le: "24 + unat (?ps ! 23) \<le> length ?ps" using fits by linarith
    then have len: "length (snd (snd (snd r))) = unat (?ps ! 23)"
      unfolding r snd_conv by (rule length_take_drop)
    have nxt: "pos + (24 + unat (?ps ! 23)) \<le> length params" using le Suc.prems by simp
    have ls: "extended_reports (Suc left) ?ps =
        r # extended_reports left (drop (pos + (24 + unat (?ps ! 23))) params)"
      using fits by (simp add: add_ac r)
    show ?thesis
      unfolding ext_adv_reports.simps at ls scan.simps len
      by (simp add: Suc.IH [OF nxt] len split: option.splits)
  qed
qed simp

lemma directed_reports_eq:
  "directed_reports left params pos = Some
     (if 0x01 \<in> set (directed_report_types left (drop pos params))
      then Some ''BLE directed advertisement'' else None)"
  by (induction left arbitrary: pos) (auto simp: add_ac)

section \<open>The decision on a list of reports\<close>

text \<open>Why a report wakes the PC, given the peers known: a reason, and whether its sender is
  to be learned.\<close>

definition data_reason :: "build_config \<Rightarrow> bytes \<Rightarrow> (string \<times> bool) option" where
  "data_reason cfg data =
     (case first_match cfg (ad_fields data) of Match r learn \<Rightarrow> Some (r, learn) | No_match \<Rightarrow> None)"

fun sender :: "'e \<times> u8 \<times> bytes \<times> bytes \<Rightarrow> u8 \<times> bytes" where
  "sender (e, atype, address, data) = (atype, address)"

fun legacy_reason ::
    "build_config \<Rightarrow> (u8 \<times> bytes) list \<Rightarrow> u8 \<times> u8 \<times> bytes \<times> bytes \<Rightarrow> (string \<times> bool) option" where
  "legacy_reason cfg peers (e, atype, address, data) =
     (if WAKE_ON_KNOWN_BLE_PEER cfg \<and> (atype, address) \<in> set peers
      then Some (''known BLE peer advertisement'', False)
      else if WAKE_ON_CONNECTABLE_BLE_ADV cfg \<and> e = 0x01 then Some (''BLE directed advertisement'', False)
      else if WAKE_ON_CONNECTABLE_BLE_ADV cfg \<and> e = 0x00 then Some (''BLE connectable advertisement'', False)
      else data_reason cfg data)"

fun extended_reason ::
    "build_config \<Rightarrow> (u8 \<times> bytes) list \<Rightarrow> u16 \<times> u8 \<times> bytes \<times> bytes \<Rightarrow> (string \<times> bool) option" where
  "extended_reason cfg peers (e, atype, address, data) =
     (if WAKE_ON_KNOWN_BLE_PEER cfg \<and> (atype, address) \<in> set peers
      then Some (''known BLE peer extended advertisement'', False)
      else if WAKE_ON_CONNECTABLE_BLE_ADV cfg \<and> e AND 1 \<noteq> 0
      then Some (''BLE connectable extended advertisement'', False)
      else if WAKE_ON_CONNECTABLE_BLE_ADV cfg \<and> e AND 4 \<noteq> 0
      then Some (''BLE directed extended advertisement'', False)
      else data_reason cfg data)"

text \<open>The peers after a decision: a sender recognised by its name is remembered.\<close>

definition learned ::
    "build_config \<Rightarrow> (u8 \<times> bytes) list \<Rightarrow> u8 \<times> bytes \<Rightarrow> (string \<times> bool) option \<Rightarrow> (u8 \<times> bytes) list" where
  "learned cfg peers k reason =
     (case reason of
        Some (why, learn) \<Rightarrow>
          if WAKE_ON_KNOWN_BLE_PEER cfg \<and> learn then snd (lru_remember 16 k peers) else peers
      | None \<Rightarrow> peers)"

lemma learned_simps [simp]:
  "learned cfg peers k None = peers"
  "learned cfg peers k (Some (why, learn)) =
     (if WAKE_ON_KNOWN_BLE_PEER cfg \<and> learn then snd (lru_remember 16 k peers) else peers)"
  by (simp_all add: learned_def)

text \<open>The first report that wakes the PC, and the peers after it.\<close>

fun first_reason ::
    "build_config \<Rightarrow> ((u8 \<times> bytes) list \<Rightarrow> 'r \<Rightarrow> (string \<times> bool) option) \<Rightarrow> ('r \<Rightarrow> u8 \<times> bytes)
       \<Rightarrow> (u8 \<times> bytes) list \<Rightarrow> 'r list \<Rightarrow> string option \<times> (u8 \<times> bytes) list" where
  "first_reason cfg reason who peers [] = (None, peers)"
| "first_reason cfg reason who peers (r # rs) =
     (case reason peers r of
        None \<Rightarrow> first_reason cfg reason who peers rs
      | Some (why, learn) \<Rightarrow> (Some why, learned cfg peers (who r) (Some (why, learn))))"

text \<open>
  The interface of a decision on one report, which both report formats provide: it computes
  its reason from the peers known and changes the peers by learning only.
\<close>

definition policy_result ::
    "string option \<Rightarrow> (u8 \<times> bytes) list \<Rightarrow> (string option \<times> 't wake_policy) option \<Rightarrow> bool" where
  "policy_result why peers result \<longleftrightarrow>
     (\<exists>st'. result = Some (why, st') \<and> policy_inv st' \<and> policy_peers st' = peers)"

locale report_decision =
  fixes cfg :: build_config
    and who :: "'r \<Rightarrow> u8 \<times> bytes"
    and decide :: "'r \<Rightarrow> 't wake_policy \<Rightarrow> (string option \<times> 't wake_policy) option"
    and reason :: "(u8 \<times> bytes) list \<Rightarrow> 'r \<Rightarrow> (string \<times> bool) option"
  assumes decide_reason:
    "policy_inv st \<Longrightarrow> valid_address (who r) \<Longrightarrow>
     policy_result (map_option fst (reason (policy_peers st) r))
       (learned cfg (policy_peers st) (who r) (reason (policy_peers st) r)) (decide r st)"
begin

lemma scan_first:
  "policy_inv st \<Longrightarrow> \<forall>r \<in> set rs. valid_address (who r) \<Longrightarrow>
   policy_result (fst (first_reason cfg reason who (policy_peers st) rs))
     (snd (first_reason cfg reason who (policy_peers st) rs)) (scan decide rs st)"
proof (induction rs arbitrary: st)
  case Nil
  then show ?case by (simp add: policy_result_def)
next
  case (Cons r rs)
  then obtain st' where d: "decide r st = Some (map_option fst (reason (policy_peers st) r), st')"
    and inv: "policy_inv st'"
    and peers: "policy_peers st' = learned cfg (policy_peers st) (who r) (reason (policy_peers st) r)"
    using decide_reason [of st r] by (auto simp: policy_result_def)
  show ?case
  proof (cases "reason (policy_peers st) r")
    case None
    with d inv peers Cons.IH [OF inv] Cons.prems(2) show ?thesis
      by simp
  next
    case (Some y)
    with d inv peers show ?thesis
      by (cases y) (simp add: policy_result_def)
  qed
qed

end

lemma policy_counter [simp]:
  "policy_inv (st\<lparr>standby_adv_reports := c\<rparr>) = policy_inv st"
  "policy_peers (st\<lparr>standby_adv_reports := c\<rparr>) = policy_peers st"
  by (simp_all add: policy_inv_def policy_peers_def)

lemma learn_if_ok:
  assumes "policy_inv st" "length address = 6"
  shows "\<exists>st'. learn_if cfg ck n learn atype address st = Some st' \<and> policy_inv st' \<and>
    policy_peers st' = learned cfg (policy_peers st) (atype, address) (Some (why, learn))"
proof (cases "learn \<and> WAKE_ON_KNOWN_BLE_PEER cfg")
  case True
  then show ?thesis
    by (auto simp: learn_if_def
      intro: remember_ble_peer_list [OF assms, of cfg ck n atype])
next
  case False
  with assms show ?thesis by (auto simp: learn_if_def remember_ble_peer_def)
qed

lemma report_data_ok:
  assumes "policy_inv st" "length address = 6"
  shows "policy_result (map_option fst (data_reason cfg data))
    (learned cfg (policy_peers st) (atype, address) (data_reason cfg data))
    (report_data cfg ck n atype address data st)"
proof (cases "first_match cfg (ad_fields data)")
  case No_match
  with assms show ?thesis
    by (simp add: policy_result_def data_reason_def report_data_def
      le_advertising_data_matches_eq)
next
  case (Match why learn)
  with learn_if_ok [OF assms, of cfg ck n learn atype why] show ?thesis
    by (auto simp: policy_result_def data_reason_def report_data_def le_advertising_data_matches_eq)
qed

lemma legacy_decide:
  assumes "policy_inv st" "valid_address (sender r)"
  shows "policy_result (map_option fst (legacy_reason cfg (policy_peers st) r))
    (learned cfg (policy_peers st) (sender r) (legacy_reason cfg (policy_peers st) r))
    (adv_report_matches cfg ck n r st)"
proof -
  obtain e atype address data where r: "r = (e, atype, address, data)" by (cases r) auto
  let ?st = "st\<lparr>standby_adv_reports := standby_adv_reports st + 1\<rparr>"
  have "policy_inv ?st" "length address = 6" using assms by (simp_all add: r valid_address_def)
  from report_data_ok [OF this, of cfg data atype ck n] assms(1)
  show ?thesis
    by (auto simp: r adv_report_matches_def known_ble_peer_matches_list policy_result_def)
qed

lemma extended_decide:
  assumes "policy_inv st" "valid_address (sender r)"
  shows "policy_result (map_option fst (extended_reason cfg (policy_peers st) r))
    (learned cfg (policy_peers st) (sender r) (extended_reason cfg (policy_peers st) r))
    (ext_report_matches cfg ck n r st)"
proof -
  obtain e atype address data where r: "r = (e, atype, address, data)" by (cases r) auto
  let ?st = "st\<lparr>standby_adv_reports := standby_adv_reports st + 1\<rparr>"
  have "policy_inv ?st" "length address = 6" using assms by (simp_all add: r valid_address_def)
  from report_data_ok [OF this, of cfg data atype ck n] assms(1)
  show ?thesis
    by (auto simp: r ext_report_matches_def known_ble_peer_matches_list policy_result_def)
qed

interpretation legacy: report_decision cfg sender "adv_report_matches cfg ck n" "legacy_reason cfg"
  for cfg ck n
  by unfold_locales (rule legacy_decide)

interpretation extended: report_decision cfg sender "ext_report_matches cfg ck n" "extended_reason cfg"
  for cfg ck n
  by unfold_locales (rule extended_decide)

end
