(* ===== verification/Wake_Store.thy ===== *)
theory Wake_Store
  imports Wake_Peers
begin

text \<open>
  The flash round trip of the peer list: what the SDK's flash functions promise, that the
  stored image decodes to the list it encodes, and that a save followed by a boot restores it.
\<close>

section \<open>The contract of the SDK's flash\<close>

text \<open>
  Erasing sets bytes to \<open>0xff\<close>, programming can only clear bits, interrupts do not touch the
  flash, and \<open>flash_safe_execute\<close> has run its function when it reports \<open>PICO_OK\<close>.
\<close>

definition pico_flash_ok :: "'w pico_flash \<Rightarrow> bool" where
  "pico_flash_ok fl \<longleftrightarrow>
     (\<forall>w off n i. flash_byte fl (flash_range_erase fl off n w) i =
        (if off \<le> i \<and> i < off + n then 0xff else flash_byte fl w i)) \<and>
     (\<forall>w off xs i. flash_byte fl (flash_range_program fl off xs w) i =
        (if off \<le> i \<and> i < off + length xs then flash_byte fl w i AND xs ! (i - off)
         else flash_byte fl w i)) \<and>
     (\<forall>w i. flash_byte fl (snd (save_and_disable_interrupts fl w)) i = flash_byte fl w i) \<and>
     (\<forall>k w i. flash_byte fl (restore_interrupts fl k w) i = flash_byte fl w i) \<and>
     (\<forall>f ms w i. fst (flash_safe_execute fl f ms w) = 0 \<longrightarrow>
        flash_byte fl (snd (flash_safe_execute fl f ms w)) i = flash_byte fl (f w) i)"

lemma flash_op_bytes:
  assumes "pico_flash_ok fl" "length page = 256" "i < 256"
  shows "flash_byte fl (save_known_ble_peers_flash_op fl page w) (WAKE_PEER_FLASH_OFFSET fl + i) = page ! i"
  using assms by (simp add: save_known_ble_peers_flash_op_def split_beta pico_flash_ok_def)

text \<open>Nothing outside the sector is touched.\<close>

lemma flash_op_outside:
  assumes "pico_flash_ok fl"
    and "i < WAKE_PEER_FLASH_OFFSET fl \<or> WAKE_PEER_FLASH_OFFSET fl + FLASH_SECTOR_SIZE \<le> i"
  shows "flash_byte fl (save_known_ble_peers_flash_op fl page w) i = flash_byte fl w i"
  using assms by (auto simp: save_known_ble_peers_flash_op_def split_beta pico_flash_ok_def)

section \<open>The image\<close>

lemma le32_u32_bytes: "length xs = n \<Longrightarrow> le32_at (xs @ u32_bytes v @ ys) n = v"
proof -
  assume n: "length xs = n"
  have le: "ucast (ucast v :: u8) OR push_bit 8 (ucast (ucast (drop_bit 8 v) :: u8))
      OR push_bit 16 (ucast (ucast (drop_bit 16 v) :: u8))
      OR push_bit 24 (ucast (ucast (drop_bit 24 v) :: u8)) = v"
  proof (rule bit_word_eqI)
    fix i :: nat assume "i < LENGTH(32)"
    then consider "i < 8" | "8 \<le> i" "i < 16" | "16 \<le> i" "i < 24" | "24 \<le> i" "i < 32"
      by fastforce
    then show "bit (ucast (ucast v :: u8) OR push_bit 8 (ucast (ucast (drop_bit 8 v) :: u8))
      OR push_bit 16 (ucast (ucast (drop_bit 16 v) :: u8))
      OR push_bit 24 (ucast (ucast (drop_bit 24 v) :: u8)) :: u32) i = bit v i"
      by cases (auto simp: bit_simps)
  qed
  show ?thesis
    by (simp add: le32_at_def u32_bytes_def nth_append le n [symmetric])
qed

lemma take_drop_concat:
  "\<forall>x \<in> set xs. length x = n \<Longrightarrow> i < length xs \<Longrightarrow> take n (drop (n * i) (concat xs)) = xs ! i"
proof (induction xs arbitrary: i)
  case (Cons x xs)
  then show ?case by (cases i) simp_all
qed simp

lemma peer_bytes_length: "length (peer_bytes p) = 2 + length (addr p)"
  by (simp add: peer_bytes_def)

definition peers_sized :: "ble_peer list \<Rightarrow> bool" where
  "peers_sized ps \<longleftrightarrow> length ps = 16 \<and> (\<forall>p \<in> set ps. length (addr p) = 6)"

lemma peers_inv_sized: "peers_inv ps \<Longrightarrow> peers_sized ps"
  by (erule peers_invE)
     (auto simp: peers_sized_def peers_of_def valid_address_def zero_peer_def)

lemma store_bytes_split:
  "store_bytes c ps = (u32_bytes WAKE_PEER_MAGIC @ [lo8 1, hi8 1, lo8 144, hi8 144]) @ u32_bytes c @
     [of_nat (known_ble_peer_count ps), 0, 0, 0] @ concat (map peer_bytes ps)"
  by (simp add: store_bytes_def)

lemma store_bytes_length: "peers_sized ps \<Longrightarrow> length (store_bytes c ps) = 144"
  by (simp add: store_bytes_def u32_bytes_def peers_sized_def length_concat comp_def
      peer_bytes_length sum_list_triv cong: map_cong)

lemma store_magic: "le32_at (store_bytes c ps) 0 = WAKE_PEER_MAGIC"
  using le32_u32_bytes [of "[]" 0 WAKE_PEER_MAGIC] by (simp add: store_bytes_def)

lemma store_check: "le32_at (store_bytes c ps) 8 = c"
  unfolding store_bytes_split by (rule le32_u32_bytes) (simp add: u32_bytes_def)

lemma store_header:
  "le16 (store_bytes c ps ! 4) (store_bytes c ps ! 5) = 1"
  "le16 (store_bytes c ps ! 6) (store_bytes c ps ! 7) = 144"
  "store_bytes c ps ! 12 = of_nat (known_ble_peer_count ps)"
  by (simp_all add: store_bytes_def u32_bytes_def)

lemma store_checksum_indep:
  "store_checksum (store_bytes c ps) = store_checksum (store_bytes 0 ps)"
  by (simp add: store_checksum_def store_bytes_def u32_bytes_def)

lemma store_peers:
  assumes "peers_sized ps" "i < 16"
  shows "peer_at (store_bytes c ps) i = ps ! i"
proof -
  have "drop 16 (store_bytes c ps) = concat (map peer_bytes ps)"
    by (simp add: store_bytes_def u32_bytes_def)
  then have "drop (16 + 8 * i) (store_bytes c ps) = drop (8 * i) (concat (map peer_bytes ps))"
    by (metis add.commute drop_drop)
  moreover have "take 8 (drop (8 * i) (concat (map peer_bytes ps))) = peer_bytes (ps ! i)"
    using assms take_drop_concat [of "map peer_bytes ps" 8 i]
    by (auto simp: peers_sized_def peer_bytes_length)
  ultimately show ?thesis
    by (simp add: peer_at_def peer_bytes_def)
qed

section \<open>Save, then boot\<close>

lemma load_store:
  assumes "peers_inv ps" "flash_store fl w = snd (store_image ps)" "WAKE_PERSIST_BLE_PEERS cfg"
  shows "load_known_ble_peers cfg fl w no_peers = ps"
proof -
  obtain xs where xs: "ps = peers_of xs" "length xs \<le> 16" using assms(1) by (rule peers_invE)
  let ?c = "store_checksum (store_bytes 0 ps)" and ?raw = "flash_store fl w"
  have raw: "?raw = store_bytes ?c ps" using assms(2) by (simp add: store_image_def)
  have sz: "peers_sized ps" by (rule peers_inv_sized [OF assms(1)])
  have count: "unat (?raw ! 12) = length xs"
    using xs by (simp add: raw store_header unsigned_of_nat take_bit_nat_eq_self)
  have "map (peer_at ?raw) [0..<length xs] = take (length xs) ps"
    using xs(2) sz by (intro nth_equalityI) (auto simp: raw store_peers peers_sized_def)
  also have "take (length xs) ps = map used_peer xs" using xs by (simp add: peers_of_def)
  finally have loaded: "map (peer_at ?raw) [0..<length xs] = map used_peer xs" .
  have "map used_peer xs @ drop (length xs) no_peers = ps"
    using xs by (simp add: no_peers_def peers_of_def)
  moreover have "le32_at ?raw 8 = store_checksum ?raw"
    by (simp add: raw store_check store_checksum_indep [of ?c])
  moreover have "le32_at ?raw 0 = WAKE_PEER_MAGIC" "le16 (?raw ! 4) (?raw ! 5) = 1"
    "le16 (?raw ! 6) (?raw ! 7) = 144"
    by (simp_all add: raw store_magic store_header)
  ultimately show ?thesis
    using assms(3) xs(2) by (simp add: load_known_ble_peers_def count loaded)
qed

lemma save_store:
  assumes "pico_flash_ok fl" "peers_inv ps" "WAKE_PERSIST_BLE_PEERS cfg"
    and "save_known_ble_peers cfg fl ps w = (ok, w')"
    and "fst (flash_safe_execute fl (save_known_ble_peers_flash_op fl
           (snd (store_image ps) @ replicate 112 0xff)) 1000 w) = 0"
  shows "ok" "flash_store fl w' = snd (store_image ps)"
proof -
  let ?c = "store_checksum (store_bytes 0 ps)"
  let ?st = "snd (store_image ps)"
  let ?page = "?st @ replicate 112 0xff"
  let ?w = "snd (flash_safe_execute fl (save_known_ble_peers_flash_op fl ?page) 1000 w)"
  have img: "store_image ps = (?c, ?st)" "?st = store_bytes ?c ps" by (simp_all add: store_image_def)
  have len: "length ?st = 144"
    unfolding img(2) by (rule store_bytes_length [OF peers_inv_sized [OF assms(2)]])
  have byte: "flash_byte fl ?w (WAKE_PEER_FLASH_OFFSET fl + i) = ?st ! i" if "i < 144" for i
  proof -
    have "flash_byte fl ?w (WAKE_PEER_FLASH_OFFSET fl + i) =
        flash_byte fl (save_known_ble_peers_flash_op fl ?page w) (WAKE_PEER_FLASH_OFFSET fl + i)"
      using assms(1,5) by (simp add: pico_flash_ok_def)
    also have "\<dots> = ?page ! i"
      using that len by (intro flash_op_bytes [OF assms(1)]) simp_all
    finally show ?thesis using that len by (simp add: nth_append)
  qed
  have fs: "flash_store fl ?w = ?st"
    using len byte by (intro nth_equalityI) (simp_all add: flash_store_def)
  have "save_known_ble_peers cfg fl ps w = (True, ?w)"
    using assms(3,5) fs store_check [of ?c ps] img
    by (simp add: save_known_ble_peers_def split_beta)
  with assms(4) fs show "ok" "flash_store fl w' = ?st" by simp_all
qed

lemma load_gives_inv: "peers_inv (load_known_ble_peers cfg fl w no_peers)"
proof (cases "load_known_ble_peers cfg fl w no_peers = no_peers")
  case True
  then show ?thesis by (simp add: no_peers_of peers_inv_of)
next
  case False
  let ?raw = "flash_store fl w"
  let ?ls = "filter in_use (map (peer_at ?raw) [0..<unat (?raw ! 12)])"
  from False have c: "unat (?raw ! 12) \<le> 16"
    and eq: "load_known_ble_peers cfg fl w no_peers = ?ls @ drop (length ?ls) no_peers"
    by (auto simp: load_known_ble_peers_def split: if_splits)
  have len: "length ?ls \<le> 16"
    by (rule order_trans [OF length_filter_le]) (use c in simp)
  obtain xs where xs: "xs = map (\<lambda>p. (addr_type p, addr p)) ?ls" by blast
  have "map used_peer xs = ?ls"
    unfolding xs by (auto simp: used_peer_def intro!: map_idI)
  then have "load_known_ble_peers cfg fl w no_peers = peers_of xs"
    unfolding eq using len by (simp add: peers_of_def no_peers_def xs)
  moreover have "\<forall>k \<in> set xs. valid_address k"
    using c by (auto simp: xs valid_address_def peer_at_def flash_store_def)
  ultimately show ?thesis using len by (simp add: peers_inv_of xs)
qed

section \<open>Properties\<close>

text \<open>A flash of one 16 KiB device: the world is its bytes, and every execution succeeds.\<close>

definition ram_flash :: "(nat \<Rightarrow> u8) pico_flash" where
  "ram_flash =
     \<lparr>PICO_FLASH_SIZE_BYTES = 16384, flash_byte = (\<lambda>w i. w i),
      flash_range_erase = (\<lambda>off n w i. if off \<le> i \<and> i < off + n then 0xff else w i),
      flash_range_program = (\<lambda>off xs w i.
        if off \<le> i \<and> i < off + length xs then w i AND xs ! (i - off) else w i),
      save_and_disable_interrupts = (\<lambda>w. (0, w)), restore_interrupts = (\<lambda>_ w. w),
      flash_safe_execute = (\<lambda>f _ w. (0, f w))\<rparr>"

lemma ram_flash_ok: "pico_flash_ok ram_flash"
  by (simp add: pico_flash_ok_def ram_flash_def)

definition one_peer :: "nat wake_policy" where
  "one_peer = (wake_policy_boot us_clock)
     \<lparr>known_ble_peers := peers_of [(1, [1, 2, 3, 4, 5, 6])], peers_dirty := True, peers_dirty_at := 2000000\<rparr>"

lemma one_peer_inv: "policy_inv one_peer"
  by (simp add: policy_inv_def one_peer_def peers_inv_of valid_address_def)

text \<open>
  C6: A changed peer list is written to the flash by the first task from two seconds after
  the change on, and a boot from that flash restores exactly the list, when the SDK reports
  that the flash operation ran. Flash outside the store's sector is not touched by it.
\<close>

theorem wake_peers_persist:
  assumes "pico_flash_ok fl" "policy_inv st" "WAKE_PERSIST_BLE_PEERS cfg" "peers_dirty st"
    and "sdk_time_reached ck n (peers_dirty_at st)"
    and "wake_policy_task cfg ck fl n st w = (st', w')"
    and "fst (flash_safe_execute fl (save_known_ble_peers_flash_op fl
           (snd (store_image (known_ble_peers st)) @ replicate 112 0xff)) 1000 w) = 0"
  shows "\<not> peers_dirty st' \<and>
    known_ble_peers (wake_policy_init cfg fl w' boot) = known_ble_peers st \<and>
    (\<forall>i. i < WAKE_PEER_FLASH_OFFSET fl \<or> WAKE_PEER_FLASH_OFFSET fl + 4096 \<le> i \<longrightarrow>
         flash_byte fl w' i = flash_byte fl w i)"
proof -
  let ?page = "snd (store_image (known_ble_peers st)) @ replicate 112 0xff"
  obtain ok where s: "save_known_ble_peers cfg fl (known_ble_peers st) w = (ok, w')"
    and st': "st' = st\<lparr>peers_dirty := False\<rparr>"
    using assms(3-6) by (auto simp: wake_policy_task_def split_beta prod_eq_iff)
  have inv: "peers_inv (known_ble_peers st)" using assms(2) by (simp add: policy_inv_def)
  note fs = save_store(2) [OF assms(1) inv assms(3) s assms(7)]
  have "w' = snd (flash_safe_execute fl (save_known_ble_peers_flash_op fl ?page) 1000 w)"
    using s assms(3) by (auto simp: save_known_ble_peers_def store_image_def split_beta split: if_splits)
  then have "flash_byte fl w' i = flash_byte fl (save_known_ble_peers_flash_op fl ?page w) i" for i
    using assms(1,7) by (simp add: pico_flash_ok_def)
  with flash_op_outside [OF assms(1)] load_store [OF inv fs assms(3)] st'
  show ?thesis by (simp add: wake_policy_init_def)
qed

theorem wake_peers_persist_witness:
  "known_ble_peers (wake_policy_init default_config ram_flash
     (snd (wake_policy_task default_config us_clock ram_flash 2000000 one_peer (\<lambda>_. 0))) one_peer)
   = peers_of [(1, [1, 2, 3, 4, 5, 6])]"
proof -
  obtain st' w' where r: "wake_policy_task default_config us_clock ram_flash 2000000 one_peer (\<lambda>_. 0) = (st', w')"
    by fastforce
  have "WAKE_PERSIST_BLE_PEERS default_config" "peers_dirty one_peer"
    "sdk_time_reached us_clock 2000000 (peers_dirty_at one_peer)"
    "fst (flash_safe_execute ram_flash (save_known_ble_peers_flash_op ram_flash
       (snd (store_image (known_ble_peers one_peer)) @ replicate 112 0xff)) 1000 (\<lambda>_. 0)) = 0"
    by (simp_all add: config_defs one_peer_def us_clock_def ram_flash_def)
  with wake_peers_persist [OF ram_flash_ok one_peer_inv _ _ _ r, of one_peer] r
  show ?thesis by (simp add: one_peer_def)
qed

text \<open>
  Whatever the flash holds, a boot leaves a well-formed peer list: at most sixteen
  addresses in the first slots, the rest of the slots free.
\<close>

theorem wake_policy_init_well_formed:
  "policy_inv (wake_policy_init cfg fl w st) \<and> \<not> peers_dirty (wake_policy_init cfg fl w st)"
  using load_gives_inv [of cfg fl w] by (simp add: wake_policy_init_def policy_inv_def)

text \<open>
  C20: Learning a peer refines a memory in order of use: a new address is added last, a known
  one moves last, the oldest is dropped when sixteen are held, nothing else changes; and a
  change, and only a change, starts the two-second save delay.
\<close>

theorem remember_ble_peer_refines:
  assumes "policy_inv st" "length address = 6" "WAKE_ON_KNOWN_BLE_PEER cfg" "WAKE_PERSIST_BLE_PEERS cfg"
  shows "\<exists>st'. remember_ble_peer cfg ck n atype address st =
      Some (fst (lru_remember 16 (atype, address) (policy_peers st)), st') \<and>
    policy_inv st' \<and>
    policy_peers st' = snd (lru_remember 16 (atype, address) (policy_peers st)) \<and>
    (if fst (lru_remember 16 (atype, address) (policy_peers st))
     then peers_dirty st' \<and> peers_dirty_at st' = sdk_make_timeout_time_ms ck n 2000
     else st' = st)"
proof -
  obtain st' where r: "remember_ble_peer cfg ck n atype address st =
       Some (fst (lru_remember 16 (atype, address) (policy_peers st)), st')"
    and st': "policy_inv st'" "policy_peers st' = snd (lru_remember 16 (atype, address) (policy_peers st))"
    and d: "fst (lru_remember 16 (atype, address) (policy_peers st)) \<Longrightarrow>
       WAKE_PERSIST_BLE_PEERS cfg \<Longrightarrow>
       peers_dirty st' \<and> peers_dirty_at st' = sdk_make_timeout_time_ms ck n 2000"
    by (rule remember_ble_peer_list [OF assms(1-3), of ck n atype]) blast
  have "\<not> fst (lru_remember 16 (atype, address) (policy_peers st)) \<Longrightarrow> st' = st"
    using r assms(3) by (auto simp: remember_ble_peer_def split: bind_splits if_splits)
  with r st' d [OF _ assms(4)] show ?thesis by auto
qed

theorem remember_ble_peer_refines_witness:
  "\<exists>st'. remember_ble_peer default_config us_clock 0 1 [6, 5, 4, 3, 2, 1] one_peer = Some (True, st') \<and>
     policy_peers st' = [(1, [1, 2, 3, 4, 5, 6]), (1, [6, 5, 4, 3, 2, 1])]"
proof -
  have pp: "policy_peers one_peer = [(1, [1, 2, 3, 4, 5, 6])]"
    by (simp add: policy_peers_def one_peer_def)
  show ?thesis
    using remember_ble_peer_refines [OF one_peer_inv, of "[6, 5, 4, 3, 2, 1]" default_config us_clock 0 1]
    by (auto simp: pp lru_remember_def config_defs)
qed

text \<open>
  C21: A peer that has been learned is still recognised after any later learning of fewer than
  sixteen other addresses, in any order and with any repetitions.
\<close>

theorem wake_peer_not_forgotten:
  assumes "peers_inv ps" "distinct (known_peers ps)"
    and "valid_address k" "\<forall>j \<in> set ks. valid_address j" "card (set ks - {k}) < 16"
  shows "array_matches k (fold array_remember ks (array_remember k ps))"
  by (rule peer_memory.not_forgotten [OF assms(1,3,4,2,5)])

theorem wake_peer_not_forgotten_witness:
  "array_matches (0, [1, 2, 3, 4, 5, 6])
     (array_remember (0, [0, 0, 0, 0, 0, 0]) (array_remember (0, [1, 2, 3, 4, 5, 6]) no_peers))"
  using wake_peer_not_forgotten [of no_peers "(0, [1, 2, 3, 4, 5, 6])" "[(0, [0, 0, 0, 0, 0, 0])]"]
  by (simp add: no_peers_of peers_inv_of valid_address_def card_insert_if)

text \<open>
  C32: Clearing the list empties it at once and, when the SDK reports that the flash operation
  ran, for every later boot too.
\<close>

theorem wake_policy_clear_persists:
  assumes "pico_flash_ok fl" "WAKE_PERSIST_BLE_PEERS cfg"
    and "wake_policy_clear_known_peers cfg fl st w = (st', w')"
    and "fst (flash_safe_execute fl (save_known_ble_peers_flash_op fl
           (snd (store_image no_peers) @ replicate 112 0xff)) 1000 w) = 0"
  shows "policy_peers st' = [] \<and> \<not> peers_dirty st' \<and>
    policy_peers (wake_policy_init cfg fl w' boot) = []"
proof -
  obtain ok where s: "save_known_ble_peers cfg fl no_peers w = (ok, w')"
    and st': "st' = st\<lparr>known_ble_peers := no_peers, peers_dirty := False\<rparr>"
    using assms(3) by (auto simp: wake_policy_clear_known_peers_def prod_eq_iff)
  have inv: "peers_inv no_peers" by (simp add: no_peers_of peers_inv_of)
  from load_store [OF inv save_store(2) [OF assms(1) inv assms(2) s assms(4)] assms(2)]
  show ?thesis
    by (simp add: st' policy_peers_def wake_policy_init_def) (simp add: no_peers_of)
qed

theorem wake_policy_clear_persists_witness:
  "policy_peers (wake_policy_init default_config ram_flash
     (snd (wake_policy_clear_known_peers default_config ram_flash one_peer (\<lambda>_. 0))) one_peer) = []"
proof -
  obtain st' w' where r: "wake_policy_clear_known_peers default_config ram_flash one_peer (\<lambda>_. 0) = (st', w')"
    by fastforce
  have "WAKE_PERSIST_BLE_PEERS default_config"
    "fst (flash_safe_execute ram_flash (save_known_ble_peers_flash_op ram_flash
       (snd (store_image no_peers) @ replicate 112 0xff)) 1000 (\<lambda>_. 0)) = 0"
    by (simp_all add: config_defs ram_flash_def)
  with wake_policy_clear_persists [OF ram_flash_ok _ r, of one_peer] show ?thesis by (simp add: r)
qed

end
