(* ===== verification/Wake_Properties.thy ===== *)
theory Wake_Properties
  imports Wake_Match Wake_Store
begin

text \<open>
  The properties of the wake decision: it agrees with a specification over parsed reports, and
  under the default build options it wakes exactly on connection requests, directed reports,
  known peers and Stadia names.
\<close>

section \<open>The specification of the decision\<close>

definition wake_spec ::
    "build_config \<Rightarrow> (u8 \<times> bytes) list \<Rightarrow> hci_packet_type \<Rightarrow> bytes
       \<Rightarrow> string option \<times> (u8 \<times> bytes) list" where
  "wake_spec cfg peers t packet =
     (if t \<noteq> HCI_PKT_EVENT \<or> length packet < 2 then (None, peers)
      else if packet ! 0 = HCI_EVENT_CONNECTION_REQUEST
      then (Some ''classic connection request'', peers)
      else if packet ! 0 \<noteq> HCI_EVENT_LE_META \<or> length packet < 4 then (None, peers)
      else let count = unat (packet ! 3); body = drop 4 packet in
        if packet ! 2 = HCI_SUBEVENT_LE_ADVERTISING_REPORT
        then if WAKE_ON_ANY_BLE_ADV cfg then (Some ''BLE advertisement'', peers)
             else first_reason cfg (legacy_reason cfg) sender peers (legacy_reports count body)
        else if packet ! 2 = HCI_SUBEVENT_LE_DIRECTED_ADVERTISING_REPORT
        then (if WAKE_ON_BLE_DIRECTED_ADV cfg \<and> 1 \<in> set (directed_report_types count body)
              then Some ''BLE directed advertisement'' else None, peers)
        else if packet ! 2 = HCI_SUBEVENT_LE_EXTENDED_ADVERTISING_REPORT
        then first_reason cfg (extended_reason cfg) sender peers (extended_reports count body)
        else (None, peers))"

lemma legacy_reports_valid: "\<forall>r \<in> set (legacy_reports left ps). valid_address (sender r)"
  by (induction left arbitrary: ps) (auto simp: valid_address_def)

lemma extended_reports_valid: "\<forall>r \<in> set (extended_reports left ps). valid_address (sender r)"
  by (induction left arbitrary: ps) (auto simp: valid_address_def)

lemma policy_result_same: "policy_inv st \<Longrightarrow> policy_result why (policy_peers st) (Some (why, st))"
  by (simp add: policy_result_def)

lemma drop2_nth: "4 \<le> length packet \<Longrightarrow>
    drop 2 packet ! 0 = packet ! 2 \<and> drop 2 packet ! 1 = packet ! 3 \<and>
    drop 2 (drop 2 packet) = drop 4 packet \<and> 2 \<le> length packet - 2"
  by simp

lemma packet_matches_spec:
  assumes inv: "policy_inv st"
  shows "policy_result (fst (wake_spec cfg (policy_peers st) t packet))
    (snd (wake_spec cfg (policy_peers st) t packet)) (wake_policy_packet_matches cfg ck n t packet st)"
proof -
  consider (short) "t \<noteq> HCI_PKT_EVENT \<or> length packet < 2"
    | (classic) "t = HCI_PKT_EVENT" "2 \<le> length packet" "packet ! 0 = HCI_EVENT_CONNECTION_REQUEST"
    | (other) "t = HCI_PKT_EVENT" "2 \<le> length packet" "packet ! 0 \<noteq> HCI_EVENT_CONNECTION_REQUEST"
        "packet ! 0 \<noteq> HCI_EVENT_LE_META \<or> length packet < 4"
    | (meta) "t = HCI_PKT_EVENT" "4 \<le> length packet" "packet ! 0 = HCI_EVENT_LE_META"
    by (cases "t = HCI_PKT_EVENT"; cases "2 \<le> length packet"; cases "4 \<le> length packet";
        cases "packet ! 0 = HCI_EVENT_LE_META") auto
  then show ?thesis
  proof cases
    case short
    with inv show ?thesis
      by (auto simp: wake_spec_def wake_policy_packet_matches_def policy_result_same)
  next
    case classic
    then have "packet \<noteq> []" by auto
    with inv classic show ?thesis
      by (simp add: wake_spec_def wake_policy_packet_matches_def policy_result_same)
  next
    case other
    then have "packet \<noteq> []" by auto
    with inv other show ?thesis
      by (auto simp: wake_spec_def wake_policy_packet_matches_def policy_result_same)
  next
    case meta
    let ?q = "drop 2 packet" and ?n = "unat (packet ! 3)" and ?body = "drop 4 packet"
    note q = drop2_nth [OF meta(2)]
    have q2: "2 \<le> length ?q" using meta(2) by simp
    have ne: "packet \<noteq> []" "2 < length packet" "?q \<noteq> []" "Suc 0 < length ?q" using meta(2) by auto
    have step: "wake_policy_packet_matches cfg ck n t packet st =
        (if packet ! 2 = HCI_SUBEVENT_LE_ADVERTISING_REPORT then
            (if WAKE_ON_ANY_BLE_ADV cfg then Some (Some ''BLE advertisement'', st)
             else le_advertising_report_matches cfg ck n ?q st)
          else if packet ! 2 = HCI_SUBEVENT_LE_DIRECTED_ADVERTISING_REPORT then
            map_option (\<lambda>r. (r, st)) (le_directed_advertising_report_matches cfg ?q)
          else if packet ! 2 = HCI_SUBEVENT_LE_EXTENDED_ADVERTISING_REPORT then
            le_extended_advertising_report_matches cfg ck n ?q st
          else Some (None, st))"
      using meta ne by (simp add: wake_policy_packet_matches_def)
    have adv: "le_advertising_report_matches cfg ck n ?q st =
        scan (adv_report_matches cfg ck n) (legacy_reports ?n ?body) st"
      if "packet ! 2 = HCI_SUBEVENT_LE_ADVERTISING_REPORT"
      using that ne q q2 adv_reports_eq [of ?n cfg ck n ?q 2 st]
      by (simp add: le_advertising_report_matches_def)
    have ext: "le_extended_advertising_report_matches cfg ck n ?q st =
        scan (ext_report_matches cfg ck n) (extended_reports ?n ?body) st"
      if "packet ! 2 = HCI_SUBEVENT_LE_EXTENDED_ADVERTISING_REPORT"
      using that ne q q2 ext_adv_reports_eq [OF q2, of ?n cfg ck n st]
      by (simp add: le_extended_advertising_report_matches_def)
    have dir: "le_directed_advertising_report_matches cfg ?q = Some
        (if WAKE_ON_BLE_DIRECTED_ADV cfg \<and> 1 \<in> set (directed_report_types ?n ?body)
         then Some ''BLE directed advertisement'' else None)"
      if "packet ! 2 = HCI_SUBEVENT_LE_DIRECTED_ADVERTISING_REPORT"
      using that ne q q2 directed_reports_eq [of ?n ?q 2]
      by (simp add: le_directed_advertising_report_matches_def)
    have spec: "wake_spec cfg (policy_peers st) t packet =
       (if packet ! 2 = HCI_SUBEVENT_LE_ADVERTISING_REPORT
        then if WAKE_ON_ANY_BLE_ADV cfg then (Some ''BLE advertisement'', policy_peers st)
             else first_reason cfg (legacy_reason cfg) sender (policy_peers st) (legacy_reports ?n ?body)
        else if packet ! 2 = HCI_SUBEVENT_LE_DIRECTED_ADVERTISING_REPORT
        then (if WAKE_ON_BLE_DIRECTED_ADV cfg \<and> 1 \<in> set (directed_report_types ?n ?body)
              then Some ''BLE directed advertisement'' else None, policy_peers st)
        else if packet ! 2 = HCI_SUBEVENT_LE_EXTENDED_ADVERTISING_REPORT
        then first_reason cfg (extended_reason cfg) sender (policy_peers st) (extended_reports ?n ?body)
        else (None, policy_peers st))"
      using meta by (simp add: wake_spec_def)
    let ?fl = "first_reason cfg (legacy_reason cfg) sender (policy_peers st) (legacy_reports ?n ?body)"
    let ?fe = "first_reason cfg (extended_reason cfg) sender (policy_peers st) (extended_reports ?n ?body)"
    have l: "policy_result (fst ?fl) (snd ?fl)
        (scan (adv_report_matches cfg ck n) (legacy_reports ?n ?body) st)"
      by (rule legacy.scan_first [OF inv legacy_reports_valid])
    have e: "policy_result (fst ?fe) (snd ?fe)
        (scan (ext_report_matches cfg ck n) (extended_reports ?n ?body) st)"
      by (rule extended.scan_first [OF inv extended_reports_valid])
    show ?thesis
      unfolding step spec
      using l e by (simp add: adv ext dir policy_result_same [OF inv])
  qed
qed

text \<open>
  C4: For every packet and every build configuration the wake decision reads only inside the
  packet, ends, and gives the reason and learns the peer that the specification names: the
  packet is cut into reports and fields, and the first report that a rule accepts decides.
\<close>

theorem wake_policy_packet_matches_spec:
  assumes "policy_inv st"
  shows "\<exists>st'. wake_policy_packet_matches cfg ck n t packet st =
      Some (fst (wake_spec cfg (policy_peers st) t packet), st') \<and>
    policy_inv st' \<and> policy_peers st' = snd (wake_spec cfg (policy_peers st) t packet)"
  using packet_matches_spec [OF assms, of cfg t packet ck n] by (simp add: policy_result_def)

theorem wake_policy_packet_matches_spec_witness:
  "\<exists>st'. wake_policy_packet_matches default_config us_clock 0 HCI_PKT_EVENT
      [0x3e, 0x0c, 0x02, 0x01, 0x00, 0x01, 1, 2, 3, 4, 5, 6, 0x00, 0xc0] one_peer =
    Some (Some ''known BLE peer advertisement'', st')"
proof -
  let ?pkt = "[0x3e, 0x0c, 0x02, 0x01, 0x00, 0x01, 1, 2, 3, 4, 5, 6, 0x00, 0xc0] :: bytes"
  have pp: "policy_peers one_peer = [(1, [1, 2, 3, 4, 5, 6])]"
    by (simp add: policy_peers_def one_peer_def)
  have "fst (wake_spec default_config [(1, [1, 2, 3, 4, 5, 6])] HCI_PKT_EVENT ?pkt) =
      Some ''known BLE peer advertisement''"
    by (simp add: wake_spec_def config_defs)
  with wake_policy_packet_matches_spec [OF one_peer_inv, of default_config us_clock 0 HCI_PKT_EVENT ?pkt] pp
  show ?thesis by auto
qed

section \<open>Advertisements as the controller sends them\<close>

text \<open>One legacy report with its RSSI byte, and the LE meta event that carries several.\<close>

fun legacy_report_bytes :: "(u8 \<times> u8 \<times> bytes \<times> bytes) \<times> u8 \<Rightarrow> bytes" where
  "legacy_report_bytes ((e, atype, address, data), rssi) =
     [e, atype] @ address @ [of_nat (length data)] @ data @ [rssi]"

definition legacy_event :: "u8 \<Rightarrow> ((u8 \<times> u8 \<times> bytes \<times> bytes) \<times> u8) list \<Rightarrow> bytes" where
  "legacy_event plen rs =
     [HCI_EVENT_LE_META, plen, HCI_SUBEVENT_LE_ADVERTISING_REPORT, of_nat (length rs)] @
     concat (map legacy_report_bytes rs)"

fun report_sized :: "(u8 \<times> u8 \<times> bytes \<times> bytes) \<times> u8 \<Rightarrow> bool" where
  "report_sized ((e, atype, address, data), rssi) \<longleftrightarrow> length address = 6 \<and> length data < 256"

lemma address_bytes:
  assumes "length (a :: bytes) = 6"
  obtains a0 a1 a2 a3 a4 a5 where "a = [a0, a1, a2, a3, a4, a5]"
  using assms by (auto simp: eval_nat_numeral length_Suc_conv)

lemma legacy_reports_bytes:
  "\<forall>r \<in> set rs. report_sized r \<Longrightarrow>
   legacy_reports (length rs) (concat (map legacy_report_bytes rs)) = map fst rs"
proof (induction rs)
  case (Cons r rs)
  obtain e t a d x where r: "r = ((e, t, a, d), x)" by (metis prod.exhaust)
  with Cons.prems have "length a = 6" and d: "length d < 256" by simp_all
  from this(1) obtain a0 a1 a2 a3 a4 a5 where a: "a = [a0, a1, a2, a3, a4, a5]"
    by (rule address_bytes)
  have l: "unat (of_nat (length d) :: u8) = length d"
    using d by (simp add: unsigned_of_nat take_bit_nat_eq_self)
  let ?rest = "concat (map legacy_report_bytes rs)"
  have bytes: "concat (map legacy_report_bytes (r # rs)) =
      [e, t, a0, a1, a2, a3, a4, a5, of_nat (length d)] @ d @ [x] @ ?rest"
    by (simp add: r a)
  have "legacy_reports (length (r # rs)) (concat (map legacy_report_bytes (r # rs))) =
      (e, t, a, d) # legacy_reports (length rs) ?rest"
  proof -
    let ?p = "[e, t, a0, a1, a2, a3, a4, a5, of_nat (length d)]"
    have "drop (10 + length d) ((?p @ d @ [x]) @ ?rest) = ?rest"
      by (rule drop_prefix) simp
    then have dr: "drop (10 + length d) (?p @ d @ [x] @ ?rest) = ?rest" by simp
    from dr show ?thesis unfolding bytes by (simp add: l a)
  qed
  with Cons show ?case by (simp add: r)
qed simp

text \<open>Under the default options only a Stadia name in the data matters.\<close>

definition stadia_named :: "bytes \<Rightarrow> bool" where
  "stadia_named data \<longleftrightarrow>
     (\<exists>(ty, name) \<in> set (ad_fields data). (ty = 0x08 \<or> ty = 0x09) \<and> prefix (ascii ''Stadia'') name)"

lemma field_match_default:
  "field_match default_config (ty, name) =
     (if (ty = 0x08 \<or> ty = 0x09) \<and> prefix (ascii ''Stadia'') name
      then Match ''Stadia BLE advertisement'' True else No_match)"
  by (simp add: field_match_def ad_field_matches_def ad_stadia_def ad_hid_def ad_controller_def
      config_defs name_is_stadia_prefix)

lemma first_match_default:
  "first_match default_config fs =
     (if \<exists>(ty, name) \<in> set fs. (ty = 0x08 \<or> ty = 0x09) \<and> prefix (ascii ''Stadia'') name
      then Match ''Stadia BLE advertisement'' True else No_match)"
proof (induction fs)
  case (Cons f fs)
  then show ?case by (cases f) (auto simp: field_match_default)
qed simp

lemma data_reason_default:
  "data_reason default_config data =
     (if stadia_named data then Some (''Stadia BLE advertisement'', True) else None)"
  by (simp add: data_reason_def first_match_default stadia_named_def)

lemma legacy_reason_default:
  "legacy_reason default_config peers r =
     (if sender r \<in> set peers then Some (''known BLE peer advertisement'', False)
      else data_reason default_config (snd (snd (snd r))))"
  by (cases r) (simp add: config_defs)

text \<open>Which reports wake, under the default options.\<close>

definition default_wakes :: "(u8 \<times> bytes) list \<Rightarrow> 'e \<times> u8 \<times> bytes \<times> bytes \<Rightarrow> bool" where
  "default_wakes peers r \<longleftrightarrow> sender r \<in> set peers \<or> stadia_named (snd (snd (snd r)))"

lemma first_reason_default:
  "fst (first_reason default_config (legacy_reason default_config) sender peers rs) \<noteq> None \<longleftrightarrow>
     (\<exists>r \<in> set rs. default_wakes peers r)"
proof (induction rs)
  case (Cons r rs)
  then show ?case
    by (cases "default_wakes peers r")
       (auto simp: legacy_reason_default data_reason_default default_wakes_def simp del: legacy_reason.simps)
qed simp

lemma wake_spec_legacy_event:
  assumes "\<forall>r \<in> set rs. report_sized r" "length rs < 256"
  shows "wake_spec default_config peers HCI_PKT_EVENT (legacy_event plen rs) =
    first_reason default_config (legacy_reason default_config) sender peers (map fst rs)"
proof -
  have n: "unat (of_nat (length rs) :: u8) = length rs"
    using assms(2) by (simp add: unsigned_of_nat take_bit_nat_eq_self)
  have any: "\<not> WAKE_ON_ANY_BLE_ADV default_config" by (simp add: config_defs)
  show ?thesis
    using legacy_reports_bytes [OF assms(1)] by (simp add: wake_spec_def legacy_event_def n any)
qed



text \<open>
  C23: A controller recognised by its Stadia name is learned at once: the packet wakes, and any
  later advertisement from the same address wakes as a known peer, whatever data it carries.
\<close>

theorem stadia_sender_learned:
  assumes "policy_inv st" "length address = 6" "length data < 256" "length data' < 256"
    and "(atype, address) \<notin> set (policy_peers st)" "stadia_named data"
  shows "\<exists>st' st''.
    wake_policy_packet_matches default_config ck n HCI_PKT_EVENT
      (legacy_event plen [((e, atype, address, data), rssi)]) st =
        Some (Some ''Stadia BLE advertisement'', st') \<and>
    wake_policy_packet_matches default_config ck n' HCI_PKT_EVENT
      (legacy_event plen' [((e', atype, address, data'), rssi')]) st' =
        Some (Some ''known BLE peer advertisement'', st'')"
proof -
  let ?k = "(atype, address)"
  let ?p = "legacy_event plen [((e, atype, address, data), rssi)]"
  let ?q = "legacy_event plen' [((e', atype, address, data'), rssi')]"
  have known: "WAKE_ON_KNOWN_BLE_PEER default_config" by (simp add: config_defs)
  have s1: "wake_spec default_config (policy_peers st) HCI_PKT_EVENT ?p =
      (Some ''Stadia BLE advertisement'', snd (lru_remember 16 ?k (policy_peers st)))"
    using assms by (subst wake_spec_legacy_event)
      (simp_all add: legacy_reason_default data_reason_default known del: legacy_reason.simps)
  obtain st' where r1: "wake_policy_packet_matches default_config ck n HCI_PKT_EVENT ?p st =
      Some (Some ''Stadia BLE advertisement'', st')"
    and inv: "policy_inv st'" and peers: "?k \<in> set (policy_peers st')"
    using packet_matches_spec [OF assms(1), of default_config HCI_PKT_EVENT ?p ck n] s1
      lru_remember_member [of ?k 16 "policy_peers st"]
    by (auto simp: policy_result_def)
  have s2: "fst (wake_spec default_config (policy_peers st') HCI_PKT_EVENT ?q) =
      Some ''known BLE peer advertisement''"
    using assms peers by (subst wake_spec_legacy_event)
      (auto simp: legacy_reason_default simp del: legacy_reason.simps)
  then show ?thesis
    using packet_matches_spec [OF inv, of default_config HCI_PKT_EVENT ?q ck n'] r1
    by (auto simp: policy_result_def)
qed

theorem stadia_sender_learned_witness:
  "\<exists>st'. wake_policy_packet_matches default_config us_clock 0 HCI_PKT_EVENT
      (legacy_event 20 [((0x00, 0x00, [9, 9, 9, 9, 9, 9],
         [7, 0x09, 0x53, 0x74, 0x61, 0x64, 0x69, 0x61]), 0xc0)]) one_peer =
    Some (Some ''Stadia BLE advertisement'', st')"
proof -
  have pp: "policy_peers one_peer = [(1, [1, 2, 3, 4, 5, 6])]"
    by (simp add: policy_peers_def one_peer_def)
  have "stadia_named [7, 0x09, 0x53, 0x74, 0x61, 0x64, 0x69, 0x61]"
    by (simp add: stadia_named_def ascii_def)
  then show ?thesis
    using stadia_sender_learned [OF one_peer_inv, of "[9, 9, 9, 9, 9, 9]"
      "[7, 0x09, 0x53, 0x74, 0x61, 0x64, 0x69, 0x61]" "[]" 0]
    by (simp add: pp) blast
qed

lemma observe_connections:
  assumes "policy_inv st" "WAKE_ON_KNOWN_BLE_PEER cfg"
  shows "\<exists>st'. wake_policy_observe_host_packet cfg ck n t packet st = Some st' \<and> policy_inv st' \<and>
    policy_peers st' =
      (if t = HCI_PKT_EVENT \<and> 14 \<le> length packet \<and> packet ! 0 = 0x3e \<and>
          (packet ! 2 = 0x01 \<or> packet ! 2 = 0x0a) \<and> packet ! 3 = 0x00
       then snd (lru_remember 16 (packet ! 7, take 6 (drop 8 packet)) (policy_peers st))
       else policy_peers st)"
proof (cases "t = HCI_PKT_EVENT \<and> 14 \<le> length packet \<and> packet ! 0 = 0x3e")
  case False
  show ?thesis
  proof (cases "length packet < 2")
    case True
    with assms(1) show ?thesis by (auto simp: wake_policy_observe_host_packet_def)
  next
    case long: False
    then have "packet \<noteq> []" by auto
    then have "rd packet 0 = Some (packet ! 0)" by (simp add: rd_def)
    with False long assms(1) show ?thesis
      by (auto simp: wake_policy_observe_host_packet_def)
  qed
next
  case True
  then have len: "0 < length packet" "2 < length packet" "3 < length packet" "7 < length packet"
    "8 + 6 \<le> length packet" "\<not> length packet < 2" by auto
  have l6: "length (take 6 (drop 8 packet)) = 6" using len by simp
  obtain st' where "remember_ble_peer cfg ck n (packet ! 7) (take 6 (drop 8 packet)) st =
       Some (fst (lru_remember 16 (packet ! 7, take 6 (drop 8 packet)) (policy_peers st)), st')"
    "policy_inv st'"
    "policy_peers st' = snd (lru_remember 16 (packet ! 7, take 6 (drop 8 packet)) (policy_peers st))"
    by (rule remember_ble_peer_list [OF assms(1) l6 assms(2), of ck n "packet ! 7"]) blast
  then show ?thesis
    using True len assms(1) by (auto simp: wake_policy_observe_host_packet_def)
qed

text \<open>In any build the observation ends and keeps the list well formed.\<close>

lemma observe_host_packet_ok:
  assumes "policy_inv st"
  shows "\<exists>st'. wake_policy_observe_host_packet cfg ck n t packet st = Some st' \<and> policy_inv st'"
proof (cases "WAKE_ON_KNOWN_BLE_PEER cfg")
  case True
  then show ?thesis using observe_connections [OF assms True, of ck n t packet] by blast
next
  case False
  then have r: "remember_ble_peer cfg ck n atype address st = Some (False, st)" for atype address
    by (simp add: remember_ble_peer_def)
  have "packet \<noteq> [] \<Longrightarrow> rd packet 0 = Some (packet ! 0)" by (simp add: rd_def)
  moreover have "\<not> length packet < 2 \<Longrightarrow> packet \<noteq> []" by auto
  ultimately show ?thesis
    using assms by (auto simp: wake_policy_observe_host_packet_def r)
qed

text \<open>
  C31: Packets the controller sends to the host are inspected within bounds, and exactly a
  successful LE connection event of at least fourteen bytes makes its peer the most recently
  used one; every other packet leaves the peers alone.
\<close>

theorem wake_policy_observes_connections:
  assumes "policy_inv st" "WAKE_ON_KNOWN_BLE_PEER cfg"
  shows "\<exists>st'. wake_policy_observe_host_packet cfg ck n t packet st = Some st' \<and> policy_inv st' \<and>
    policy_peers st' =
      (if t = HCI_PKT_EVENT \<and> 14 \<le> length packet \<and> packet ! 0 = 0x3e \<and>
          (packet ! 2 = 0x01 \<or> packet ! 2 = 0x0a) \<and> packet ! 3 = 0x00
       then snd (lru_remember 16 (packet ! 7, take 6 (drop 8 packet)) (policy_peers st))
       else policy_peers st)"
  by (rule observe_connections [OF assms])

theorem wake_policy_observes_connections_witness:
  "\<exists>st'. wake_policy_observe_host_packet default_config us_clock 0 HCI_PKT_EVENT
      ([0x3e, 19, 0x01, 0x00, 0x40, 0x00, 0x00, 0x01] @ [6, 5, 4, 3, 2, 1] @ replicate 7 0) one_peer = Some st' \<and>
    policy_peers st' = [(1, [1, 2, 3, 4, 5, 6]), (1, [6, 5, 4, 3, 2, 1])]"
proof -
  have pp: "policy_peers one_peer = [(1, [1, 2, 3, 4, 5, 6])]"
    by (simp add: policy_peers_def one_peer_def)
  show ?thesis
    using wake_policy_observes_connections [OF one_peer_inv, of default_config us_clock 0 HCI_PKT_EVENT
      "[0x3e, 19, 0x01, 0x00, 0x40, 0x00, 0x00, 0x01] @ [6, 5, 4, 3, 2, 1] @ replicate 7 0"]
    by (auto simp: pp config_defs lru_remember_def)
qed

text \<open>A directed report is sixteen bytes of which the first is its event type.\<close>

definition directed_event :: "u8 \<Rightarrow> (u8 \<times> bytes) list \<Rightarrow> bytes" where
  "directed_event plen rs =
     [HCI_EVENT_LE_META, plen, HCI_SUBEVENT_LE_DIRECTED_ADVERTISING_REPORT, of_nat (length rs)] @
     concat (map (\<lambda>(e, rest). e # rest) rs)"

lemma directed_types_bytes:
  "\<forall>(e, rest) \<in> set rs. length rest = 15 \<Longrightarrow>
   directed_report_types (length rs) (concat (map (\<lambda>(e, rest). e # rest) rs)) = map fst rs"
proof (induction rs)
  case (Cons r rs)
  obtain e rest where r: "r = (e, rest)" by (cases r)
  let ?more = "concat (map (\<lambda>(e, rest). e # rest) rs)"
  have "drop 16 ((e # rest) @ ?more) = ?more"
    using Cons.prems by (intro drop_prefix) (simp add: r)
  with Cons show ?case by (simp add: r)
qed simp

text \<open>
  Under the default build options an LE directed advertising event wakes the PC exactly
  when one of its reports is of type 1, and it never changes the peer list.
\<close>

theorem default_wake_on_directed:
  assumes "policy_inv st" "\<forall>(e, rest) \<in> set rs. length rest = 15" "length rs < 256"
  shows "\<exists>st'. wake_policy_packet_matches default_config ck n HCI_PKT_EVENT (directed_event plen rs) st =
      Some (if 0x01 \<in> set (map fst rs) then Some ''BLE directed advertisement'' else None, st') \<and>
    policy_peers st' = policy_peers st"
proof -
  have n: "unat (of_nat (length rs) :: u8) = length rs"
    using assms(3) by (simp add: unsigned_of_nat take_bit_nat_eq_self)
  have on: "WAKE_ON_BLE_DIRECTED_ADV default_config" by (simp add: config_defs)
  have "wake_spec default_config (policy_peers st) HCI_PKT_EVENT (directed_event plen rs) =
      (if 0x01 \<in> set (map fst rs) then Some ''BLE directed advertisement'' else None, policy_peers st)"
    using directed_types_bytes [OF assms(2)] by (simp add: wake_spec_def directed_event_def n on)
  then obtain why where why: "why = (if 0x01 \<in> set (map fst rs) then Some ''BLE directed advertisement'' else None)"
    and "wake_spec default_config (policy_peers st) HCI_PKT_EVENT (directed_event plen rs) = (why, policy_peers st)"
    by blast
  with packet_matches_spec [OF assms(1), of default_config HCI_PKT_EVENT "directed_event plen rs" ck n]
  show ?thesis unfolding why [symmetric] by (auto simp: policy_result_def)
qed

theorem default_wake_on_directed_witness:
  "\<exists>st'. wake_policy_packet_matches default_config us_clock 0 HCI_PKT_EVENT
      (directed_event 18 [(0x01, replicate 15 0)]) one_peer =
    Some (Some ''BLE directed advertisement'', st')"
  using default_wake_on_directed [OF one_peer_inv, of "[(0x01, replicate 15 0)]" us_clock 0 18] by auto

end
