(* ===== verification/Fifo.thy ===== *)
theory Fifo
  imports Prelude
begin

text \<open>
  The interface the firmware's bounded queues share (the two HCI packet queues of the
  bridge, the byte ring of the UART backend): first in, first out, a fixed capacity, and
  a push that reports a full queue instead of overwriting. The lemma about interleaved
  operations is proved once here and holds of every interpretation.
\<close>

datatype 'a fifo_op = Push 'a | Pop

text \<open>
  A run of operations collects the elements accepted and the elements popped.
\<close>

fun fifo_run ::
    "('a \<Rightarrow> 'q \<Rightarrow> bool \<times> 'q) \<Rightarrow> ('q \<Rightarrow> ('a \<times> 'q) option) \<Rightarrow> 'a fifo_op list \<Rightarrow> 'q
       \<Rightarrow> 'a list \<times> 'a list \<times> 'q" where
  "fifo_run push pop [] q = ([], [], q)"
| "fifo_run push pop (Push x # ops) q =
     (let (ok, q') = push x q; (acc, out, q'') = fifo_run push pop ops q'
      in (if ok then x # acc else acc, out, q''))"
| "fifo_run push pop (Pop # ops) q =
     (case pop q of
        None \<Rightarrow> fifo_run push pop ops q
      | Some (x, q') \<Rightarrow>
          let (acc, out, q'') = fifo_run push pop ops q' in (acc, x # out, q''))"

locale bounded_fifo =
  fixes fifo_inv :: "'q \<Rightarrow> bool"
    and contents :: "'q \<Rightarrow> 'a list"
    and fits :: "'a \<Rightarrow> bool"
    and capacity :: nat
    and push :: "'a \<Rightarrow> 'q \<Rightarrow> bool \<times> 'q"
    and pop :: "'q \<Rightarrow> ('a \<times> 'q) option"
  assumes bound: "fifo_inv q \<Longrightarrow> length (contents q) \<le> capacity"
    and push_flag: "fifo_inv q \<Longrightarrow> fst (push x q) \<longleftrightarrow> fits x \<and> length (contents q) < capacity"
    and push_contents: "fifo_inv q \<Longrightarrow>
        contents (snd (push x q)) = contents q @ (if fst (push x q) then [x] else [])"
    and push_inv: "fifo_inv q \<Longrightarrow> fifo_inv (snd (push x q))"
    and pop_empty: "fifo_inv q \<Longrightarrow> pop q = None \<longleftrightarrow> contents q = []"
    and pop_contents: "fifo_inv q \<Longrightarrow> pop q = Some (x, q') \<Longrightarrow> contents q = x # contents q'"
    and pop_inv: "fifo_inv q \<Longrightarrow> pop q = Some (x, q') \<Longrightarrow> fifo_inv q'"
begin

lemma push_full: "fifo_inv q \<Longrightarrow> length (contents q) = capacity \<Longrightarrow> \<not> fst (push x q)"
  by (simp add: push_flag)

lemma run_inv: "fifo_inv q \<Longrightarrow> fifo_run push pop ops q = (acc, out, q') \<Longrightarrow> fifo_inv q'"
proof (induction ops arbitrary: q acc out)
  case Nil
  then show ?case by simp
next
  case (Cons op ops)
  show ?case
  proof (cases op)
    case (Push x)
    with Cons show ?thesis using push_inv [of q x] by (auto split: prod.splits)
  next
    case Pop
    with Cons show ?thesis by (auto split: option.splits prod.splits dest: pop_inv)
  qed
qed

text \<open>Nothing is lost, duplicated or reordered: what has been popped, followed by what is
  still queued, is what was queued at the start followed by what was accepted.\<close>

lemma run_fifo:
  "fifo_inv q \<Longrightarrow> fifo_run push pop ops q = (acc, out, q') \<Longrightarrow>
   out @ contents q' = contents q @ acc"
proof (induction ops arbitrary: q acc out)
  case Nil
  then show ?case by simp
next
  case (Cons op ops)
  show ?case
  proof (cases op)
    case (Push x)
    obtain ok q1 where p: "push x q = (ok, q1)" by (cases "push x q")
    obtain acc1 out1 where r: "fifo_run push pop ops q1 = (acc1, out1, q')"
      and a: "acc = (if ok then x # acc1 else acc1)" and o: "out = out1"
      using Cons.prems(2) Push p by (auto split: prod.splits)
    from Cons.prems(1) p have "fifo_inv q1" using push_inv [of q x] by simp
    from Cons.IH [OF this r] show ?thesis
      using push_contents [OF Cons.prems(1), of x] p a o by simp
  next
    case Pop
    show ?thesis
    proof (cases "pop q")
      case None
      with Cons Pop show ?thesis by simp
    next
      case (Some y)
      obtain x q1 where y: "y = (x, q1)" by (cases y)
      with Some have p: "pop q = Some (x, q1)" by simp
      obtain out1 where r: "fifo_run push pop ops q1 = (acc, out1, q')" and o: "out = x # out1"
        using Cons.prems(2) Pop p by (auto split: prod.splits)
      from Cons.IH [OF pop_inv [OF Cons.prems(1) p] r] show ?thesis
        using pop_contents [OF Cons.prems(1) p] o by simp
    qed
  qed
qed

end

end
