(* ===== verification/Hci_Queue.thy ===== *)
theory Hci_Queue
  imports Hci_Packet Fifo
begin

text \<open>
  The packet queues of \<open>src/usb_bth_bridge.c\<close>: an array of 32 items with a head and a
  tail index, one slot kept free. A queue record stands for the triple of the C functions'
  arguments, the array and the two index variables. Indices stay below 32, so the casts to
  \<open>uint8_t\<close> do not change them.
\<close>

abbreviation (input) USB_QUEUE_DEPTH :: nat where "USB_QUEUE_DEPTH \<equiv> 32"

record hci_queue_item =
  type :: hci_packet_type
  len :: nat
  data :: bytes

record hci_queue =
  items :: "hci_queue_item list"
  head :: nat
  tail :: nat

definition queue_push :: "hci_queue \<Rightarrow> hci_packet_type \<Rightarrow> bytes \<Rightarrow> bool \<times> hci_queue" where
  "queue_push q t packet =
     (if length packet > HCI_ACL_MAX_LEN then (False, q)
      else let nxt = (head q + 1) mod USB_QUEUE_DEPTH in
        if nxt = tail q then (False, q)
        else let it = items q ! head q;
                 it = it\<lparr>type := t, len := length packet,
                         data := packet @ drop (length packet) (data it)\<rparr>
             in (True, q\<lparr>items := (items q)[head q := it], head := nxt\<rparr>))"

definition queue_pop :: "hci_queue \<Rightarrow> (hci_queue_item \<times> hci_queue) option" where
  "queue_pop q =
     (if tail q = head q then None
      else Some (items q ! tail q, q\<lparr>tail := (tail q + 1) mod USB_QUEUE_DEPTH\<rparr>))"

text \<open>The item at the tail, \<open>&queue[tail]\<close>, and the step \<open>tail = (tail + 1) % 32\<close> that
  drops it.\<close>

definition queue_front :: "hci_queue \<Rightarrow> hci_queue_item" where
  "queue_front q = items q ! tail q"

definition queue_advance :: "hci_queue \<Rightarrow> hci_queue" where
  "queue_advance q = q\<lparr>tail := (tail q + 1) mod USB_QUEUE_DEPTH\<rparr>"

definition queue_empty :: "hci_queue \<Rightarrow> bool" where
  "queue_empty q \<longleftrightarrow> tail q = head q"

definition queue_clear :: "hci_queue \<Rightarrow> hci_queue" where
  "queue_clear q = q\<lparr>head := 0, tail := 0\<rparr>"

text \<open>The zero-initialised static arrays.\<close>

definition empty_queue :: hci_queue where
  "empty_queue =
     \<lparr>items = replicate USB_QUEUE_DEPTH \<lparr>type = HCI_PKT_OTHER 0, len = 0,
                                          data = replicate HCI_ACL_MAX_LEN 0\<rparr>,
      head = 0, tail = 0\<rparr>"

section \<open>Contents and invariant\<close>

text \<open>What an item holds: its packet type and the first \<open>len\<close> bytes of its store.\<close>

definition item_packet :: "hci_queue_item \<Rightarrow> hci_packet_type \<times> bytes" where
  "item_packet it = (type it, take (len it) (data it))"

definition queue_contents :: "hci_queue \<Rightarrow> (hci_packet_type \<times> bytes) list" where
  "queue_contents q = map item_packet (ring_list (items q) (head q) (tail q))"

definition queue_inv :: "hci_queue \<Rightarrow> bool" where
  "queue_inv q \<longleftrightarrow> length (items q) = USB_QUEUE_DEPTH \<and> head q < USB_QUEUE_DEPTH \<and>
     tail q < USB_QUEUE_DEPTH \<and>
     (\<forall>it \<in> set (items q). length (data it) = HCI_ACL_MAX_LEN \<and> len it \<le> HCI_ACL_MAX_LEN)"

lemma empty_queue_inv [simp]: "queue_inv empty_queue"
  by (simp add: queue_inv_def empty_queue_def)

lemma empty_queue_contents [simp]: "queue_contents empty_queue = []"
  by (simp add: queue_contents_def empty_queue_def)

lemma queue_clear_inv [simp]: "queue_inv q \<Longrightarrow> queue_inv (queue_clear q)"
  by (simp add: queue_inv_def queue_clear_def)

lemma queue_clear_contents [simp]: "queue_inv q \<Longrightarrow> queue_contents (queue_clear q) = []"
  by (simp add: queue_contents_def queue_clear_def queue_inv_def)

lemma queue_contents_length:
  "queue_inv q \<Longrightarrow> length (queue_contents q) = ring_len USB_QUEUE_DEPTH (head q) (tail q)"
  by (simp add: queue_contents_def queue_inv_def)

lemma queue_bound: "queue_inv q \<Longrightarrow> length (queue_contents q) \<le> 31"
  using ring_len_less [of 32 "head q" "tail q"] by (simp add: queue_contents_length)

lemma queue_empty_iff: "queue_inv q \<Longrightarrow> queue_empty q \<longleftrightarrow> queue_contents q = []"
proof -
  assume inv: "queue_inv q"
  then have "length (queue_contents q) = 0 \<longleftrightarrow> head q = tail q"
    using ring_len_zero [of "head q" 32 "tail q"] queue_contents_length [OF inv]
    by (simp add: queue_inv_def)
  then show ?thesis by (metis queue_empty_def length_0_conv)
qed

lemma queue_full_iff:
  "queue_inv q \<Longrightarrow> (head q + 1) mod USB_QUEUE_DEPTH = tail q \<longleftrightarrow> length (queue_contents q) = 31"
  using ring_len_full [of "head q" 32 "tail q"]
  by (simp add: queue_contents_length queue_inv_def)

lemma queue_push_flag:
  assumes "queue_inv q"
  shows "fst (queue_push q t pkt) \<longleftrightarrow>
    length pkt \<le> HCI_ACL_MAX_LEN \<and> length (queue_contents q) < 31"
  using queue_full_iff [OF assms] queue_bound [OF assms] by (auto simp: queue_push_def)

lemma queue_push_inv: "queue_inv q \<Longrightarrow> queue_inv (snd (queue_push q t pkt))"
  using set_update_subset_insert [of "items q" "head q"]
  by (fastforce simp: queue_push_def queue_inv_def)

lemma queue_push_contents:
  assumes inv: "queue_inv q"
  shows "queue_contents (snd (queue_push q t pkt)) =
    queue_contents q @ (if fst (queue_push q t pkt) then [(t, pkt)] else [])"
proof -
  have "length (items q) = 32" "head q < length (items q)" "tail q < length (items q)"
    using inv by (auto simp: queue_inv_def)
  then show ?thesis
    using ring_list_push [of "head q" "items q" "tail q"]
    by (simp add: queue_push_def queue_contents_def item_packet_def)
qed

lemma queue_pop_advance: "queue_pop q = (if queue_empty q then None else Some (queue_front q, queue_advance q))"
  by (simp add: queue_pop_def queue_empty_def queue_front_def queue_advance_def)

lemma queue_advance_inv [simp]: "queue_inv q \<Longrightarrow> queue_inv (queue_advance q)"
  by (simp add: queue_inv_def queue_advance_def)

lemma queue_front_contents:
  assumes inv: "queue_inv q" and ne: "\<not> queue_empty q"
  shows "queue_contents q = item_packet (queue_front q) # queue_contents (queue_advance q)"
proof -
  have "length (items q) = 32" "head q < length (items q)" "tail q < length (items q)"
    "head q \<noteq> tail q"
    using inv ne by (auto simp: queue_inv_def queue_empty_def)
  then show ?thesis
    using ring_list_pop [of "head q" "items q" "tail q"]
    by (simp add: queue_contents_def queue_advance_def queue_front_def)
qed

lemma queue_advance_contents [simp]:
  "queue_inv q \<Longrightarrow> queue_contents q \<noteq> [] \<Longrightarrow> queue_contents (queue_advance q) = tl (queue_contents q)"
  using queue_front_contents [of q] queue_empty_iff [of q] by simp

lemma queue_front_packet:
  "queue_inv q \<Longrightarrow> queue_contents q \<noteq> [] \<Longrightarrow> item_packet (queue_front q) = hd (queue_contents q)"
  using queue_front_contents [of q] queue_empty_iff [of q] by (metis list.sel(1))

text \<open>The queue satisfies the interface of a bounded FIFO of packets of at most 2048 bytes,
  with room for 31.\<close>

interpretation hq: bounded_fifo queue_inv queue_contents "\<lambda>(t, pkt). length pkt \<le> HCI_ACL_MAX_LEN"
  31 "\<lambda>(t, pkt) q. queue_push q t pkt"
  "\<lambda>q. map_option (map_prod item_packet id) (queue_pop q)"
proof (unfold_locales, goal_cases)
  case (1 q) then show ?case by (rule queue_bound)
next
  case (2 q x) then show ?case by (cases x) (simp add: queue_push_flag)
next
  case (3 q x) then show ?case by (cases x) (simp add: queue_push_contents)
next
  case (4 q x) then show ?case by (cases x) (simp add: queue_push_inv)
next
  case (5 q) then show ?case by (simp add: queue_pop_advance queue_empty_iff)
next
  case (6 q x q')
  then show ?case using queue_front_contents [of q] by (auto simp: queue_pop_advance split: if_splits)
next
  case (7 q x q') then show ?case by (auto simp: queue_pop_advance split: if_splits)
qed



end
