(* ===== verification/Usb_Bridge.thy ===== *)
theory Usb_Bridge
  imports Hci_Queue Platform "HOL-Library.Sublist"
begin

text \<open>
  \<open>src/usb_bth_bridge.c\<close>: the bridge between TinyUSB's Bluetooth class and the HCI
  transport. Host commands and ACL data go through \<open>usb_queue\<close> to the transport, controller
  events and ACL data through \<open>backend_queue\<close> to USB, one transfer in flight at a time.
  Logging (\<open>log_acl_packet\<close>, \<open>log_hci_command\<close>, \<open>log_hci_event\<close>) is left out here, as
  it writes only to the debug log; theory Bridge_Log models what it reads and prints. TinyUSB's send functions and the transport's \<open>send\<close> are
  parameters; the latter acts on the bridge as well, because a transport may call the
  receive callback before it returns.
\<close>

section \<open>State\<close>

record bridge =
  bridge_enabled :: bool
  usb_queue :: hci_queue
  backend_queue :: hci_queue
  backend_tx_in_flight :: bool
  backend_tx_started_ms :: u32
  dropped_vendor_events :: u32
  usb_acl_buf :: bytes
  usb_acl_len :: nat
  usb_acl_expected_len :: nat
  dropped_acl_fragments :: u32
  suppress_write_simple_pairing_mode_complete :: u8
  suppress_le_set_random_address_complete :: u8
  suppress_le_set_scan_parameters_complete :: u8
  suppress_le_set_scan_enable_complete :: u8

text \<open>The static variables at boot.\<close>

definition bridge_boot :: bridge where
  "bridge_boot =
     \<lparr>bridge_enabled = False, usb_queue = empty_queue, backend_queue = empty_queue,
      backend_tx_in_flight = False, backend_tx_started_ms = 0, dropped_vendor_events = 0,
      usb_acl_buf = replicate HCI_ACL_MAX_LEN 0, usb_acl_len = 0, usb_acl_expected_len = 0,
      dropped_acl_fragments = 0, suppress_write_simple_pairing_mode_complete = 0,
      suppress_le_set_random_address_complete = 0, suppress_le_set_scan_parameters_complete = 0,
      suppress_le_set_scan_enable_complete = 0\<rparr>"

section \<open>Queueing synthesized completions\<close>

definition push_backend :: "bridge \<Rightarrow> hci_packet_type \<Rightarrow> bytes \<Rightarrow> bool \<times> bridge" where
  "push_backend br t pkt =
     (let (ok, q) = queue_push (backend_queue br) t pkt in (ok, br\<lparr>backend_queue := q\<rparr>))"

definition push_usb :: "bridge \<Rightarrow> hci_packet_type \<Rightarrow> bytes \<Rightarrow> bool \<times> bridge" where
  "push_usb br t pkt =
     (let (ok, q) = queue_push (usb_queue br) t pkt in (ok, br\<lparr>usb_queue := q\<rparr>))"

definition command_complete_event :: "u16 \<Rightarrow> u8 \<Rightarrow> bytes" where
  "command_complete_event opcode status =
     [HCI_EVENT_COMMAND_COMPLETE, 0x04, 0x01, lo8 opcode, hi8 opcode, status]"

definition queue_command_complete :: "bridge \<Rightarrow> u16 \<Rightarrow> u8 \<Rightarrow> bool \<times> bridge" where
  "queue_command_complete br opcode status =
     push_backend br HCI_PKT_EVENT (command_complete_event opcode status)"

definition read_local_extended_features_event :: "u8 \<Rightarrow> bytes" where
  "read_local_extended_features_event page_number =
     [HCI_EVENT_COMMAND_COMPLETE, 0x0e, 0x01,
      lo8 HCI_OPCODE_READ_LOCAL_EXTENDED_FEATURES, hi8 HCI_OPCODE_READ_LOCAL_EXTENDED_FEATURES,
      0x00, page_number, 0x00,
      0x00, 0x00, 0x00, 0x00, 0x00, 0x00, 0x00, 0x00]"

definition queue_read_local_extended_features_complete :: "bridge \<Rightarrow> u8 \<Rightarrow> bool \<times> bridge" where
  "queue_read_local_extended_features_complete br page_number =
     push_backend br HCI_PKT_EVENT (read_local_extended_features_event page_number)"

section \<open>The CYW43 quirks\<close>

definition hci_command_opcode_is :: "bytes \<Rightarrow> u16 \<Rightarrow> bool" where
  "hci_command_opcode_is packet opcode \<longleftrightarrow>
     (if length packet < 3 then False else le16 (packet ! 0) (packet ! 1) = opcode)"

definition hci_event_command_complete_opcode_is :: "bytes \<Rightarrow> u16 \<Rightarrow> bool" where
  "hci_event_command_complete_opcode_is packet opcode \<longleftrightarrow>
     (if length packet < 6 \<or> packet ! 0 \<noteq> HCI_EVENT_COMMAND_COMPLETE then False
      else le16 (packet ! 3) (packet ! 4) = opcode)"

definition usb_bth_bridge_should_drop_delayed_quirk_complete ::
    "build_config \<Rightarrow> bridge \<Rightarrow> bytes \<Rightarrow> bool \<times> bridge" where
  "usb_bth_bridge_should_drop_delayed_quirk_complete cfg br packet =
     (if backend_is_cyw43 cfg then
        if suppress_write_simple_pairing_mode_complete br \<noteq> 0 \<and>
           hci_event_command_complete_opcode_is packet HCI_OPCODE_WRITE_SIMPLE_PAIRING_MODE
        then (True, br\<lparr>suppress_write_simple_pairing_mode_complete :=
                        suppress_write_simple_pairing_mode_complete br - 1\<rparr>)
        else if suppress_le_set_random_address_complete br \<noteq> 0 \<and>
           hci_event_command_complete_opcode_is packet HCI_OPCODE_LE_SET_RANDOM_ADDRESS
        then (True, br\<lparr>suppress_le_set_random_address_complete :=
                        suppress_le_set_random_address_complete br - 1\<rparr>)
        else if suppress_le_set_scan_parameters_complete br \<noteq> 0 \<and>
           hci_event_command_complete_opcode_is packet HCI_OPCODE_LE_SET_SCAN_PARAMETERS
        then (True, br\<lparr>suppress_le_set_scan_parameters_complete :=
                        suppress_le_set_scan_parameters_complete br - 1\<rparr>)
        else if suppress_le_set_scan_enable_complete br \<noteq> 0 \<and>
           hci_event_command_complete_opcode_is packet HCI_OPCODE_LE_SET_SCAN_ENABLE
        then (True, br\<lparr>suppress_le_set_scan_enable_complete :=
                        suppress_le_set_scan_enable_complete br - 1\<rparr>)
        else (False, br)
      else (False, br))"

text \<open>\<open>if (counter != UINT8_MAX) counter++\<close>\<close>

definition saturating_inc :: "u8 \<Rightarrow> u8" where
  "saturating_inc c = (if c \<noteq> 255 then c + 1 else c)"

definition usb_bth_bridge_after_controller_send_quirk ::
    "build_config \<Rightarrow> bridge \<Rightarrow> bytes \<Rightarrow> bridge" where
  "usb_bth_bridge_after_controller_send_quirk cfg br packet =
     (if backend_is_cyw43 cfg then
        if hci_command_opcode_is packet HCI_OPCODE_WRITE_SIMPLE_PAIRING_MODE
        then let (_, br) = queue_command_complete br HCI_OPCODE_WRITE_SIMPLE_PAIRING_MODE 0x00
             in br\<lparr>suppress_write_simple_pairing_mode_complete :=
                    saturating_inc (suppress_write_simple_pairing_mode_complete br)\<rparr>
        else if hci_command_opcode_is packet HCI_OPCODE_LE_SET_RANDOM_ADDRESS
        then let (_, br) = queue_command_complete br HCI_OPCODE_LE_SET_RANDOM_ADDRESS 0x00
             in br\<lparr>suppress_le_set_random_address_complete :=
                    saturating_inc (suppress_le_set_random_address_complete br)\<rparr>
        else if hci_command_opcode_is packet HCI_OPCODE_LE_SET_SCAN_PARAMETERS
        then let (_, br) = queue_command_complete br HCI_OPCODE_LE_SET_SCAN_PARAMETERS 0x00
             in br\<lparr>suppress_le_set_scan_parameters_complete :=
                    saturating_inc (suppress_le_set_scan_parameters_complete br)\<rparr>
        else if hci_command_opcode_is packet HCI_OPCODE_LE_SET_SCAN_ENABLE
        then let (_, br) = queue_command_complete br HCI_OPCODE_LE_SET_SCAN_ENABLE 0x00
             in br\<lparr>suppress_le_set_scan_enable_complete :=
                    saturating_inc (suppress_le_set_scan_enable_complete br)\<rparr>
        else br
      else br)"

definition usb_bth_bridge_pre_controller_send_quirk ::
    "build_config \<Rightarrow> bridge \<Rightarrow> bytes \<Rightarrow> bool \<times> bridge" where
  "usb_bth_bridge_pre_controller_send_quirk cfg br packet =
     (if backend_is_cyw43 cfg then
        if hci_command_opcode_is packet HCI_OPCODE_READ_LOCAL_EXTENDED_FEATURES
        then let page_number = (if length packet \<ge> 4 then packet ! 3 else 0x00);
                 (_, br) = queue_read_local_extended_features_complete br page_number
             in (True, br)
        else (False, br)
      else (False, br))"

section \<open>Enabling, and packets from the controller\<close>

definition usb_bth_bridge_set_enabled :: "bool \<Rightarrow> bridge \<Rightarrow> bridge" where
  "usb_bth_bridge_set_enabled enabled br =
     (let br = br\<lparr>bridge_enabled := enabled\<rparr> in
      if \<not> enabled
      then br\<lparr>usb_queue := queue_clear (usb_queue br),
              backend_queue := queue_clear (backend_queue br),
              backend_tx_in_flight := False, backend_tx_started_ms := 0,
              usb_acl_len := 0, usb_acl_expected_len := 0\<rparr>
      else br)"

definition usb_bth_bridge_is_enabled :: "bridge \<Rightarrow> bool" where
  "usb_bth_bridge_is_enabled br = bridge_enabled br"

definition usb_bth_bridge_backend_packet ::
    "build_config \<Rightarrow> hci_packet_type \<Rightarrow> bytes \<Rightarrow> bridge \<Rightarrow> bridge" where
  "usb_bth_bridge_backend_packet cfg t packet br =
     (if \<not> bridge_enabled br then br
      else if t \<noteq> HCI_PKT_EVENT \<and> t \<noteq> HCI_PKT_ACL then br
      else let (drp, br') =
             (if t = HCI_PKT_EVENT
              then usb_bth_bridge_should_drop_delayed_quirk_complete cfg br packet
              else (False, br))
           in if drp then br'
              else if t = HCI_PKT_EVENT \<and> length packet \<ge> 2 \<and>
                      packet ! 0 = HCI_EVENT_VENDOR_SPECIFIC \<and> packet ! 1 \<ge> 64
              then br'\<lparr>dropped_vendor_events := dropped_vendor_events br' + 1\<rparr>
              else snd (push_backend br' t packet))"

section \<open>ACL reassembly\<close>

definition acl_packet_total_len :: "bytes \<Rightarrow> nat" where
  "acl_packet_total_len packet = to_u16 (4 + unat (packet ! 2) + 256 * unat (packet ! 3))"

definition usb_bth_bridge_reset_acl_reassembly :: "bridge \<Rightarrow> bridge" where
  "usb_bth_bridge_reset_acl_reassembly br = br\<lparr>usb_acl_len := 0, usb_acl_expected_len := 0\<rparr>"

definition usb_bth_bridge_push_completed_acl :: "bridge \<Rightarrow> bridge" where
  "usb_bth_bridge_push_completed_acl br =
     usb_bth_bridge_reset_acl_reassembly
       (snd (push_usb br HCI_PKT_ACL (take (usb_acl_len br) (usb_acl_buf br))))"

text \<open>One pass of the copy at the end of the loop body: the checked \<open>memcpy\<close>, and the
  push of a packet that is complete. The result is the bridge and the number of bytes taken.\<close>

definition acl_take :: "bridge \<Rightarrow> bytes \<Rightarrow> (bridge \<times> nat) option" where
  "acl_take br fragment =
     (let remaining = to_u16 (usb_acl_expected_len br + 65536 - usb_acl_len br);
          tk = (if length fragment < remaining then length fragment else remaining)
      in do {
        buf \<leftarrow> memcpy_at (usb_acl_buf br) (usb_acl_len br) (take tk fragment);
        let br = br\<lparr>usb_acl_buf := buf, usb_acl_len := to_u16 (usb_acl_len br + tk)\<rparr>;
        Some ((if usb_acl_len br = usb_acl_expected_len br
               then usb_bth_bridge_push_completed_acl br else br), tk)
      })"

text \<open>
  The \<open>while (len > 0u)\<close> loop. \<open>None\<close> is a run that does not end or copies outside
  \<open>usb_acl_buf\<close>; the lemmas below show that neither happens.
\<close>

partial_function (option) usb_bth_bridge_acl_out_fragment :: "bridge \<Rightarrow> bytes \<Rightarrow> bridge option" where
  "usb_bth_bridge_acl_out_fragment br fragment =
     (if fragment = [] then Some br
      else if usb_acl_len br = 0 \<and> length fragment < 4
      then Some (br\<lparr>dropped_acl_fragments := dropped_acl_fragments br + 1\<rparr>)
      else if usb_acl_len br = 0 \<and>
           (acl_packet_total_len fragment < 4 \<or>
            acl_packet_total_len fragment > length (usb_acl_buf br))
      then Some (usb_bth_bridge_reset_acl_reassembly
             (br\<lparr>usb_acl_expected_len := acl_packet_total_len fragment,
                 dropped_acl_fragments := dropped_acl_fragments br + 1\<rparr>))
      else do {
        (br', tk) \<leftarrow> acl_take
          (if usb_acl_len br = 0
           then br\<lparr>usb_acl_expected_len := acl_packet_total_len fragment\<rparr> else br) fragment;
        usb_bth_bridge_acl_out_fragment br' (drop tk fragment)
      })"

section \<open>The task\<close>

record 'w bridge_env =
  tud_ready :: bool
  now_ms :: u32
  sent_ms :: u32
  tud_bt_event_send :: "bytes \<Rightarrow> 'w \<Rightarrow> bool \<times> 'w"
  tud_bt_acl_data_send :: "bytes \<Rightarrow> 'w \<Rightarrow> bool \<times> 'w"
  transport_send :: "(hci_packet_type \<Rightarrow> bytes \<Rightarrow> bridge \<times> 'w \<Rightarrow> bool \<times> bridge \<times> 'w) option"

text \<open>\<open>bridge_transport\<close> is set once, at boot; only its \<open>send\<close> is used.\<close>

definition usb_bth_bridge_init ::
    "(hci_packet_type \<Rightarrow> bytes \<Rightarrow> bridge \<times> 'w \<Rightarrow> bool \<times> bridge \<times> 'w) option
       \<Rightarrow> 'w bridge_env \<Rightarrow> 'w bridge_env" where
  "usb_bth_bridge_init transport env = env\<lparr>transport_send := transport\<rparr>"

definition drop_backend_tail :: "bridge \<Rightarrow> bridge" where
  "drop_backend_tail br =
     (if \<not> queue_empty (backend_queue br)
      then br\<lparr>backend_queue := queue_advance (backend_queue br)\<rparr> else br)"

definition drop_usb_tail :: "bridge \<Rightarrow> bridge" where
  "drop_usb_tail br = br\<lparr>usb_queue := queue_advance (usb_queue br)\<rparr>"

definition bridge_tx_timeout :: "u32 \<Rightarrow> bridge \<Rightarrow> bridge" where
  "bridge_tx_timeout now br =
     (if backend_tx_in_flight br \<and> now - backend_tx_started_ms br > 1000
      then (drop_backend_tail br)\<lparr>backend_tx_in_flight := False\<rparr> else br)"

partial_function (option) bridge_drain_usb ::
    "build_config \<Rightarrow> 'w bridge_env \<Rightarrow> bridge \<Rightarrow> 'w \<Rightarrow> (bridge \<times> 'w) option" where
  "bridge_drain_usb cfg env br w =
     (if queue_empty (usb_queue br) then Some (br, w)
      else case item_packet (queue_front (usb_queue br)) of (t, pkt) \<Rightarrow>
        if t = HCI_PKT_COMMAND \<and> fst (usb_bth_bridge_pre_controller_send_quirk cfg br pkt)
        then bridge_drain_usb cfg env
               (drop_usb_tail (snd (usb_bth_bridge_pre_controller_send_quirk cfg br pkt))) w
        else (case transport_send env of
            None \<Rightarrow> Some (br, w)
          | Some send \<Rightarrow>
              (case send t pkt (br, w) of (ok, br', w') \<Rightarrow>
                 if \<not> ok then Some (br', w')
                 else bridge_drain_usb cfg env
                   (drop_usb_tail
                     (if t = HCI_PKT_COMMAND
                      then usb_bth_bridge_after_controller_send_quirk cfg br' pkt else br')) w')))"

definition bridge_send_backend :: "'w bridge_env \<Rightarrow> bridge \<Rightarrow> 'w \<Rightarrow> bridge \<times> 'w" where
  "bridge_send_backend env br w =
     (if \<not> backend_tx_in_flight br \<and> \<not> queue_empty (backend_queue br)
      then let (t, pkt) = item_packet (queue_front (backend_queue br));
               (ok, w) = (if t = HCI_PKT_EVENT then tud_bt_event_send env pkt w
                          else if t = HCI_PKT_ACL then tud_bt_acl_data_send env pkt w
                          else (False, w));
               br = br\<lparr>backend_tx_in_flight := ok\<rparr>
           in (if ok then br\<lparr>backend_tx_started_ms := sent_ms env\<rparr> else br, w)
      else (br, w))"

definition usb_bth_bridge_task ::
    "build_config \<Rightarrow> 'w bridge_env \<Rightarrow> bridge \<Rightarrow> 'w \<Rightarrow> (bridge \<times> 'w) option" where
  "usb_bth_bridge_task cfg env br w =
     (if \<not> bridge_enabled br \<or> \<not> tud_ready env then Some (br, w)
      else do {
        (br, w) \<leftarrow> bridge_drain_usb cfg env (bridge_tx_timeout (now_ms env) br) w;
        Some (bridge_send_backend env br w)
      })"

section \<open>TinyUSB's callbacks\<close>

definition tud_bt_hci_cmd_cb :: "build_config \<Rightarrow> bytes \<Rightarrow> bridge \<Rightarrow> bridge" where
  "tud_bt_hci_cmd_cb cfg hci_cmd br =
     (if \<not> bridge_enabled br then br
      else let pkt = take (to_u16 (length hci_cmd)) hci_cmd;
               (taken, br) = usb_bth_bridge_pre_controller_send_quirk cfg br pkt
           in if taken then br else snd (push_usb br HCI_PKT_COMMAND pkt))"

definition tud_bt_acl_data_received_cb :: "bytes \<Rightarrow> bridge \<Rightarrow> bridge option" where
  "tud_bt_acl_data_received_cb acl_data br =
     (if \<not> bridge_enabled br then Some br else usb_bth_bridge_acl_out_fragment br acl_data)"

definition tud_bt_event_sent_cb :: "bridge \<Rightarrow> bridge" where
  "tud_bt_event_sent_cb br =
     (let br = (if backend_tx_in_flight br then drop_backend_tail br else br)
      in br\<lparr>backend_tx_in_flight := False, backend_tx_started_ms := 0\<rparr>)"

definition tud_bt_acl_data_sent_cb :: "bridge \<Rightarrow> bridge" where
  "tud_bt_acl_data_sent_cb br =
     (let br = (if backend_tx_in_flight br then drop_backend_tail br else br)
      in br\<lparr>backend_tx_in_flight := False, backend_tx_started_ms := 0\<rparr>)"

section \<open>Invariant\<close>

definition bridge_inv :: "bridge \<Rightarrow> bool" where
  "bridge_inv br \<longleftrightarrow> queue_inv (usb_queue br) \<and> queue_inv (backend_queue br) \<and>
     length (usb_acl_buf br) = HCI_ACL_MAX_LEN \<and>
     (0 < usb_acl_len br \<longrightarrow> usb_acl_len br < usb_acl_expected_len br \<and>
        usb_acl_expected_len br \<le> HCI_ACL_MAX_LEN) \<and>
     (backend_tx_in_flight br \<longrightarrow> queue_contents (backend_queue br) \<noteq> [])"

text \<open>What is still to be handed to USB: the queued packets but the one in flight.\<close>

definition bridge_pending :: "bridge \<Rightarrow> (hci_packet_type \<times> bytes) list" where
  "bridge_pending br =
     (if backend_tx_in_flight br then tl (queue_contents (backend_queue br))
      else queue_contents (backend_queue br))"

named_theorems bridge_inv_intros \<open>operations keep the bridge invariant\<close>

lemma bridge_boot_inv [simp]: "bridge_inv bridge_boot"
  by (simp add: bridge_inv_def bridge_boot_def)

lemma set_enabled_inv [bridge_inv_intros]:
  "bridge_inv br \<Longrightarrow> bridge_inv (usb_bth_bridge_set_enabled e br)"
  by (simp add: bridge_inv_def usb_bth_bridge_set_enabled_def)

lemma push_backend_simps [simp]:
  "usb_queue (snd (push_backend br t pkt)) = usb_queue br"
  "bridge_enabled (snd (push_backend br t pkt)) = bridge_enabled br"
  "usb_acl_buf (snd (push_backend br t pkt)) = usb_acl_buf br"
  "usb_acl_len (snd (push_backend br t pkt)) = usb_acl_len br"
  "usb_acl_expected_len (snd (push_backend br t pkt)) = usb_acl_expected_len br"
  "backend_tx_in_flight (snd (push_backend br t pkt)) = backend_tx_in_flight br"
  "backend_queue (snd (push_backend br t pkt)) = snd (queue_push (backend_queue br) t pkt)"
  "fst (push_backend br t pkt) = fst (queue_push (backend_queue br) t pkt)"
  by (simp_all add: push_backend_def split: prod.split)

lemma push_usb_simps [simp]:
  "usb_queue (snd (push_usb br t pkt)) = snd (queue_push (usb_queue br) t pkt)"
  "bridge_enabled (snd (push_usb br t pkt)) = bridge_enabled br"
  "usb_acl_buf (snd (push_usb br t pkt)) = usb_acl_buf br"
  "usb_acl_len (snd (push_usb br t pkt)) = usb_acl_len br"
  "usb_acl_expected_len (snd (push_usb br t pkt)) = usb_acl_expected_len br"
  "dropped_acl_fragments (snd (push_usb br t pkt)) = dropped_acl_fragments br"
  "backend_tx_in_flight (snd (push_usb br t pkt)) = backend_tx_in_flight br"
  "backend_queue (snd (push_usb br t pkt)) = backend_queue br"
  by (simp_all add: push_usb_def split: prod.split)

lemma push_backend_inv [bridge_inv_intros]:
  "bridge_inv br \<Longrightarrow> bridge_inv (snd (push_backend br t pkt))"
  by (simp add: bridge_inv_def queue_push_inv queue_push_contents)

lemma push_usb_inv [bridge_inv_intros]:
  "bridge_inv br \<Longrightarrow> bridge_inv (snd (push_usb br t pkt))"
  by (simp add: bridge_inv_def queue_push_inv)

lemma push_backend_pending:
  "bridge_inv br \<Longrightarrow> bridge_pending (snd (push_backend br t pkt)) =
     bridge_pending br @ (if fst (queue_push (backend_queue br) t pkt) then [(t, pkt)] else [])"
  by (simp add: bridge_inv_def bridge_pending_def queue_push_contents)

text \<open>The operations below touch only the counters and push to the backend queue; the
  common frame of all of them.\<close>

definition backend_extends :: "bridge \<Rightarrow> bridge \<Rightarrow> bool" where
  "backend_extends br br' \<longleftrightarrow> bridge_inv br' \<and> usb_queue br' = usb_queue br \<and>
     bridge_enabled br' = bridge_enabled br \<and>
     (\<exists>new. bridge_pending br' = bridge_pending br @ new)"

lemma backend_extends_refl [simp]: "bridge_inv br \<Longrightarrow> backend_extends br br"
  by (simp add: backend_extends_def)

lemma backend_extends_trans:
  "backend_extends a b \<Longrightarrow> backend_extends b c \<Longrightarrow> backend_extends a c"
  by (auto simp: backend_extends_def)

lemma backend_extends_push [simp]:
  "bridge_inv br \<Longrightarrow> backend_extends br (snd (push_backend br t pkt))"
  by (simp add: backend_extends_def push_backend_inv push_backend_pending)

lemma backend_extends_counters [simp]:
  "backend_extends br (br'\<lparr>suppress_write_simple_pairing_mode_complete := a\<rparr>) = backend_extends br br'"
  "backend_extends br (br'\<lparr>suppress_le_set_random_address_complete := a\<rparr>) = backend_extends br br'"
  "backend_extends br (br'\<lparr>suppress_le_set_scan_parameters_complete := a\<rparr>) = backend_extends br br'"
  "backend_extends br (br'\<lparr>suppress_le_set_scan_enable_complete := a\<rparr>) = backend_extends br br'"
  "backend_extends br (br'\<lparr>dropped_vendor_events := b\<rparr>) = backend_extends br br'"
  by (simp_all add: backend_extends_def bridge_inv_def bridge_pending_def)

lemma pre_quirk_extends:
  "bridge_inv br \<Longrightarrow> backend_extends br (snd (usb_bth_bridge_pre_controller_send_quirk cfg br pkt))"
  by (simp add: usb_bth_bridge_pre_controller_send_quirk_def
      queue_read_local_extended_features_complete_def split_beta)

lemma after_quirk_extends:
  "bridge_inv br \<Longrightarrow> backend_extends br (usb_bth_bridge_after_controller_send_quirk cfg br pkt)"
  by (simp add: usb_bth_bridge_after_controller_send_quirk_def queue_command_complete_def split_beta)

lemma should_drop_extends:
  "bridge_inv br \<Longrightarrow>
   backend_extends br (snd (usb_bth_bridge_should_drop_delayed_quirk_complete cfg br pkt))"
  by (simp add: usb_bth_bridge_should_drop_delayed_quirk_complete_def)

lemma backend_packet_extends:
  assumes "bridge_inv br"
  shows "backend_extends br (usb_bth_bridge_backend_packet cfg t pkt br)"
proof -
  obtain d br' where d: "usb_bth_bridge_should_drop_delayed_quirk_complete cfg br pkt = (d, br')"
    by (cases "usb_bth_bridge_should_drop_delayed_quirk_complete cfg br pkt")
  then have e: "backend_extends br br'" using should_drop_extends [OF assms, of cfg pkt] by simp
  then have "backend_extends br (snd (push_backend br' t pkt))"
    by (meson backend_extends_def backend_extends_push backend_extends_trans)
  with d e assms show ?thesis by (auto simp: usb_bth_bridge_backend_packet_def)
qed

lemma drop_backend_tail_inv [bridge_inv_intros]:
  "bridge_inv br \<Longrightarrow> bridge_inv ((drop_backend_tail br)\<lparr>backend_tx_in_flight := False\<rparr>)"
  by (simp add: bridge_inv_def drop_backend_tail_def)

lemma drop_backend_tail_pending:
  "bridge_inv br \<Longrightarrow> backend_tx_in_flight br \<Longrightarrow>
   bridge_pending ((drop_backend_tail br)\<lparr>backend_tx_in_flight := False\<rparr>) = bridge_pending br"
  by (simp add: bridge_inv_def drop_backend_tail_def bridge_pending_def queue_empty_iff)

lemma drop_backend_tail_usb [simp]: "usb_queue (drop_backend_tail br) = usb_queue br"
  by (simp add: drop_backend_tail_def)

lemma bridge_tx_timeout_ok:
  assumes "bridge_inv br"
  shows "bridge_inv (bridge_tx_timeout now br)"
    and "bridge_pending (bridge_tx_timeout now br) = bridge_pending br"
    and "usb_queue (bridge_tx_timeout now br) = usb_queue br"
  using assms by (simp_all add: bridge_tx_timeout_def drop_backend_tail_inv drop_backend_tail_pending)

lemma sent_cb_ok:
  assumes "bridge_inv br"
  shows "bridge_inv (tud_bt_event_sent_cb br)"
    and "bridge_pending (tud_bt_event_sent_cb br) = bridge_pending br"
proof -
  have i: "bridge_inv (b\<lparr>backend_tx_started_ms := x\<rparr>) = bridge_inv b" for b x
    by (simp add: bridge_inv_def)
  have p: "bridge_pending (b\<lparr>backend_tx_started_ms := x\<rparr>) = bridge_pending b" for b x
    by (simp add: bridge_pending_def)
  have same: "tud_bt_event_sent_cb br = br\<lparr>backend_tx_started_ms := 0\<rparr>"
    if "\<not> backend_tx_in_flight br"
    using that by (simp add: tud_bt_event_sent_cb_def)
  have "bridge_inv (tud_bt_event_sent_cb br) \<and>
      bridge_pending (tud_bt_event_sent_cb br) = bridge_pending br"
  proof (cases "backend_tx_in_flight br")
    case True
    then show ?thesis
      using drop_backend_tail_inv [OF assms] drop_backend_tail_pending [OF assms]
      by (simp add: tud_bt_event_sent_cb_def i p)
  next
    case False
    then show ?thesis using assms by (simp add: same i p)
  qed
  then show "bridge_inv (tud_bt_event_sent_cb br)"
    and "bridge_pending (tud_bt_event_sent_cb br) = bridge_pending br" by simp_all
qed

lemma acl_sent_cb_same: "tud_bt_acl_data_sent_cb br = tud_bt_event_sent_cb br"
  by (simp add: tud_bt_acl_data_sent_cb_def tud_bt_event_sent_cb_def)

lemma drop_usb_tail_inv [bridge_inv_intros]: "bridge_inv br \<Longrightarrow> bridge_inv (drop_usb_tail br)"
  by (simp add: bridge_inv_def drop_usb_tail_def)

lemma drop_usb_tail_simps [simp]:
  "bridge_pending (drop_usb_tail br) = bridge_pending br"
  "usb_queue (drop_usb_tail br) = queue_advance (usb_queue br)"
  "bridge_enabled (drop_usb_tail br) = bridge_enabled br"
  by (simp_all add: drop_usb_tail_def bridge_pending_def)

lemma cmd_cb_inv [bridge_inv_intros]:
  assumes "bridge_inv br"
  shows "bridge_inv (tud_bt_hci_cmd_cb cfg cmd br)"
proof -
  let ?r = "usb_bth_bridge_pre_controller_send_quirk cfg br (take (to_u16 (length cmd)) cmd)"
  have "bridge_inv (snd ?r)" using pre_quirk_extends [OF assms] by (simp add: backend_extends_def)
  then show ?thesis
    using assms by (simp add: tud_bt_hci_cmd_cb_def push_usb_inv split_beta)
qed

section \<open>ACL reassembly is correct\<close>

text \<open>The bridge at the start of a loop pass, and when a pass copies instead of dropping.\<close>

definition acl_start :: "bridge \<Rightarrow> bytes \<Rightarrow> bridge" where
  "acl_start br f =
     (if usb_acl_len br = 0 then br\<lparr>usb_acl_expected_len := acl_packet_total_len f\<rparr> else br)"

definition acl_accepts :: "bridge \<Rightarrow> bytes \<Rightarrow> bool" where
  "acl_accepts br f \<longleftrightarrow> f \<noteq> [] \<and>
     (usb_acl_len br = 0 \<longrightarrow> 4 \<le> length f \<and> 4 \<le> acl_packet_total_len f \<and>
        acl_packet_total_len f \<le> length (usb_acl_buf br))"

text \<open>The bridge after \<open>n\<close> more bytes of \<open>f\<close> have been copied, short of completion.\<close>

definition acl_copy :: "bridge \<Rightarrow> bytes \<Rightarrow> bridge" where
  "acl_copy br f =
     br\<lparr>usb_acl_buf := take (usb_acl_len br) (usb_acl_buf br) @ f @
           drop (usb_acl_len br + length f) (usb_acl_buf br),
        usb_acl_len := usb_acl_len br + length f\<rparr>"

definition acl_ready :: "bridge \<Rightarrow> bool" where
  "acl_ready br \<longleftrightarrow> length (usb_acl_buf br) = HCI_ACL_MAX_LEN \<and>
     usb_acl_len br < usb_acl_expected_len br \<and> usb_acl_expected_len br \<le> HCI_ACL_MAX_LEN"

lemma acl_start_ready:
  "bridge_inv br \<Longrightarrow> acl_accepts br f \<Longrightarrow> acl_ready (acl_start br f)"
  by (auto simp: bridge_inv_def acl_accepts_def acl_ready_def acl_start_def)

lemma acl_copy_fields:
  assumes "k \<le> length f" "usb_acl_len br + k \<le> HCI_ACL_MAX_LEN"
    "length (usb_acl_buf br) = HCI_ACL_MAX_LEN"
  shows "memcpy_at (usb_acl_buf br) (usb_acl_len br) (take k f) =
       Some (usb_acl_buf (acl_copy br (take k f)))"
    and "to_u16 (usb_acl_len br + k) = usb_acl_len (acl_copy br (take k f))"
  using assms by (simp_all add: acl_copy_def)

lemma acl_copy_update:
  "br\<lparr>usb_acl_buf := usb_acl_buf (acl_copy br f), usb_acl_len := usb_acl_len (acl_copy br f)\<rparr> =
   acl_copy br f"
  by (simp add: acl_copy_def)

lemma acl_take_eq:
  assumes "acl_ready br"
  shows "acl_take br f =
    (let tk = min (length f) (usb_acl_expected_len br - usb_acl_len br);
         br' = acl_copy br (take tk f)
     in Some (if usb_acl_len br' = usb_acl_expected_len br'
              then usb_bth_bridge_push_completed_acl br' else br', tk))"
proof -
  have r: "to_u16 (usb_acl_expected_len br + 65536 - usb_acl_len br) =
      usb_acl_expected_len br - usb_acl_len br"
  proof -
    have x: "usb_acl_expected_len br + 65536 - usb_acl_len br =
        (usb_acl_expected_len br - usb_acl_len br) + 65536"
      and y: "usb_acl_expected_len br - usb_acl_len br < 65536"
      using assms unfolding acl_ready_def by linarith+
    have "to_u16 ((usb_acl_expected_len br - usb_acl_len br) + 65536) =
        usb_acl_expected_len br - usb_acl_len br"
      using y by (simp only: to_u16_def mod_add_self2 mod_less)
    then show ?thesis unfolding x .
  qed
  have tk: "(if length f < n then length f else n) = min (length f) n" for n
    by (simp add: min_def)
  let ?tk = "min (length f) (usb_acl_expected_len br - usb_acl_len br)"
  have "?tk \<le> length f" "usb_acl_len br + ?tk \<le> HCI_ACL_MAX_LEN"
    "length (usb_acl_buf br) = HCI_ACL_MAX_LEN"
    using assms unfolding acl_ready_def by linarith+
  note m = acl_copy_fields [OF this]
  show ?thesis
    unfolding acl_take_def Let_def r tk m bind.bind_lunit acl_copy_update
    by (simp only: option.inject refl)
qed

lemma acl_fragment_unfold:
  "acl_accepts br f \<Longrightarrow> usb_bth_bridge_acl_out_fragment br f =
     do { (br', tk) \<leftarrow> acl_take (acl_start br f) f;
          usb_bth_bridge_acl_out_fragment br' (drop tk f) }"
  by (subst usb_bth_bridge_acl_out_fragment.simps) (auto simp: acl_accepts_def acl_start_def)

lemma acl_fragment_Nil [simp]: "usb_bth_bridge_acl_out_fragment br [] = Some br"
  by (subst usb_bth_bridge_acl_out_fragment.simps) simp

lemma acl_fragment_drops:
  assumes "f \<noteq> []" "\<not> acl_accepts br f"
  shows "\<exists>br'. usb_bth_bridge_acl_out_fragment br f = Some br' \<and>
     dropped_acl_fragments br' = dropped_acl_fragments br + 1 \<and>
     usb_queue br' = usb_queue br \<and> (bridge_inv br \<longrightarrow> bridge_inv br')"
  using assms by (subst usb_bth_bridge_acl_out_fragment.simps)
    (auto simp: acl_accepts_def usb_bth_bridge_reset_acl_reassembly_def bridge_inv_def)

lemma push_completed_simps [simp]:
  "dropped_acl_fragments (usb_bth_bridge_push_completed_acl br) = dropped_acl_fragments br"
  "usb_acl_len (usb_bth_bridge_push_completed_acl br) = 0"
  "usb_queue (usb_bth_bridge_push_completed_acl br) =
     snd (queue_push (usb_queue br) HCI_PKT_ACL (take (usb_acl_len br) (usb_acl_buf br)))"
  by (simp_all add: usb_bth_bridge_push_completed_acl_def usb_bth_bridge_reset_acl_reassembly_def)

lemma push_completed_inv:
  assumes "queue_inv (usb_queue br)" "queue_inv (backend_queue br)"
    "length (usb_acl_buf br) = HCI_ACL_MAX_LEN"
    "backend_tx_in_flight br \<longrightarrow> queue_contents (backend_queue br) \<noteq> []"
  shows "bridge_inv (usb_bth_bridge_push_completed_acl br)"
  using assms by (simp add: usb_bth_bridge_push_completed_acl_def queue_push_inv
      usb_bth_bridge_reset_acl_reassembly_def bridge_inv_def)

text \<open>One pass: it ends, keeps the invariant, and takes at least one byte.\<close>

lemma acl_pass:
  assumes inv: "bridge_inv br" and acc: "acl_accepts br f"
  shows "\<exists>br' tk. acl_take (acl_start br f) f = Some (br', tk) \<and> bridge_inv br' \<and>
     0 < tk \<and> tk \<le> length f \<and> dropped_acl_fragments br' = dropped_acl_fragments br \<and>
     usb_bth_bridge_acl_out_fragment br f = usb_bth_bridge_acl_out_fragment br' (drop tk f)"
proof -
  let ?s = "acl_start br f"
  let ?tk = "min (length f) (usb_acl_expected_len ?s - usb_acl_len ?s)"
  let ?c = "acl_copy ?s (take ?tk f)"
  let ?b = "if usb_acl_len ?c = usb_acl_expected_len ?c
            then usb_bth_bridge_push_completed_acl ?c else ?c"
  have ready: "acl_ready ?s" by (rule acl_start_ready [OF inv acc])
  have t: "acl_take ?s f = Some (?b, ?tk)" using acl_take_eq [OF ready, of f] by simp
  have pos: "0 < ?tk" using ready acc by (auto simp: acl_ready_def acl_accepts_def)
  have c: "queue_inv (usb_queue ?c)" "queue_inv (backend_queue ?c)"
    "length (usb_acl_buf ?c) = HCI_ACL_MAX_LEN"
    "backend_tx_in_flight ?c \<longrightarrow> queue_contents (backend_queue ?c) \<noteq> []"
    "dropped_acl_fragments ?c = dropped_acl_fragments br"
    "usb_acl_len ?c \<le> usb_acl_expected_len ?c" "usb_acl_expected_len ?c \<le> HCI_ACL_MAX_LEN"
    using inv ready by (auto simp: bridge_inv_def acl_copy_def acl_start_def acl_ready_def)
  have "bridge_inv ?b"
  proof (cases "usb_acl_len ?c = usb_acl_expected_len ?c")
    case True
    then show ?thesis using push_completed_inv [OF c(1-4)] by simp
  next
    case False
    then show ?thesis using c by (simp add: bridge_inv_def)
  qed
  moreover have "usb_bth_bridge_acl_out_fragment br f =
      usb_bth_bridge_acl_out_fragment ?b (drop ?tk f)"
    by (simp add: acl_fragment_unfold [OF acc] t)
  moreover have "dropped_acl_fragments ?b = dropped_acl_fragments br" using c by simp
  moreover have "?tk \<le> length f" by simp
  ultimately show ?thesis using t pos by blast
qed

lemma acl_fragment_total:
  "bridge_inv br \<Longrightarrow> \<exists>br'. usb_bth_bridge_acl_out_fragment br f = Some br' \<and> bridge_inv br'"
proof (induction f arbitrary: br rule: length_induct)
  case (1 f)
  show ?case
  proof (cases "f = []")
    case True
    with 1 show ?thesis by simp
  next
    case ne: False
    show ?thesis
    proof (cases "acl_accepts br f")
      case True
      from acl_pass [OF "1.prems" True] obtain br' tk where
        s: "bridge_inv br'" "0 < tk" "tk \<le> length f"
          "usb_bth_bridge_acl_out_fragment br f = usb_bth_bridge_acl_out_fragment br' (drop tk f)"
        by blast
      have "length (drop tk f) < length f" using s(2,3) by simp
      with "1.IH" s show ?thesis by metis
    next
      case False
      with acl_fragment_drops [OF ne False] "1.prems" show ?thesis by blast
    qed
  qed
qed

lemma acl_take_enabled: "acl_take br f = Some (br', tk) \<Longrightarrow> bridge_enabled br' = bridge_enabled br"
  by (auto simp: acl_take_def usb_bth_bridge_push_completed_acl_def usb_bth_bridge_reset_acl_reassembly_def
      split: bind_splits if_splits)

lemma acl_fragment_enabled:
  assumes "usb_bth_bridge_acl_out_fragment br f = Some br'"
  shows "bridge_enabled br' = bridge_enabled br"
proof (rule usb_bth_bridge_acl_out_fragment.raw_induct
    [where P = "\<lambda>br f br'. bridge_enabled br' = bridge_enabled br", OF _ assms], goal_cases)
  case (1 rec br f br')
  show ?case
  proof (cases "f = [] \<or> usb_acl_len br = 0 \<and> (length f < 4 \<or>
      acl_packet_total_len f < 4 \<or> acl_packet_total_len f > length (usb_acl_buf br))")
    case True
    with 1(2) show ?thesis
      by (auto simp: usb_bth_bridge_reset_acl_reassembly_def split: if_splits)
  next
    case False
    with 1(2) obtain br1 tk where
      a: "acl_take (if usb_acl_len br = 0 then br\<lparr>usb_acl_expected_len := acl_packet_total_len f\<rparr> else br) f =
        Some (br1, tk)" and r: "rec br1 (drop tk f) = Some br'"
      by (auto split: if_splits bind_splits)
    from 1(1) [OF r] acl_take_enabled [OF a] show ?thesis by (simp split: if_splits)
  qed
qed

text \<open>ACL reassembly terminates and is memory safe. For every state of the bridge that
  satisfies its invariant and every USB transfer, of any length and content, the loop of
  \<open>usb_bth_bridge_acl_out_fragment\<close> ends, every copy stays inside \<open>usb_acl_buf\<close>, and
  the invariant holds again (queues well-formed, reassembly position below the expected
  length, expected length at most 2048).\<close>

theorem acl_out_fragment_safe:
  assumes "bridge_inv br"
  shows "\<exists>br'. usb_bth_bridge_acl_out_fragment br fragment = Some br' \<and> bridge_inv br'"
  using acl_fragment_total [OF assms] .

theorem acl_out_fragment_safe_witness:
  "\<exists>br'. usb_bth_bridge_acl_out_fragment bridge_boot [1, 0, 2, 0, 9] = Some br' \<and> bridge_inv br'"
  by (rule acl_out_fragment_safe) simp

text \<open>A partial copy followed by another is one copy of both.\<close>

lemma acl_copy_append:
  assumes "usb_acl_len br + length f + length g \<le> length (usb_acl_buf br)"
  shows "acl_copy (acl_copy br f) g = acl_copy br (f @ g)"
proof -
  have "drop (usb_acl_len br + length f + length g)
      (take (usb_acl_len br) (usb_acl_buf br) @ f @ drop (usb_acl_len br + length f) (usb_acl_buf br))
    = drop (usb_acl_len br + (length f + length g)) (usb_acl_buf br)"
    using assms by (simp add: ac_simps)
  then show ?thesis using assms by (simp add: acl_copy_def ac_simps)
qed

lemma acl_total_len_append:
  "4 \<le> length f \<Longrightarrow> acl_packet_total_len (f @ g) = acl_packet_total_len f"
  by (simp add: acl_packet_total_len_def nth_append)

text \<open>
  A transfer that ends inside a packet: the rest may come in the same transfer or in the
  next one.
\<close>

lemma acl_split_inside:
  assumes inv: "bridge_inv br" and acc: "acl_accepts br f" and g: "g \<noteq> []"
    and short: "usb_acl_len (acl_start br f) + length f < usb_acl_expected_len (acl_start br f)"
  shows "usb_bth_bridge_acl_out_fragment br (f @ g) =
    usb_bth_bridge_acl_out_fragment (acl_copy (acl_start br f) f) g"
proof -
  let ?s = "acl_start br f" and ?c = "acl_copy (acl_start br f) f"
  let ?n = "usb_acl_expected_len (acl_start br f) - usb_acl_len (acl_start br f)"
  have start: "acl_start br (f @ g) = ?s"
    using acc acl_total_len_append [of f g] by (auto simp: acl_start_def acl_accepts_def)
  have acc2: "acl_accepts br (f @ g)"
    using acc acl_total_len_append [of f g] by (auto simp: acl_accepts_def)
  have ready: "acl_ready ?s" by (rule acl_start_ready [OF inv acc])
  have ready': "acl_ready ?c" and len': "usb_acl_len ?c = usb_acl_len ?s + length f"
    and exp': "usb_acl_expected_len ?c = usb_acl_expected_len ?s"
    using ready short by (auto simp: acl_ready_def acl_copy_def)
  have pos: "0 < length f" using acc by (simp add: acl_accepts_def)
  have start': "acl_start ?c g = ?c" using len' pos by (simp add: acl_start_def)
  have acc': "acl_accepts ?c g" using len' pos g by (simp add: acl_accepts_def)
  let ?k = "min (length g) (?n - length f)"
  have tk: "min (length (f @ g)) ?n = length f + ?k" using short by simp
  have tk': "min (length g) (usb_acl_expected_len ?c - usb_acl_len ?c) = ?k"
    using len' exp' by simp
  have "usb_acl_len ?s + length f + length (take ?k g) \<le> length (usb_acl_buf ?s)"
    using ready short by (auto simp: acl_ready_def)
  from acl_copy_append [OF this]
  have copy: "acl_copy ?s (take (length f + ?k) (f @ g)) = acl_copy ?c (take ?k g)"
    by simp
  have t1: "acl_take ?s (f @ g) = Some
      (if usb_acl_len (acl_copy ?c (take ?k g)) = usb_acl_expected_len (acl_copy ?c (take ?k g))
       then usb_bth_bridge_push_completed_acl (acl_copy ?c (take ?k g))
       else acl_copy ?c (take ?k g), length f + ?k)"
    unfolding acl_take_eq [OF ready] Let_def tk copy ..
  have t2: "acl_take ?c g = Some
      (if usb_acl_len (acl_copy ?c (take ?k g)) = usb_acl_expected_len (acl_copy ?c (take ?k g))
       then usb_bth_bridge_push_completed_acl (acl_copy ?c (take ?k g))
       else acl_copy ?c (take ?k g), ?k)"
    unfolding acl_take_eq [OF ready'] Let_def tk' ..
  show ?thesis
    unfolding acl_fragment_unfold [OF acc2] acl_fragment_unfold [OF acc'] start start' t1 t2
    by simp
qed

lemma acl_fragment_split:
  assumes "bridge_inv br"
    and "usb_bth_bridge_acl_out_fragment br f = Some br'"
    and "dropped_acl_fragments br' = dropped_acl_fragments br"
  shows "usb_bth_bridge_acl_out_fragment br (f @ g) = usb_bth_bridge_acl_out_fragment br' g"
  using assms
proof (induction f arbitrary: br rule: length_induct)
  case (1 f)
  show ?case
  proof (cases "f = [] \<or> g = []")
    case True
    with 1 show ?thesis by auto
  next
    case ne: False
    have acc: "acl_accepts br f"
    proof (rule ccontr)
      assume "\<not> acl_accepts br f"
      with ne acl_fragment_drops [of f br] "1.prems"(2,3) show False by auto
    qed
    let ?s = "acl_start br f"
    have ready: "acl_ready ?s" by (rule acl_start_ready [OF "1.prems"(1) acc])
    show ?thesis
    proof (cases "usb_acl_len ?s + length f < usb_acl_expected_len ?s")
      case True
      have "acl_take ?s f = Some (acl_copy ?s f, length f)"
        using True acl_take_eq [OF ready, of f] by (simp add: acl_copy_def)
      then have "br' = acl_copy ?s f"
        using "1.prems"(2) by (simp add: acl_fragment_unfold [OF acc])
      with acl_split_inside [OF "1.prems"(1) acc _ True] ne show ?thesis by simp
    next
      case False
      let ?n = "usb_acl_expected_len ?s - usb_acl_len ?s"
      from acl_pass [OF "1.prems"(1) acc] obtain b tk where
        p: "acl_take ?s f = Some (b, tk)" "bridge_inv b" "0 < tk" "tk \<le> length f"
          "dropped_acl_fragments b = dropped_acl_fragments br"
          "usb_bth_bridge_acl_out_fragment br f = usb_bth_bridge_acl_out_fragment b (drop tk f)"
        by blast
      have tk: "tk = ?n" using p(1) False acl_take_eq [OF ready, of f] by auto
      have acc2: "acl_accepts br (f @ g)" and start: "acl_start br (f @ g) = ?s"
        using acc acl_total_len_append [of f g] by (auto simp: acl_accepts_def acl_start_def)
      have "min (length (f @ g)) ?n = ?n" "min (length f) ?n = ?n" "take ?n (f @ g) = take ?n f"
        using False by auto
      then have "acl_take ?s (f @ g) = acl_take ?s f"
        unfolding acl_take_eq [OF ready] Let_def by metis
      then have "usb_bth_bridge_acl_out_fragment br (f @ g) =
          usb_bth_bridge_acl_out_fragment b (drop tk f @ g)"
        using p(4) by (simp add: acl_fragment_unfold [OF acc2] start p(1))
      moreover have "length (drop tk f) < length f" using p(3,4) by simp
      ultimately show ?thesis
        using "1.IH" p(2,5,6) "1.prems"(2,3) by metis
    qed
  qed
qed

text \<open>USB transfer boundaries do not matter. When a run of ACL bytes has been
  processed without dropping anything, processing it together with the bytes that follow is
  the same as processing those in a later transfer: the host may cut the ACL stream into
  transfers anywhere except inside the first four bytes of a packet.\<close>

theorem acl_out_fragment_split:
  assumes "bridge_inv br"
    and "usb_bth_bridge_acl_out_fragment br f = Some br'"
    and "dropped_acl_fragments br' = dropped_acl_fragments br"
  shows "usb_bth_bridge_acl_out_fragment br (f @ g) = usb_bth_bridge_acl_out_fragment br' g"
  using assms by (rule acl_fragment_split)

theorem acl_out_fragment_split_witness:
  "\<exists>br'. usb_bth_bridge_acl_out_fragment bridge_boot [1, 0, 2, 0, 9] = Some br' \<and>
     dropped_acl_fragments br' = 0 \<and>
     usb_bth_bridge_acl_out_fragment bridge_boot ([1, 0, 2, 0, 9] @ [8]) =
     usb_bth_bridge_acl_out_fragment br' [8]"
proof -
  have acc: "acl_accepts bridge_boot [1, 0, 2, 0, 9]"
    by (simp add: acl_accepts_def acl_packet_total_len_def bridge_boot_def)
  have ready: "acl_ready (acl_start bridge_boot [1, 0, 2, 0, 9])"
    by (rule acl_start_ready [OF bridge_boot_inv acc])
  have run: "usb_bth_bridge_acl_out_fragment bridge_boot [1, 0, 2, 0, 9] =
      Some (acl_copy (acl_start bridge_boot [1, 0, 2, 0, 9]) [1, 0, 2, 0, 9])"
    by (simp add: acl_fragment_unfold [OF acc] acl_take_eq [OF ready])
      (simp add: acl_copy_def acl_start_def acl_packet_total_len_def bridge_boot_def)
  have "dropped_acl_fragments (acl_copy (acl_start bridge_boot [1, 0, 2, 0, 9]) [1, 0, 2, 0, 9])
      = dropped_acl_fragments bridge_boot"
    by (simp add: acl_copy_def acl_start_def)
  from acl_out_fragment_split [OF bridge_boot_inv run this, of "[8]"] run this
  show ?thesis by (simp add: bridge_boot_def)
qed

text \<open>A well-formed ACL packet: the length field of its header is the number of bytes that
  follow, and it fits the reassembly buffer.\<close>

definition acl_whole :: "bytes \<Rightarrow> bool" where
  "acl_whole pkt \<longleftrightarrow> 4 \<le> length pkt \<and> length pkt \<le> HCI_ACL_MAX_LEN \<and>
     length pkt = 4 + unat (le16 (pkt ! 2) (pkt ! 3))"

lemma acl_whole_total: "acl_whole pkt \<Longrightarrow> acl_packet_total_len pkt = length pkt"
  by (auto simp: acl_whole_def acl_packet_total_len_def unat_le16)

lemma acl_fragment_whole:
  assumes inv: "bridge_inv br" and idle: "usb_acl_len br = 0" and pkt: "acl_whole pkt"
  shows "\<exists>br'. usb_bth_bridge_acl_out_fragment br pkt = Some br' \<and> bridge_inv br' \<and>
     usb_acl_len br' = 0 \<and> dropped_acl_fragments br' = dropped_acl_fragments br \<and>
     usb_queue br' = snd (queue_push (usb_queue br) HCI_PKT_ACL pkt)"
proof -
  have len: "4 \<le> length pkt" "length pkt \<le> HCI_ACL_MAX_LEN" using pkt by (simp_all add: acl_whole_def)
  have buf: "length (usb_acl_buf br) = HCI_ACL_MAX_LEN" using inv by (simp add: bridge_inv_def)
  have acc: "acl_accepts br pkt"
    using len buf acl_whole_total [OF pkt] by (auto simp: acl_accepts_def)
  let ?s = "acl_start br pkt"
  have ready: "acl_ready ?s" by (rule acl_start_ready [OF inv acc])
  have s: "usb_acl_len ?s = 0" "usb_acl_expected_len ?s = length pkt"
    using idle acl_whole_total [OF pkt] by (simp_all add: acl_start_def)
  have t: "acl_take ?s pkt = Some (usb_bth_bridge_push_completed_acl (acl_copy ?s pkt), length pkt)"
    using acl_take_eq [OF ready, of pkt] s by (simp add: acl_copy_def)
  have run: "usb_bth_bridge_acl_out_fragment br pkt =
      Some (usb_bth_bridge_push_completed_acl (acl_copy ?s pkt))"
    by (simp add: acl_fragment_unfold [OF acc] t)
  moreover have "bridge_inv (usb_bth_bridge_push_completed_acl (acl_copy ?s pkt))"
    using acl_fragment_total [OF inv, of pkt] run by simp
  moreover have "usb_queue (usb_bth_bridge_push_completed_acl (acl_copy ?s pkt)) =
      snd (queue_push (usb_queue br) HCI_PKT_ACL pkt)"
    using s idle by (simp add: acl_copy_def) (simp add: acl_start_def)
  moreover have "dropped_acl_fragments (usb_bth_bridge_push_completed_acl (acl_copy ?s pkt)) =
      dropped_acl_fragments br"
    by (simp add: acl_copy_def acl_start_def)
  ultimately show ?thesis by simp
qed

lemma acl_fragment_packets:
  assumes "bridge_inv br" "usb_acl_len br = 0" "\<forall>pkt \<in> set pkts. acl_whole pkt"
  shows "\<exists>br'. usb_bth_bridge_acl_out_fragment br (concat pkts) = Some br' \<and> bridge_inv br' \<and>
     usb_acl_len br' = 0 \<and> dropped_acl_fragments br' = dropped_acl_fragments br \<and>
     queue_contents (usb_queue br') = queue_contents (usb_queue br) @
       take (31 - length (queue_contents (usb_queue br))) (map (Pair HCI_PKT_ACL) pkts)"
  using assms
proof (induction pkts arbitrary: br)
  case Nil
  then show ?case by simp
next
  case (Cons pkt pkts)
  have whole: "acl_whole pkt" and rest: "\<forall>pkt \<in> set pkts. acl_whole pkt"
    using Cons.prems by auto
  from acl_fragment_whole [OF Cons.prems(1,2) whole] obtain b where
    b: "usb_bth_bridge_acl_out_fragment br pkt = Some b" "bridge_inv b" "usb_acl_len b = 0"
      "dropped_acl_fragments b = dropped_acl_fragments br"
      "usb_queue b = snd (queue_push (usb_queue br) HCI_PKT_ACL pkt)" by blast
  let ?q = "queue_contents (usb_queue br)"
  have q: "queue_inv (usb_queue br)" using Cons.prems(1) by (simp add: bridge_inv_def)
  have c: "queue_contents (usb_queue b) = ?q @ (if length ?q < 31 then [(HCI_PKT_ACL, pkt)] else [])"
    using b(5) queue_push_contents [OF q] queue_push_flag [OF q] whole by (simp add: acl_whole_def)
  have le: "length ?q \<le> 31" by (rule queue_bound [OF q])
  from Cons.IH [OF b(2,3) rest] obtain br' where
    r: "usb_bth_bridge_acl_out_fragment b (concat pkts) = Some br'" "bridge_inv br'"
      "usb_acl_len br' = 0" "dropped_acl_fragments br' = dropped_acl_fragments b"
      "queue_contents (usb_queue br') = queue_contents (usb_queue b) @
         take (31 - length (queue_contents (usb_queue b))) (map (Pair HCI_PKT_ACL) pkts)" by blast
  have "usb_bth_bridge_acl_out_fragment br (concat (pkt # pkts)) = Some br'"
    using acl_fragment_split [OF Cons.prems(1) b(1,4), of "concat pkts"] r(1) by simp
  moreover have "queue_contents (usb_queue br') =
      ?q @ take (31 - length ?q) (map (Pair HCI_PKT_ACL) (pkt # pkts))"
  proof (cases "length ?q < 31")
    case True
    then obtain k where k: "31 - length ?q = Suc k" by (metis zero_less_diff gr0_implies_Suc)
    then have "31 - Suc (length ?q) = k" by arith
    with True k c r(5) show ?thesis by simp
  next
    case False
    with le have "length ?q = 31" by simp
    with False c r(5) show ?thesis by simp
  qed
  ultimately show ?case using r b(4) by auto
qed



section \<open>The task keeps the order of both directions\<close>

text \<open>
  What a transport's \<open>send\<close> may do to the bridge: call the receive callback, which
  queues packets for USB; it never touches the host-to-controller queue.
\<close>

definition send_frames ::
    "(hci_packet_type \<Rightarrow> bytes \<Rightarrow> bridge \<times> 'w \<Rightarrow> bool \<times> bridge \<times> 'w) \<Rightarrow> bool" where
  "send_frames send \<longleftrightarrow>
     (\<forall>t pkt br w. bridge_inv br \<longrightarrow> backend_extends br (fst (snd (send t pkt (br, w)))))"

text \<open>The commands that are answered by the firmware and never reach the controller.\<close>

definition intercepted :: "build_config \<Rightarrow> hci_packet_type \<times> bytes \<Rightarrow> bool" where
  "intercepted cfg x \<longleftrightarrow> fst x = HCI_PKT_COMMAND \<and> backend_is_cyw43 cfg \<and>
     hci_command_opcode_is (snd x) HCI_OPCODE_READ_LOCAL_EXTENDED_FEATURES"

definition to_controller :: "build_config \<Rightarrow> (hci_packet_type \<times> bytes) list
    \<Rightarrow> (hci_packet_type \<times> bytes) list" where
  "to_controller cfg = filter (\<lambda>x. \<not> intercepted cfg x)"

lemma pre_quirk_intercepted:
  "fst (usb_bth_bridge_pre_controller_send_quirk cfg br pkt) \<longleftrightarrow> intercepted cfg (HCI_PKT_COMMAND, pkt)"
  by (simp add: usb_bth_bridge_pre_controller_send_quirk_def intercepted_def split_beta)

text \<open>A world that records the packets taken by USB and those taken by the controller.\<close>

type_synonym bridge_log =
  "(hci_packet_type \<times> bytes) list \<times> (hci_packet_type \<times> bytes) list"

definition logging_env :: "bridge_log bridge_env \<Rightarrow> bool" where
  "logging_env env \<longleftrightarrow>
     (\<forall>pkt u c. \<exists>ok. tud_bt_event_send env pkt (u, c) =
        (ok, if ok then u @ [(HCI_PKT_EVENT, pkt)] else u, c)) \<and>
     (\<forall>pkt u c. \<exists>ok. tud_bt_acl_data_send env pkt (u, c) =
        (ok, if ok then u @ [(HCI_PKT_ACL, pkt)] else u, c)) \<and>
     (\<forall>send. transport_send env = Some send \<longrightarrow> send_frames send \<and>
        (\<forall>t pkt br u c. snd (snd (send t pkt (br, (u, c)))) =
           (u, if fst (send t pkt (br, (u, c))) then c @ [(t, pkt)] else c)))"

lemma bridge_drain_unfold:
  assumes "queue_contents (usb_queue br) = (t, pkt) # rest" "bridge_inv br"
  shows "bridge_drain_usb cfg env br w =
    (if intercepted cfg (t, pkt)
     then bridge_drain_usb cfg env
            (drop_usb_tail (snd (usb_bth_bridge_pre_controller_send_quirk cfg br pkt))) w
     else (case transport_send env of
         None \<Rightarrow> Some (br, w)
       | Some send \<Rightarrow>
           (case send t pkt (br, w) of (ok, br', w') \<Rightarrow>
              if \<not> ok then Some (br', w')
              else bridge_drain_usb cfg env
                (drop_usb_tail
                  (if t = HCI_PKT_COMMAND
                   then usb_bth_bridge_after_controller_send_quirk cfg br' pkt else br')) w')))"
proof -
  have "item_packet (queue_front (usb_queue br)) = (t, pkt)" "\<not> queue_empty (usb_queue br)"
    using assms queue_front_packet [of "usb_queue br"] queue_empty_iff [of "usb_queue br"]
    by (simp_all add: bridge_inv_def)
  moreover have "(t = HCI_PKT_COMMAND \<and>
      fst (usb_bth_bridge_pre_controller_send_quirk cfg br pkt)) = intercepted cfg (t, pkt)"
    by (auto simp: pre_quirk_intercepted intercepted_def)
  ultimately show ?thesis by (subst bridge_drain_usb.simps) simp
qed

lemma bridge_drain_empty:
  "queue_contents (usb_queue br) = [] \<Longrightarrow> bridge_inv br \<Longrightarrow>
   bridge_drain_usb cfg env br w = Some (br, w)"
  by (subst bridge_drain_usb.simps) (simp add: queue_empty_iff bridge_inv_def)

lemma drop_usb_tail_extends:
  assumes "backend_extends br br'" and "queue_contents (usb_queue br) = x # rest" and "bridge_inv br"
  shows "bridge_inv (drop_usb_tail br')" "queue_contents (usb_queue (drop_usb_tail br')) = rest"
    "\<exists>new. bridge_pending (drop_usb_tail br') = bridge_pending br @ new"
proof -
  have b: "bridge_inv br'" "usb_queue br' = usb_queue br"
    "\<exists>new. bridge_pending br' = bridge_pending br @ new"
    using assms(1) by (simp_all add: backend_extends_def)
  have "queue_inv (usb_queue br)" using assms(3) by (simp add: bridge_inv_def)
  then show "queue_contents (usb_queue (drop_usb_tail br')) = rest" using b(2) assms(2) by simp
  show "bridge_inv (drop_usb_tail br')" by (rule drop_usb_tail_inv [OF b(1)])
  show "\<exists>new. bridge_pending (drop_usb_tail br') = bridge_pending br @ new" using b(3) by simp
qed

lemma bridge_drain_order:
  assumes "logging_env env" and "bridge_inv br"
  shows "\<exists>br' c' sent new. bridge_drain_usb cfg env br (u, c) = Some (br', (u, c')) \<and>
     bridge_inv br' \<and> queue_contents (usb_queue br) = sent @ queue_contents (usb_queue br') \<and>
     c' = c @ to_controller cfg sent \<and> bridge_pending br' = bridge_pending br @ new"
  using assms(2)
proof (induction "queue_contents (usb_queue br)" arbitrary: br c)
  case Nil
  then have "bridge_drain_usb cfg env br (u, c) = Some (br, (u, c))"
    using bridge_drain_empty by metis
  then show ?case using Nil by (intro exI [of _ br] exI [of _ c] exI [of _ "[]"]) (simp add: to_controller_def)
next
  case (Cons x rest)
  obtain t pkt where x: "x = (t, pkt)" by (cases x)
  have q: "queue_contents (usb_queue br) = (t, pkt) # rest" using Cons.hyps(2) x by simp
  note unfold = bridge_drain_unfold [OF q Cons.prems, of cfg env "(u, c)"]
  have go: "?case" if b: "backend_extends br b"
    and run: "bridge_drain_usb cfg env br (u, c) = bridge_drain_usb cfg env (drop_usb_tail b) (u, c1)"
    and c1: "c1 = c @ to_controller cfg [(t, pkt)]" for b c1
  proof -
    from drop_usb_tail_extends [OF b q Cons.prems] obtain new0 where
      d: "bridge_inv (drop_usb_tail b)" "queue_contents (usb_queue (drop_usb_tail b)) = rest"
        "bridge_pending (drop_usb_tail b) = bridge_pending br @ new0" by blast
    from Cons.hyps(1) [OF d(2) [symmetric] d(1), of c1] obtain br' c' sent new where
      r: "bridge_drain_usb cfg env (drop_usb_tail b) (u, c1) = Some (br', (u, c'))" "bridge_inv br'"
        "rest = sent @ queue_contents (usb_queue br')" "c' = c1 @ to_controller cfg sent"
        "bridge_pending br' = bridge_pending (drop_usb_tail b) @ new"
      using d(2) by auto
    show ?thesis
      using r run c1 q d(3)
      by (intro exI [of _ br'] exI [of _ c'] exI [of _ "(t, pkt) # sent"] exI [of _ "new0 @ new"])
        (simp add: to_controller_def)
  qed
  show ?case
  proof (cases "intercepted cfg (t, pkt)")
    case True
    show ?thesis
      by (rule go [OF pre_quirk_extends [OF Cons.prems, of cfg pkt]])
        (use True unfold in \<open>simp_all add: to_controller_def\<close>)
  next
    case not: False
    show ?thesis
    proof (cases "transport_send env")
      case None
      with unfold not Cons.prems show ?thesis
        by (intro exI [of _ br] exI [of _ c] exI [of _ "[]"]) (simp add: to_controller_def)
    next
      case (Some send)
      obtain ok b w where s: "send t pkt (br, (u, c)) = (ok, b, w)"
        by (cases "send t pkt (br, (u, c))")
      have b: "backend_extends br b"
        using assms(1) Some s Cons.prems unfolding logging_env_def send_frames_def
        by (metis fst_conv snd_conv)
      have w: "w = (u, if ok then c @ [(t, pkt)] else c)"
        using assms(1) Some s unfolding logging_env_def by (metis fst_conv snd_conv)
      show ?thesis
      proof (cases ok)
        case True
        let ?b = "if t = HCI_PKT_COMMAND then usb_bth_bridge_after_controller_send_quirk cfg b pkt else b"
        have "backend_extends br ?b"
          using b after_quirk_extends [of b cfg pkt] backend_extends_trans
          by (auto simp: backend_extends_def)
        then show ?thesis
          by (rule go) (use True unfold not Some s w in \<open>simp_all add: to_controller_def\<close>)
      next
        case False
        with unfold not Some s w b show ?thesis
          by (auto simp: backend_extends_def to_controller_def)
      qed
    qed
  qed
qed

text \<open>Handing the head of the backend queue to USB.\<close>

lemma bridge_send_backend_order:
  assumes env: "logging_env env" and inv: "bridge_inv br"
  shows "\<exists>br' u'. bridge_send_backend env br (u, c) = (br', (u', c)) \<and> bridge_inv br' \<and>
     u' @ bridge_pending br' = u @ bridge_pending br \<and> usb_queue br' = usb_queue br \<and>
     (u' = u \<or> (\<exists>x. u' = u @ [x] \<and> backend_tx_in_flight br'))"
proof (cases "\<not> backend_tx_in_flight br \<and> \<not> queue_empty (backend_queue br)")
  case False
  then have "bridge_send_backend env br (u, c) = (br, (u, c))"
    by (auto simp: bridge_send_backend_def)
  with inv show ?thesis by simp
next
  case True
  have q: "queue_inv (backend_queue br)" using inv by (simp add: bridge_inv_def)
  obtain t pkt where front: "item_packet (queue_front (backend_queue br)) = (t, pkt)"
    by (cases "item_packet (queue_front (backend_queue br))")
  have contents: "queue_contents (backend_queue br) =
      (t, pkt) # tl (queue_contents (backend_queue br))"
    using queue_front_contents [OF q] True front by simp
  have pend: "bridge_pending br = (t, pkt) # tl (queue_contents (backend_queue br))"
    using True contents by (simp add: bridge_pending_def)
  obtain ok u' where s: "(if t = HCI_PKT_EVENT then tud_bt_event_send env pkt (u, c)
       else if t = HCI_PKT_ACL then tud_bt_acl_data_send env pkt (u, c) else (False, (u, c)))
     = (ok, (u', c))" and u': "u' = (if ok then u @ [(t, pkt)] else u)"
    using env unfolding logging_env_def by (cases t) (fastforce split: if_splits)+
  let ?br' = "if ok then br\<lparr>backend_tx_in_flight := ok, backend_tx_started_ms := sent_ms env\<rparr>
     else br\<lparr>backend_tx_in_flight := ok\<rparr>"
  have "bridge_send_backend env br (u, c) = (?br', (u', c))"
    using True front s by (simp add: bridge_send_backend_def)
  moreover have "bridge_inv ?br'" using inv contents by (auto simp: bridge_inv_def)
  moreover have "u' @ bridge_pending ?br' = u @ bridge_pending br"
    using u' pend True contents by (simp add: bridge_pending_def)
  ultimately show ?thesis using u' by (cases ok) auto
qed

lemma bridge_task_order:
  assumes env: "logging_env env" and inv: "bridge_inv br"
  shows "\<exists>br' u' c' sent new. usb_bth_bridge_task cfg env br (u, c) = Some (br', (u', c')) \<and>
     bridge_inv br' \<and> queue_contents (usb_queue br) = sent @ queue_contents (usb_queue br') \<and>
     c' = c @ to_controller cfg sent \<and> u' @ bridge_pending br' = u @ bridge_pending br @ new \<and>
     (u' = u \<or> (\<exists>x. u' = u @ [x] \<and> backend_tx_in_flight br'))"
proof (cases "\<not> bridge_enabled br \<or> \<not> tud_ready env")
  case True
  with inv show ?thesis
    by (intro exI [of _ br] exI [of _ u] exI [of _ c] exI [of _ "[]"])
      (simp add: usb_bth_bridge_task_def to_controller_def)
next
  case False
  let ?b0 = "bridge_tx_timeout (now_ms env) br"
  note t = bridge_tx_timeout_ok [OF inv, of "now_ms env"]
  from bridge_drain_order [OF env t(1), of cfg u c] obtain b c' sent new where
    d: "bridge_drain_usb cfg env ?b0 (u, c) = Some (b, (u, c'))" "bridge_inv b"
      "queue_contents (usb_queue ?b0) = sent @ queue_contents (usb_queue b)"
      "c' = c @ to_controller cfg sent" "bridge_pending b = bridge_pending ?b0 @ new" by blast
  from bridge_send_backend_order [OF env d(2), of u c'] obtain br' u' where
    s: "bridge_send_backend env b (u, c') = (br', (u', c'))" "bridge_inv br'"
      "u' @ bridge_pending br' = u @ bridge_pending b" "usb_queue br' = usb_queue b"
      "u' = u \<or> (\<exists>x. u' = u @ [x] \<and> backend_tx_in_flight br')" by blast
  have "usb_bth_bridge_task cfg env br (u, c) = Some (br', (u', c'))"
    using False d(1) s(1) by (simp add: usb_bth_bridge_task_def)
  with s d t show ?thesis
    by (intro exI [of _ br'] exI [of _ u'] exI [of _ c'] exI [of _ sent] exI [of _ new]) simp
qed

text \<open>
  The task with a client's own world: it ends, and what its environment keeps of the world is
  kept.
\<close>

definition env_keeps :: "('w \<Rightarrow> bool) \<Rightarrow> 'w bridge_env \<Rightarrow> bool" where
  "env_keeps W env \<longleftrightarrow>
     (\<forall>pkt w. W w \<longrightarrow> W (snd (tud_bt_event_send env pkt w)) \<and> W (snd (tud_bt_acl_data_send env pkt w))) \<and>
     (\<forall>send. transport_send env = Some send \<longrightarrow>
        (\<forall>t pkt br w. bridge_inv br \<and> W w \<longrightarrow>
           backend_extends br (fst (snd (send t pkt (br, w)))) \<and> W (snd (snd (send t pkt (br, w))))))"

lemma bridge_drain_returns:
  assumes env: "env_keeps W env" and "bridge_inv br" "W w"
  shows "\<exists>br' w'. bridge_drain_usb cfg env br w = Some (br', w') \<and> bridge_inv br' \<and> W w' \<and>
    bridge_enabled br' = bridge_enabled br"
  using assms(2,3)
proof (induction "queue_contents (usb_queue br)" arbitrary: br w)
  case Nil
  then show ?case using bridge_drain_empty [of br cfg env w] by simp
next
  case (Cons x rest)
  obtain t pkt where x: "x = (t, pkt)" by (cases x)
  have q: "queue_contents (usb_queue br) = (t, pkt) # rest" using Cons.hyps(2) x by simp
  note unfold = bridge_drain_unfold [OF q Cons.prems(1), of cfg env w]
  have go: ?case if b: "backend_extends br b" and w1: "W w1"
    and run: "bridge_drain_usb cfg env br w = bridge_drain_usb cfg env (drop_usb_tail b) w1" for b w1
  proof -
    note d = drop_usb_tail_extends [OF b q Cons.prems(1)]
    from Cons.hyps(1) [OF d(2) [symmetric] d(1) w1] obtain br' w' where
      "bridge_drain_usb cfg env (drop_usb_tail b) w1 = Some (br', w')" "bridge_inv br'" "W w'"
      "bridge_enabled br' = bridge_enabled (drop_usb_tail b)" by blast
    with run b show ?thesis by (simp add: backend_extends_def)
  qed
  show ?case
  proof (cases "intercepted cfg (t, pkt)")
    case True
    show ?thesis
      by (rule go [OF pre_quirk_extends [OF Cons.prems(1), of cfg pkt] Cons.prems(2)])
         (use True unfold in simp)
  next
    case not: False
    show ?thesis
    proof (cases "transport_send env")
      case None
      with unfold not Cons.prems show ?thesis by simp
    next
      case (Some send)
      obtain ok b w1 where s: "send t pkt (br, w) = (ok, b, w1)" by (metis prod_cases3)
      have "backend_extends br (fst (snd (send t pkt (br, w)))) \<and> W (snd (snd (send t pkt (br, w))))"
        using env Some Cons.prems unfolding env_keeps_def by blast
      then have b: "backend_extends br b" "W w1" by (simp_all add: s)
      show ?thesis
      proof (cases ok)
        case True
        let ?b = "if t = HCI_PKT_COMMAND then usb_bth_bridge_after_controller_send_quirk cfg b pkt else b"
        have "backend_extends br ?b"
          using b(1) after_quirk_extends [of b cfg pkt] backend_extends_trans
          by (auto simp: backend_extends_def)
        then show ?thesis
          by (rule go [OF _ b(2)]) (use True unfold not Some s in simp)
      next
        case False
        with unfold not Some s b show ?thesis by (auto simp: backend_extends_def)
      qed
    qed
  qed
qed

lemma bridge_send_backend_keeps:
  assumes env: "env_keeps W env" and inv: "bridge_inv br" and w: "W w"
  shows "bridge_inv (fst (bridge_send_backend env br w)) \<and> W (snd (bridge_send_backend env br w)) \<and>
    bridge_enabled (fst (bridge_send_backend env br w)) = bridge_enabled br"
proof (cases "\<not> backend_tx_in_flight br \<and> \<not> queue_empty (backend_queue br)")
  case False
  then have "bridge_send_backend env br w = (br, w)" by (auto simp: bridge_send_backend_def)
  with inv w show ?thesis by simp
next
  case True
  obtain t pkt where front: "item_packet (queue_front (backend_queue br)) = (t, pkt)"
    by (cases "item_packet (queue_front (backend_queue br))")
  obtain ok w' where s: "(if t = HCI_PKT_EVENT then tud_bt_event_send env pkt w
       else if t = HCI_PKT_ACL then tud_bt_acl_data_send env pkt w else (False, w)) = (ok, w')"
    by (metis surj_pair)
  have w': "W w'" using env w s unfolding env_keeps_def by (metis snd_conv)
  have "queue_contents (backend_queue br) \<noteq> []"
    using inv True queue_empty_iff [of "backend_queue br"] by (simp add: bridge_inv_def)
  then show ?thesis
    using True front s w' inv by (auto simp: bridge_send_backend_def bridge_inv_def)
qed

lemma bridge_task_returns:
  assumes env: "env_keeps W env" and inv: "bridge_inv br" and w: "W w"
  shows "\<exists>br' w'. usb_bth_bridge_task cfg env br w = Some (br', w') \<and> bridge_inv br' \<and> W w' \<and>
    bridge_enabled br' = bridge_enabled br"
proof (cases "\<not> bridge_enabled br \<or> \<not> tud_ready env")
  case True
  with inv w show ?thesis by (auto simp: usb_bth_bridge_task_def)
next
  case False
  let ?b0 = "bridge_tx_timeout (now_ms env) br"
  have en: "bridge_enabled ?b0 = bridge_enabled br"
    by (simp add: bridge_tx_timeout_def drop_backend_tail_def)
  from bridge_drain_returns [OF env bridge_tx_timeout_ok(1) [OF inv] w, of cfg "now_ms env"] obtain b w1 where
    d: "bridge_drain_usb cfg env ?b0 w = Some (b, w1)" "bridge_inv b" "W w1"
      "bridge_enabled b = bridge_enabled ?b0" by blast
  obtain br' w' where s: "bridge_send_backend env b w1 = (br', w')" by (cases "bridge_send_backend env b w1")
  have "usb_bth_bridge_task cfg env br w = Some (br', w')"
    using False d(1) s by (simp add: usb_bth_bridge_task_def)
  with bridge_send_backend_keeps [OF env d(2,3)] d(4) en s show ?thesis by simp
qed

text \<open>
  The steps of the enabled bridge, as its surroundings can interleave them: a packet from
  the controller, a command or an ACL transfer from the host, a run of the task, and the
  completion callbacks.
\<close>

inductive bridge_step :: "build_config \<Rightarrow> bridge \<times> bridge_log \<Rightarrow> bridge \<times> bridge_log \<Rightarrow> bool"
  for cfg where
  rx: "bridge_step cfg (br, w) (usb_bth_bridge_backend_packet cfg t pkt br, w)"
| cmd: "bridge_step cfg (br, w) (tud_bt_hci_cmd_cb cfg hci_cmd br, w)"
| acl: "tud_bt_acl_data_received_cb acl_data br = Some br' \<Longrightarrow> bridge_step cfg (br, w) (br', w)"
| task: "logging_env env \<Longrightarrow> usb_bth_bridge_task cfg env br w = Some (br', w') \<Longrightarrow>
     bridge_step cfg (br, w) (br', w')"
| event_sent: "bridge_step cfg (br, w) (tud_bt_event_sent_cb br, w)"
| acl_sent: "bridge_step cfg (br, w) (tud_bt_acl_data_sent_cb br, w)"

text \<open>The relation a step keeps: both directions are extended at the end, never cut,
  duplicated or permuted.\<close>

definition bridge_in_order ::
    "build_config \<Rightarrow> bridge \<times> bridge_log \<Rightarrow> bridge \<times> bridge_log \<Rightarrow> bool" where
  "bridge_in_order cfg s s' \<longleftrightarrow>
     (case (s, s') of ((br, u, c), (br', u', c')) \<Rightarrow>
        prefix (u @ bridge_pending br) (u' @ bridge_pending br') \<and>
        prefix (c @ to_controller cfg (queue_contents (usb_queue br)))
               (c' @ to_controller cfg (queue_contents (usb_queue br'))))"

definition usb_extends :: "bridge \<Rightarrow> bridge \<Rightarrow> bool" where
  "usb_extends br br' \<longleftrightarrow> bridge_inv br' \<and> backend_queue br' = backend_queue br \<and>
     backend_tx_in_flight br' = backend_tx_in_flight br \<and>
     (\<exists>new. queue_contents (usb_queue br') = queue_contents (usb_queue br) @ new)"

lemma usb_extends_refl: "bridge_inv br \<Longrightarrow> usb_extends br br"
  by (simp add: usb_extends_def)

lemma usb_extends_trans: "usb_extends a b \<Longrightarrow> usb_extends b c \<Longrightarrow> usb_extends a c"
  by (auto simp: usb_extends_def)

lemma usb_extends_push: "bridge_inv br \<Longrightarrow> usb_extends br (snd (push_usb br t pkt))"
  by (simp add: usb_extends_def push_usb_inv queue_push_contents bridge_inv_def
      del: split_paired_Ex) (simp add: bridge_inv_def queue_push_inv queue_push_contents)

lemma acl_take_usb:
  assumes "acl_ready br" "queue_inv (usb_queue br)" "acl_take br f = Some (br', tk)"
  shows "backend_queue br' = backend_queue br \<and> backend_tx_in_flight br' = backend_tx_in_flight br \<and>
     (\<exists>new. queue_contents (usb_queue br') = queue_contents (usb_queue br) @ new)"
proof -
  let ?c = "acl_copy br (take (min (length f) (usb_acl_expected_len br - usb_acl_len br)) f)"
  have c: "backend_queue ?c = backend_queue br" "backend_tx_in_flight ?c = backend_tx_in_flight br"
    "usb_queue ?c = usb_queue br" by (simp_all add: acl_copy_def)
  have "br' = usb_bth_bridge_push_completed_acl ?c \<or> br' = ?c"
    using assms(3) unfolding acl_take_eq [OF assms(1)] Let_def by (auto split: if_splits)
  then show ?thesis
    using c assms(2)
    by (auto simp: queue_push_contents usb_bth_bridge_push_completed_acl_def
        usb_bth_bridge_reset_acl_reassembly_def)
qed

lemma acl_fragment_usb:
  "bridge_inv br \<Longrightarrow> usb_bth_bridge_acl_out_fragment br f = Some br' \<Longrightarrow> usb_extends br br'"
proof (induction f arbitrary: br rule: length_induct)
  case (1 f)
  show ?case
  proof (cases "f \<noteq> [] \<and> acl_accepts br f")
    case True
    then have acc: "acl_accepts br f" by simp
    from acl_pass [OF "1.prems"(1) acc] obtain b tk where
      p: "acl_take (acl_start br f) f = Some (b, tk)" "bridge_inv b" "0 < tk" "tk \<le> length f"
        "usb_bth_bridge_acl_out_fragment br f = usb_bth_bridge_acl_out_fragment b (drop tk f)" by blast
    have "usb_queue (acl_start br f) = usb_queue br" "backend_queue (acl_start br f) = backend_queue br"
      "backend_tx_in_flight (acl_start br f) = backend_tx_in_flight br" by (simp_all add: acl_start_def)
    then have "usb_extends br b"
      using acl_take_usb [OF acl_start_ready [OF "1.prems"(1) acc] _ p(1)] p(2) "1.prems"(1)
      by (simp add: usb_extends_def bridge_inv_def)
    moreover have "length (drop tk f) < length f" using p(3,4) by simp
    then have "usb_extends b br'" using "1.IH" p(2,5) "1.prems"(2) by metis
    ultimately show ?thesis by (rule usb_extends_trans)
  next
    case False
    then show ?thesis using "1.prems"
      by (auto simp: acl_accepts_def usb_extends_def bridge_inv_def
          usb_bth_bridge_reset_acl_reassembly_def
          usb_bth_bridge_acl_out_fragment.simps [of br f] split: if_splits)
  qed
qed

lemma backend_extends_in_order:
  "backend_extends br br' \<Longrightarrow> bridge_in_order cfg (br, w) (br', w)"
  by (cases w) (auto simp: bridge_in_order_def backend_extends_def prefix_def)

lemma usb_extends_in_order:
  "usb_extends br br' \<Longrightarrow> bridge_in_order cfg (br, w) (br', w)"
  by (cases w) (auto simp: bridge_in_order_def usb_extends_def bridge_pending_def to_controller_def
      prefix_def)

lemma bridge_in_order_refl [simp]: "bridge_in_order cfg s s"
  by (simp add: bridge_in_order_def split: prod.split)

lemma bridge_in_order_trans:
  assumes "bridge_in_order cfg r s" "bridge_in_order cfg s t"
  shows "bridge_in_order cfg r t"
proof -
  obtain a u c where r: "r = (a, u, c)" by (cases r)
  obtain a' u' c' where s: "s = (a', u', c')" by (cases s)
  obtain a'' u'' c'' where t: "t = (a'', u'', c'')" by (cases t)
  show ?thesis
    using assms unfolding r s t by (auto simp: bridge_in_order_def dest: prefix_order.trans)
qed

lemma cmd_cb_in_order:
  assumes "bridge_inv br"
  shows "bridge_in_order cfg (br, w) (tud_bt_hci_cmd_cb cfg cmd br, w)"
proof (cases "bridge_enabled br")
  case True
  let ?pkt = "take (to_u16 (length cmd)) cmd"
  let ?r = "usb_bth_bridge_pre_controller_send_quirk cfg br ?pkt"
  have e: "backend_extends br (snd ?r)" by (rule pre_quirk_extends [OF assms])
  then have i: "bridge_inv (snd ?r)" by (simp add: backend_extends_def)
  have eq: "tud_bt_hci_cmd_cb cfg cmd br =
      (if fst ?r then snd ?r else snd (push_usb (snd ?r) HCI_PKT_COMMAND ?pkt))"
    using True by (simp add: tud_bt_hci_cmd_cb_def split_beta)
  have x: "bridge_in_order cfg (br, w) (snd ?r, w)"
    by (rule backend_extends_in_order [OF e])
  have "bridge_in_order cfg (snd ?r, w) (snd (push_usb (snd ?r) HCI_PKT_COMMAND ?pkt), w)"
    by (rule usb_extends_in_order [OF usb_extends_push [OF i]])
  with x have "bridge_in_order cfg (br, w) (snd (push_usb (snd ?r) HCI_PKT_COMMAND ?pkt), w)"
    by (rule bridge_in_order_trans)
  with x show ?thesis unfolding eq by (cases "fst ?r") simp_all
qed (simp add: tud_bt_hci_cmd_cb_def)

lemma bridge_step_ok:
  assumes "bridge_step cfg s s'" and "bridge_inv (fst s)"
  shows "bridge_inv (fst s') \<and> bridge_in_order cfg s s'"
  using assms
proof (induction rule: bridge_step.induct)
  case (rx br w t pkt)
  then have "backend_extends br (usb_bth_bridge_backend_packet cfg t pkt br)"
    by (simp add: backend_packet_extends)
  then show ?case using backend_extends_in_order by (auto simp: backend_extends_def)
next
  case (cmd br w hci_cmd)
  then show ?case by (simp add: cmd_cb_inv cmd_cb_in_order)
next
  case (acl acl_data br br' w)
  then have "usb_extends br br'"
    using acl_fragment_usb [of br acl_data br'] usb_extends_refl [of br]
    by (auto simp: tud_bt_acl_data_received_cb_def split: if_splits)
  then show ?case using usb_extends_in_order by (auto simp: usb_extends_def)
next
  case (task env br w br' w')
  obtain u c where w: "w = (u, c)" by (cases w)
  from bridge_task_order [OF task(1), of br cfg u c] task w obtain u' c' sent new where
    "w' = (u', c')" "bridge_inv br'"
    "queue_contents (usb_queue br) = sent @ queue_contents (usb_queue br')"
    "c' = c @ to_controller cfg sent" "u' @ bridge_pending br' = u @ bridge_pending br @ new"
    by auto
  then show ?case using w by (simp add: bridge_in_order_def to_controller_def prefix_def)
next
  case (event_sent br w)
  then have i: "bridge_inv br" by simp
  have "usb_queue (tud_bt_event_sent_cb br) = usb_queue br" by (simp add: tud_bt_event_sent_cb_def)
  with sent_cb_ok [OF i] show ?case by (cases w) (simp add: bridge_in_order_def)
next
  case (acl_sent br w)
  then have i: "bridge_inv br" by simp
  have "usb_queue (tud_bt_event_sent_cb br) = usb_queue br" by (simp add: tud_bt_event_sent_cb_def)
  with sent_cb_ok [OF i] show ?case by (cases w) (simp add: bridge_in_order_def acl_sent_cb_same)
qed

lemma bridge_steps_ok:
  "(bridge_step cfg)\<^sup>*\<^sup>* s s' \<Longrightarrow> bridge_inv (fst s) \<Longrightarrow> bridge_inv (fst s') \<and> bridge_in_order cfg s s'"
proof (induction rule: rtranclp_induct)
  case base
  then show ?case by simp
next
  case (step s' s'')
  then show ?case using bridge_step_ok [OF step.hyps(2)] bridge_in_order_trans by blast
qed

inductive_cases bridge_stepE: "bridge_step cfg s s'"

text \<open>C17: The bridge task. On any bridge that satisfies its invariant, with a transport
  whose \<open>send\<close> at most calls the receive callback, one run of the task ends and keeps the
  invariant. The host packets it takes off the queue are a front part of the queue, and the
  controller gets exactly these, in order, but for the commands the firmware answers itself;
  the packets handed to USB, followed by those still to be handed over, are what was to be
  handed over before, followed by what has newly been queued. At most one packet is handed
  to USB, and it is then in flight.\<close>

theorem usb_bth_bridge_task_order:
  assumes "logging_env env" and "bridge_inv br"
  shows "\<exists>br' u' c' sent new. usb_bth_bridge_task cfg env br (u, c) = Some (br', (u', c')) \<and>
     bridge_inv br' \<and> queue_contents (usb_queue br) = sent @ queue_contents (usb_queue br') \<and>
     c' = c @ to_controller cfg sent \<and> u' @ bridge_pending br' = u @ bridge_pending br @ new \<and>
     (u' = u \<or> (\<exists>x. u' = u @ [x] \<and> backend_tx_in_flight br'))"
  by (rule bridge_task_order [OF assms])

text \<open>An environment in which USB takes everything and the transport takes everything.\<close>

definition accepting_env :: "bridge_log bridge_env" where
  "accepting_env =
     \<lparr>tud_ready = True, now_ms = 5, sent_ms = 5,
      tud_bt_event_send = (\<lambda>pkt (u, c). (True, u @ [(HCI_PKT_EVENT, pkt)], c)),
      tud_bt_acl_data_send = (\<lambda>pkt (u, c). (True, u @ [(HCI_PKT_ACL, pkt)], c)),
      transport_send = Some (\<lambda>t pkt (br, u, c). (True, br, u, c @ [(t, pkt)]))\<rparr>"

lemma accepting_env_logging: "logging_env accepting_env"
  by (auto simp: logging_env_def accepting_env_def send_frames_def)

theorem usb_bth_bridge_task_order_witness:
  "\<exists>br' u' c' sent new. usb_bth_bridge_task pico2w_config accepting_env
       (snd (push_usb (bridge_boot\<lparr>bridge_enabled := True\<rparr>) HCI_PKT_COMMAND [3, 12, 0])) ([], [])
       = Some (br', (u', c')) \<and> bridge_inv br' \<and>
     [(HCI_PKT_COMMAND, [3, 12, 0])] = sent @ queue_contents (usb_queue br') \<and>
     c' = to_controller pico2w_config sent \<and> u' @ bridge_pending br' = new \<and>
     (u' = [] \<or> (\<exists>x. u' = [x] \<and> backend_tx_in_flight br'))"
proof -
  let ?b = "bridge_boot\<lparr>bridge_enabled := True\<rparr>"
  let ?br = "snd (push_usb ?b HCI_PKT_COMMAND [3, 12, 0])"
  have b: "bridge_inv ?b" by (simp add: bridge_inv_def bridge_boot_def)
  have q: "usb_queue ?b = empty_queue" by (simp add: bridge_boot_def)
  have "queue_contents (usb_queue ?br) = [(HCI_PKT_COMMAND, [3, 12, 0])]"
    using queue_push_contents [OF empty_queue_inv] queue_push_flag [OF empty_queue_inv] q by simp
  moreover have "bridge_pending ?br = []" by (simp add: bridge_pending_def bridge_boot_def)
  ultimately show ?thesis
    using usb_bth_bridge_task_order [OF accepting_env_logging push_usb_inv [OF b], of pico2w_config
        HCI_PKT_COMMAND "[3, 12, 0]" "[]" "[]"] by simp
qed



end
