(* ===== verification/Hci_Host.thy ===== *)
theory Hci_Host
  imports Platform
begin

text \<open>
  \<open>src/hci_host_minimal.c\<close>: the HCI host the Pico runs in standby. It sends commands one at
  a time, polls the transport until the completion or status event of that command arrives or
  a deadline passes, and configures the controller to scan. The transport is a parameter; its
  functions act on the host's variables too, because it delivers packets through the receive
  callback.
\<close>

section \<open>State\<close>

record host =
  waiting :: bool
  waiting_opcode :: u16
  got_complete :: bool
  got_status :: u8

record hci_cmd_result =
  res_opcode :: u16
  res_status :: u8
  res_complete :: bool

definition host_boot :: host where
  "host_boot = \<lparr>waiting = False, waiting_opcode = 0, got_complete = False, got_status = 0\<rparr>"

text \<open>The functions of \<open>hci_transport_t\<close> that the host calls, on the host's variables and the
  rest of the world, and the timer.\<close>

record 'w host_transport =
  tr_reset_controller :: "host \<times> 'w \<Rightarrow> bool \<times> host \<times> 'w"
  tr_send :: "hci_packet_type \<Rightarrow> bytes \<Rightarrow> host \<times> 'w \<Rightarrow> bool \<times> host \<times> 'w"
  tr_task :: "host \<times> 'w \<Rightarrow> host \<times> 'w"

section \<open>Packets from the controller\<close>

definition hci_host_minimal_packet :: "hci_packet_type \<Rightarrow> bytes \<Rightarrow> host \<Rightarrow> host" where
  "hci_host_minimal_packet t packet h =
     (if \<not> waiting h \<or> t \<noteq> HCI_PKT_EVENT \<or> length packet < 3 then h
      else if packet ! 0 = HCI_EVENT_COMMAND_COMPLETE \<and> length packet \<ge> 6
      then if le16 (packet ! 3) (packet ! 4) = waiting_opcode h
           then h\<lparr>got_status := packet ! 5, got_complete := True\<rparr> else h
      else if packet ! 0 = HCI_EVENT_COMMAND_STATUS \<and> length packet \<ge> 6
      then if le16 (packet ! 4) (packet ! 5) = waiting_opcode h
           then h\<lparr>got_status := packet ! 2, got_complete := True\<rparr> else h
      else h)"

section \<open>Commands\<close>

definition hci_host_minimal_init :: "'w host_transport option \<Rightarrow> host \<Rightarrow> bool \<times> host" where
  "hci_host_minimal_init transport h =
     (transport \<noteq> None, h\<lparr>waiting := False, got_complete := False\<rparr>)"

definition command_bytes :: "u16 \<Rightarrow> bytes \<Rightarrow> bytes" where
  "command_bytes opcode params = [lo8 opcode, hi8 opcode, of_nat (length params)] @ params"

text \<open>The result of the send is not looked at.\<close>

definition send_cmd ::
    "'w host_transport \<Rightarrow> u16 \<Rightarrow> bytes \<Rightarrow> host \<times> 'w \<Rightarrow> host \<times> 'w" where
  "send_cmd tr opcode params s = snd (tr_send tr HCI_PKT_COMMAND (command_bytes opcode params) s)"

text \<open>The polling loop; \<open>now\<close> reads the timer. \<open>None\<close> is a loop that does not end.\<close>

partial_function (option) host_poll ::
    "'t pico_clock \<Rightarrow> ('w \<Rightarrow> nat) \<Rightarrow> 'w host_transport \<Rightarrow> 't \<Rightarrow> u16 \<Rightarrow> host \<times> 'w
       \<Rightarrow> (bool \<times> hci_cmd_result \<times> host \<times> 'w) option" where
  "host_poll ck now tr deadline opcode s =
     (if \<not> sdk_time_reached ck (now (snd s)) deadline
      then case tr_task tr s of (h, w) \<Rightarrow>
        if got_complete h
        then Some (got_status h = 0,
               \<lparr>res_opcode = opcode, res_status = got_status h, res_complete = True\<rparr>,
               h\<lparr>waiting := False\<rparr>, w)
        else host_poll ck now tr deadline opcode (h, w)
      else case s of (h, w) \<Rightarrow>
        Some (False, \<lparr>res_opcode = opcode, res_status = 0xff, res_complete = False\<rparr>,
              h\<lparr>waiting := False\<rparr>, w))"

text \<open>
  The transport is the pointer \<open>host_transport\<close>, \<open>None\<close> when it is \<open>NULL\<close>; then the caller's
  result is left as it was, which is the result \<open>None\<close> here.
\<close>

definition hci_host_send_cmd_sync ::
    "'t pico_clock \<Rightarrow> ('w \<Rightarrow> nat) \<Rightarrow> 'w host_transport option \<Rightarrow> u16 \<Rightarrow> bytes \<Rightarrow> nat \<Rightarrow> host \<times> 'w
       \<Rightarrow> (bool \<times> hci_cmd_result option \<times> host \<times> 'w) option" where
  "hci_host_send_cmd_sync ck now transport opcode params timeout_ms s =
     (case transport of
        None \<Rightarrow> Some (False, None, s)
      | Some tr \<Rightarrow>
          (case s of (h, w) \<Rightarrow>
             let h = h\<lparr>waiting_opcode := opcode, got_status := 0xff, got_complete := False,
                       waiting := True\<rparr>;
                 s = send_cmd tr opcode params (h, w)
             in map_option (\<lambda>(ok, res, s'). (ok, Some res, s'))
                  (host_poll ck now tr
                     (sdk_make_timeout_time_ms ck (now (snd s)) timeout_ms) opcode s)))"

section \<open>Standby scanning\<close>

definition event_mask :: bytes where
  "event_mask = [0xff, 0xff, 0xff, 0xff, 0xff, 0xff, 0xff, 0x3f]"

definition le_event_mask :: bytes where
  "le_event_mask = [0x1f, 0x14, 0, 0, 0, 0, 0, 0]"

definition le_scan_params :: bytes where
  "le_scan_params = [0x01, 0x60, 0x00, 0x30, 0x00, 0x00, 0x00]"

text \<open>A null transport is dereferenced by the configuration: undefined, \<open>None\<close>.
  A command whose result is ignored (\<open>must\<close> false) or decides the return (\<open>must\<close> true).\<close>

fun host_commands ::
    "'t pico_clock \<Rightarrow> ('w \<Rightarrow> nat) \<Rightarrow> 'w host_transport option \<Rightarrow> nat \<Rightarrow> (bool \<times> u16 \<times> bytes) list
       \<Rightarrow> host \<times> 'w \<Rightarrow> (bool \<times> host \<times> 'w) option" where
  "host_commands ck now tr ms [] s = Some (True, s)"
| "host_commands ck now tr ms ((must, opcode, params) # cs) s =
     (case hci_host_send_cmd_sync ck now tr opcode params ms s of
        None \<Rightarrow> None
      | Some (ok, _, s') \<Rightarrow>
          if must \<and> \<not> ok then Some (False, s') else host_commands ck now tr ms cs s')"

definition standby_commands :: "(bool \<times> u16 \<times> bytes) list" where
  "standby_commands =
     [(False, HCI_OPCODE_READ_LOCAL_VERSION, []),
      (False, HCI_OPCODE_READ_BD_ADDR, []),
      (True, HCI_OPCODE_SET_EVENT_MASK, event_mask),
      (False, HCI_OPCODE_LE_SET_EVENT_MASK, le_event_mask),
      (False, HCI_OPCODE_WRITE_SCAN_ENABLE, [0x02]),
      (True, HCI_OPCODE_LE_SET_SCAN_PARAMETERS, le_scan_params),
      (True, HCI_OPCODE_LE_SET_SCAN_ENABLE, [0x01, 0x00])]"

definition hci_host_configure_standby_wake ::
    "'t pico_clock \<Rightarrow> ('w \<Rightarrow> nat) \<Rightarrow> 'w host_transport option \<Rightarrow> host \<times> 'w
       \<Rightarrow> (bool \<times> host \<times> 'w) option" where
  "hci_host_configure_standby_wake ck now transport s =
     (case transport of
        None \<Rightarrow> None
      | Some tr \<Rightarrow>
          (case tr_reset_controller tr s of (ok, s) \<Rightarrow>
             if \<not> ok then Some (False, s)
             else host_commands ck now transport 1000 standby_commands s))"

definition hci_host_stop_standby_wake ::
    "'t pico_clock \<Rightarrow> ('w \<Rightarrow> nat) \<Rightarrow> 'w host_transport option \<Rightarrow> host \<times> 'w
       \<Rightarrow> (bool \<times> host \<times> 'w) option" where
  "hci_host_stop_standby_wake ck now tr s =
     host_commands ck now tr 500
       [(False, HCI_OPCODE_LE_SET_SCAN_ENABLE, [0x00, 0x00]), (False, HCI_OPCODE_WRITE_SCAN_ENABLE, [0x00])] s"

definition hci_host_minimal_task :: "'w host_transport option \<Rightarrow> host \<times> 'w \<Rightarrow> host \<times> 'w" where
  "hci_host_minimal_task transport s = (case transport of Some tr \<Rightarrow> tr_task tr s | None \<Rightarrow> s)"

section \<open>Replies\<close>

text \<open>The status a packet reports for a command, if it is its completion or status event.\<close>

definition reply :: "u16 \<Rightarrow> hci_packet_type \<times> bytes \<Rightarrow> u8 option" where
  "reply opcode tp =
     (case tp of (t, p) \<Rightarrow>
       if t \<noteq> HCI_PKT_EVENT \<or> length p < 6 then None
       else if p ! 0 = HCI_EVENT_COMMAND_COMPLETE \<and> le16 (p ! 3) (p ! 4) = opcode then Some (p ! 5)
       else if p ! 0 = HCI_EVENT_COMMAND_STATUS \<and> le16 (p ! 4) (p ! 5) = opcode then Some (p ! 2)
       else None)"

text \<open>The last reply among the packets delivered.\<close>

fun answer :: "u16 \<Rightarrow> (hci_packet_type \<times> bytes) list \<Rightarrow> u8 option \<Rightarrow> u8 option" where
  "answer opcode [] acc = acc"
| "answer opcode (p # ps) acc =
     answer opcode ps (case reply opcode p of Some st \<Rightarrow> Some st | None \<Rightarrow> acc)"

definition deliver :: "(hci_packet_type \<times> bytes) list \<Rightarrow> host \<Rightarrow> host" where
  "deliver ps h = fold (\<lambda>(t, p). hci_host_minimal_packet t p) ps h"

lemma answer_append: "answer opcode (ps @ qs) acc = answer opcode qs (answer opcode ps acc)"
  by (induction ps arbitrary: acc) auto

lemma host_packet_reply:
  "waiting h \<Longrightarrow> hci_host_minimal_packet t p h =
     (case reply (waiting_opcode h) (t, p) of
        Some st \<Rightarrow> h\<lparr>got_status := st, got_complete := True\<rparr> | None \<Rightarrow> h)"
  by (auto simp: hci_host_minimal_packet_def reply_def)

text \<open>The host's variables while it waits, after the packets so far.\<close>

definition host_after :: "u16 \<Rightarrow> u8 option \<Rightarrow> host" where
  "host_after opcode acc =
     \<lparr>waiting = True, waiting_opcode = opcode, got_complete = acc \<noteq> None,
      got_status = (case acc of Some st \<Rightarrow> st | None \<Rightarrow> 0xff)\<rparr>"

lemma deliver_after: "deliver ps (host_after opcode acc) = host_after opcode (answer opcode ps acc)"
proof (induction ps arbitrary: acc)
  case Nil
  then show ?case by (simp add: deliver_def)
next
  case (Cons p ps)
  obtain t q where p: "p = (t, q)" by (cases p)
  have "hci_host_minimal_packet t q (host_after opcode acc) =
      host_after opcode (case reply opcode p of Some st \<Rightarrow> Some st | None \<Rightarrow> acc)"
    by (simp add: p host_packet_reply host_after_def split: option.splits)
  with Cons show ?case by (simp add: deliver_def p)
qed

section \<open>The contract of a transport\<close>

text \<open>
  \<open>rx w\<close> is everything the transport has delivered and \<open>tx w\<close> every packet it was asked to
  send. Whatever a call delivers goes to the host through the receive callback, in order; the
  timer does not go back, and a poll takes time.
\<close>

definition delivers ::
    "('w \<Rightarrow> (hci_packet_type \<times> bytes) list) \<Rightarrow> host \<times> 'w \<Rightarrow> host \<times> 'w \<Rightarrow> bool" where
  "delivers rx s s' \<longleftrightarrow>
     (\<exists>ps. rx (snd s') = rx (snd s) @ ps \<and> fst s' = deliver ps (fst s))"

definition host_transport_ok ::
    "('w \<Rightarrow> nat) \<Rightarrow> 'w host_transport \<Rightarrow> ('w \<Rightarrow> (hci_packet_type \<times> bytes) list)
       \<Rightarrow> ('w \<Rightarrow> (hci_packet_type \<times> bytes) list) \<Rightarrow> bool" where
  "host_transport_ok now tr rx tx \<longleftrightarrow>
     (\<forall>t p s. delivers rx s (snd (tr_send tr t p s)) \<and>
        now (snd s) \<le> now (snd (snd (tr_send tr t p s))) \<and>
        tx (snd (snd (tr_send tr t p s))) = tx (snd s) @ [(t, p)]) \<and>
     (\<forall>s. delivers rx s (tr_task tr s) \<and> now (snd s) < now (snd (tr_task tr s)) \<and>
        tx (snd (tr_task tr s)) = tx (snd s)) \<and>
     (\<forall>s. delivers rx s (snd (tr_reset_controller tr s)) \<and>
        tx (snd (snd (tr_reset_controller tr s))) = tx (snd s))"

text \<open>How a command ends: with the last status delivered for it, or by the deadline.\<close>

definition command_ends ::
    "('w \<Rightarrow> nat) \<Rightarrow> ('w \<Rightarrow> (hci_packet_type \<times> bytes) list) \<Rightarrow> u16 \<Rightarrow> nat
       \<Rightarrow> (hci_packet_type \<times> bytes) list \<Rightarrow> bool \<Rightarrow> hci_cmd_result \<Rightarrow> 'w \<Rightarrow> bool" where
  "command_ends now rx opcode due before ok res w' \<longleftrightarrow>
     (\<exists>ps. rx w' = before @ ps \<and>
       (case answer opcode ps None of
          Some st \<Rightarrow> ok = (st = 0) \<and>
            res = \<lparr>res_opcode = opcode, res_status = st, res_complete = True\<rparr>
        | None \<Rightarrow> \<not> ok \<and> res = \<lparr>res_opcode = opcode, res_status = 0xff, res_complete = False\<rparr> \<and>
            due \<le> now w'))"

lemma host_poll_ends:
  assumes ck: "pico_clock_ok ck" and tr: "host_transport_ok now tr rx tx"
  shows "rx w = before @ ps \<Longrightarrow> (now w < due \<or> answer opcode ps None = None) \<Longrightarrow>
    due = n + 1000 * ms \<Longrightarrow>
    \<exists>ok res h' w'. host_poll ck now tr (sdk_make_timeout_time_ms ck n ms) opcode
        (host_after opcode (answer opcode ps None), w) = Some (ok, res, h', w') \<and>
      command_ends now rx opcode due before ok res w' \<and> tx w' = tx w"
proof (induction "due - now w" arbitrary: w ps rule: less_induct)
  case less
  let ?h = "host_after opcode (answer opcode ps None)"
  show ?case
  proof (cases "now w < due")
    case False
    then have "answer opcode ps None = None" using less.prems(2) by simp
    then show ?thesis
      using False less.prems(1,3) ck
      by (subst host_poll.simps) (auto simp: clock_simps command_ends_def)
  next
    case True
    obtain h' w' where t: "tr_task tr (?h, w) = (h', w')" by (cases "tr_task tr (?h, w)")
    have "delivers rx (?h, w) (tr_task tr (?h, w)) \<and> now w < now (snd (tr_task tr (?h, w))) \<and>
        tx (snd (tr_task tr (?h, w))) = tx w"
      using tr by (simp add: host_transport_ok_def)
    then obtain qs where qs: "rx w' = rx w @ qs" "h' = deliver qs ?h" and later: "now w < now w'"
      and tx: "tx w' = tx w"
      by (auto simp: delivers_def t)
    have h': "h' = host_after opcode (answer opcode (ps @ qs) None)"
      by (simp add: qs(2) deliver_after answer_append)
    have rx': "rx w' = before @ (ps @ qs)" using qs(1) less.prems(1) by simp
    have nr: "\<not> sdk_time_reached ck (now w) (sdk_make_timeout_time_ms ck n ms)"
      using True less.prems(3) ck by (simp add: clock_simps)
    show ?thesis
    proof (cases "answer opcode (ps @ qs) None")
      case None
      have "due - now w' < due - now w" using later True by simp
      from less.hyps [OF this rx' _ less.prems(3)] None obtain ok res h2 w2 where
        "host_poll ck now tr (sdk_make_timeout_time_ms ck n ms) opcode (h', w') = Some (ok, res, h2, w2)"
        "command_ends now rx opcode due before ok res w2" "tx w2 = tx w'"
        by (auto simp: h')
      then show ?thesis
        using nr t None by (subst host_poll.simps) (auto simp: h' host_after_def tx)
    next
      case (Some st)
      then show ?thesis
        using nr t rx' by (subst host_poll.simps) (auto simp: h' host_after_def command_ends_def tx)
    qed
  qed
qed

lemma send_cmd_sync_ends:
  assumes ck: "pico_clock_ok ck" and tr: "host_transport_ok now tr rx tx" and ms: "0 < ms"
  shows "\<exists>ok res h' w'. hci_host_send_cmd_sync ck now (Some tr) opcode params ms (h, w) = Some (ok, Some res, h', w') \<and>
    command_ends now rx opcode (now w + 1000 * ms) (rx w) ok res w' \<and>
    tx w' = tx w @ [(HCI_PKT_COMMAND, command_bytes opcode params)]"
proof -
  let ?s = "(host_after opcode None, w)"
  let ?send = "tr_send tr HCI_PKT_COMMAND (command_bytes opcode params) ?s"
  have h: "h\<lparr>waiting_opcode := opcode, got_status := 0xff, got_complete := False, waiting := True\<rparr> =
      host_after opcode None"
    by (simp add: host_after_def)
  obtain r h1 w1 where s: "?send = (r, h1, w1)" by (metis prod_cases3)
  have "delivers rx ?s (snd ?send) \<and> now w \<le> now (snd (snd ?send)) \<and>
      tx (snd (snd ?send)) = tx w @ [(HCI_PKT_COMMAND, command_bytes opcode params)]"
    using tr by (simp add: host_transport_ok_def)
  then obtain ps where ps: "rx w1 = rx w @ ps" "h1 = deliver ps (host_after opcode None)"
    and now: "now w \<le> now w1"
    and tx: "tx w1 = tx w @ [(HCI_PKT_COMMAND, command_bytes opcode params)]"
    by (auto simp: delivers_def s)
  have due: "now w1 < now w1 + 1000 * ms" using ms by simp
  obtain ok res h' w' where p: "host_poll ck now tr (sdk_make_timeout_time_ms ck (now w1) ms) opcode
        (host_after opcode (answer opcode ps None), w1) = Some (ok, res, h', w')"
    and e: "command_ends now rx opcode (now w1 + 1000 * ms) (rx w) ok res w'" and t: "tx w' = tx w1"
    using host_poll_ends [OF ck tr ps(1) disjI1 [OF due] refl] by blast
  have "command_ends now rx opcode (now w + 1000 * ms) (rx w) ok res w'"
    using e now by (fastforce simp: command_ends_def split: option.splits)
  moreover have "hci_host_send_cmd_sync ck now (Some tr) opcode params ms (h, w) = Some (ok, Some res, h', w')"
    using p by (simp add: hci_host_send_cmd_sync_def h send_cmd_def s ps(2) deliver_after)
  ultimately show ?thesis using t tx by auto
qed

text \<open>A list of commands ends; when it reports success, all were sent, in order.\<close>

lemma host_commands_end:
  assumes ck: "pico_clock_ok ck" and tr: "host_transport_ok now tr rx tx" and ms: "0 < ms"
  shows "\<exists>ok h' w' n. host_commands ck now (Some tr) ms cs (h, w) = Some (ok, h', w') \<and>
    tx w' = tx w @ map (\<lambda>(m, opcode, params). (HCI_PKT_COMMAND, command_bytes opcode params)) (take n cs) \<and>
    (ok \<longrightarrow> n = length cs)"
proof (induction cs arbitrary: h w)
  case Nil
  then show ?case by (auto intro: exI [of _ 0])
next
  case (Cons c cs)
  obtain must opcode params where c: "c = (must, opcode, params)" by (metis prod_cases3)
  obtain ok res h1 w1 where s: "hci_host_send_cmd_sync ck now (Some tr) opcode params ms (h, w) = Some (ok, Some res, h1, w1)"
    and t: "tx w1 = tx w @ [(HCI_PKT_COMMAND, command_bytes opcode params)]"
    using send_cmd_sync_ends [OF ck tr ms, of opcode params h w] by blast
  show ?case
  proof (cases "must \<and> \<not> ok")
    case True
    with s t show ?thesis by (intro exI [of _ False] exI [of _ h1] exI [of _ w1] exI [of _ 1]) (simp add: c)
  next
    case False
    from Cons.IH [of h1 w1] obtain ok2 h2 w2 n where
      "host_commands ck now (Some tr) ms cs (h1, w1) = Some (ok2, h2, w2)"
      "tx w2 = tx w1 @ map (\<lambda>(m, opcode, params). (HCI_PKT_COMMAND, command_bytes opcode params)) (take n cs)"
      "ok2 \<longrightarrow> n = length cs" by blast
    with s t False show ?thesis
      by (intro exI [of _ ok2] exI [of _ h2] exI [of _ w2] exI [of _ "Suc n"]) (auto simp: c)
  qed
qed

section \<open>Properties\<close>


text \<open>
  A transport for the witnesses: the world is the timer, the packets delivered and the packets
  sent; a command with at least three bytes is answered at once with a successful completion
  event, as the stub backend does, and every poll takes one millisecond.
\<close>

type_synonym echo_world = "nat \<times> (hci_packet_type \<times> bytes) list \<times> (hci_packet_type \<times> bytes) list"

definition echo_transport :: "echo_world host_transport" where
  "echo_transport =
     \<lparr>tr_reset_controller = (\<lambda>s. (True, s)),
      tr_send = (\<lambda>t p (h, n, rx, tx).
        let e = [0x0e, 4, 1, p ! 0, p ! 1, 0] in
        (True, hci_host_minimal_packet HCI_PKT_EVENT e h, n, rx @ [(HCI_PKT_EVENT, e)], tx @ [(t, p)])),
      tr_task = (\<lambda>(h, n, rx, tx). (h, n + 1000, rx, tx))\<rparr>"

lemma echo_transport_ok:
  "host_transport_ok fst echo_transport (\<lambda>(n, rx, tx). rx) (\<lambda>(n, rx, tx). tx)"
  by (auto simp: host_transport_ok_def delivers_def deliver_def echo_transport_def)

lemma echo_answers:
  "\<exists>res h' n' rx' tx'. hci_host_send_cmd_sync us_clock fst (Some echo_transport) opcode params 1000 (h, n, rx, tx) =
     Some (True, Some res, h', n', rx', tx')"
  by (simp add: hci_host_send_cmd_sync_def send_cmd_def echo_transport_def hci_host_minimal_packet_def
      command_bytes_def host_poll.simps us_clock_def)




end
