(* ===== verification/Backend_Stub.thy ===== *)
theory Backend_Stub
  imports Hci_Host
begin

text \<open>
  \<open>src/backend_stub.c\<close>: the HCI transport without a controller, used to bring up the USB
  side. It answers every command at once, from inside \<open>send\<close>, with a successful completion
  event, and drops everything else. Its one variable is the receive callback; the callback acts
  on the state \<open>'s\<close> of the rest of the firmware.
\<close>

section \<open>Operations\<close>

definition stub_set_rx_callback :: "'s hci_rx_cb option \<Rightarrow> 's hci_rx_cb option \<Rightarrow> 's hci_rx_cb option" where
  "stub_set_rx_callback cb rx_cb = cb"

definition stub_init :: bool where
  "stub_init = True"

definition stub_reset_controller :: bool where
  "stub_reset_controller = True"

text \<open>No return parameters are the empty list.\<close>

definition stub_command_complete ::
    "'s hci_rx_cb option \<Rightarrow> u16 \<Rightarrow> bytes \<Rightarrow> 's \<Rightarrow> 's" where
  "stub_command_complete rx_cb opcode return_params s =
     call_rx rx_cb HCI_PKT_EVENT
       ([HCI_EVENT_COMMAND_COMPLETE, of_nat (4 + length return_params), 1,
         lo8 opcode, hi8 opcode, 0] @ return_params) s"

definition stub_bd_addr :: bytes where
  "stub_bd_addr = [0x56, 0x34, 0x12, 0xef, 0xcd, 0xab]"

definition stub_send ::
    "'s hci_rx_cb option \<Rightarrow> hci_packet_type \<Rightarrow> bytes \<Rightarrow> 's \<Rightarrow> bool \<times> 's" where
  "stub_send rx_cb t packet s =
     (if t = HCI_PKT_COMMAND \<and> length packet \<ge> 3
      then let opcode = le16 (packet ! 0) (packet ! 1) in
        if opcode = HCI_OPCODE_READ_BD_ADDR
        then (True, stub_command_complete rx_cb opcode stub_bd_addr s)
        else (True, stub_command_complete rx_cb opcode [] s)
      else (True, s))"

definition stub_task :: "'s \<Rightarrow> 's" where
  "stub_task s = s"

text \<open>The transport record the host is given, on the host's variables and the rest.\<close>

definition stub_transport :: "(host \<times> 'w) hci_rx_cb option \<Rightarrow> 'w host_transport" where
  "stub_transport rx_cb =
     \<lparr>tr_reset_controller = (\<lambda>s. (stub_reset_controller, s)),
      tr_send = stub_send rx_cb, tr_task = stub_task\<rparr>"

section \<open>Answers\<close>

text \<open>The event the stub answers a command with.\<close>

definition stub_answer :: "bytes \<Rightarrow> bytes" where
  "stub_answer packet =
     (let opcode = le16 (packet ! 0) (packet ! 1);
          params = (if opcode = HCI_OPCODE_READ_BD_ADDR then stub_bd_addr else [])
      in [HCI_EVENT_COMMAND_COMPLETE, of_nat (4 + length params), 1, lo8 opcode, hi8 opcode, 0] @ params)"

lemma stub_send_answer:
  "stub_send rx_cb t packet s =
     (True, if t = HCI_PKT_COMMAND \<and> length packet \<ge> 3
            then call_rx rx_cb HCI_PKT_EVENT (stub_answer packet) s else s)"
  by (simp add: stub_send_def stub_command_complete_def stub_answer_def)

text \<open>For a command of the host the answer is its completion with status 0.\<close>

lemma stub_answer_reply [simp]: "reply opcode (HCI_PKT_EVENT, stub_answer (command_bytes opcode params)) = Some 0"
  by (simp add: stub_answer_def command_bytes_def reply_def stub_bd_addr_def)

lemma stub_transport_task [simp]: "tr_task (stub_transport rx_cb) s = s"
  by (simp add: stub_transport_def stub_task_def)

lemma stub_send_command:
  "tr_send (stub_transport rx_cb) HCI_PKT_COMMAND (command_bytes opcode params) s =
     (True, call_rx rx_cb HCI_PKT_EVENT (stub_answer (command_bytes opcode params)) s)"
  by (simp add: stub_transport_def stub_send_answer command_bytes_def)

text \<open>
  A callback that hands the host its events, as the firmware's does in standby; \<open>P\<close> is what
  it needs of the rest of the firmware, \<open>now\<close> the timer.
\<close>

definition host_listens ::
    "('w \<Rightarrow> nat) \<Rightarrow> ('w \<Rightarrow> bool) \<Rightarrow> (host \<times> 'w) hci_rx_cb \<Rightarrow> bool" where
  "host_listens now P f \<longleftrightarrow>
     (\<forall>p h w. P w \<longrightarrow> fst (f HCI_PKT_EVENT p (h, w)) = hci_host_minimal_packet HCI_PKT_EVENT p h \<and>
        P (snd (f HCI_PKT_EVENT p (h, w))) \<and> now (snd (f HCI_PKT_EVENT p (h, w))) = now w)"

lemma stub_send_cmd_sync:
  assumes ck: "pico_clock_ok ck" and f: "host_listens now P f" and w: "P w" and ms: "0 < ms"
  shows "\<exists>h' w'. hci_host_send_cmd_sync ck now (Some (stub_transport (Some f))) opcode params ms (h, w) =
      Some (True, Some \<lparr>res_opcode = opcode, res_status = 0, res_complete = True\<rparr>, h', w') \<and> P w'"
proof -
  let ?p = "stub_answer (command_bytes opcode params)"
  let ?h = "host_after opcode None"
  have h: "h\<lparr>waiting_opcode := opcode, got_status := 0xff, got_complete := False, waiting := True\<rparr> = ?h"
    by (simp add: host_after_def)
  obtain h1 w1 where r: "f HCI_PKT_EVENT ?p (?h, w) = (h1, w1)" by (metis surj_pair)
  have "fst (f HCI_PKT_EVENT ?p (?h, w)) = hci_host_minimal_packet HCI_PKT_EVENT ?p ?h \<and>
      P (snd (f HCI_PKT_EVENT ?p (?h, w))) \<and> now (snd (f HCI_PKT_EVENT ?p (?h, w))) = now w"
    using f w unfolding host_listens_def by blast
  then have d: "h1 = hci_host_minimal_packet HCI_PKT_EVENT ?p ?h" "P w1" by (simp_all add: r)
  have h1: "h1 = \<lparr>waiting = True, waiting_opcode = opcode, got_complete = True, got_status = 0\<rparr>"
    unfolding d(1) by (simp add: host_packet_reply host_after_def)
  have nr: "\<not> sdk_time_reached ck (now w1) (sdk_make_timeout_time_ms ck (now w1) ms)"
    using ck ms by (simp add: clock_simps)
  show ?thesis
    using nr d(2) by (simp add: hci_host_send_cmd_sync_def send_cmd_def h stub_send_command r
        host_poll.simps h1)
qed

text \<open>So every sequence of commands succeeds, and standby scanning is configured.\<close>

lemma stub_host_commands:
  assumes "pico_clock_ok ck" "host_listens now P f" "0 < ms"
  shows "P w \<Longrightarrow> \<exists>h' w'. host_commands ck now (Some (stub_transport (Some f))) ms cs (h, w) =
      Some (True, h', w') \<and> P w'"
proof (induction cs arbitrary: h w)
  case Nil
  then show ?case by simp
next
  case (Cons c cs)
  obtain must opcode params where c: "c = (must, opcode, params)" by (metis prod_cases3)
  from stub_send_cmd_sync [OF assms(1,2) Cons.prems assms(3), of opcode params h] obtain h1 w1 where
    "hci_host_send_cmd_sync ck now (Some (stub_transport (Some f))) opcode params ms (h, w) =
      Some (True, Some \<lparr>res_opcode = opcode, res_status = 0, res_complete = True\<rparr>, h1, w1)" "P w1" by blast
  with Cons.IH [of w1 h1] show ?case by (simp add: c)
qed

lemma stub_configures:
  assumes "pico_clock_ok ck" "host_listens now P f" "P w"
  shows "\<exists>h' w'. hci_host_configure_standby_wake ck now (Some (stub_transport (Some f))) (h, w) =
      Some (True, h', w') \<and> P w'"
  using stub_host_commands [OF assms(1,2), of 1000 w standby_commands h] assms(3)
  by (simp add: hci_host_configure_standby_wake_def stub_transport_def stub_reset_controller_def)

end
