(* ===== verification/Hci_Transport.thy ===== *)
theory Hci_Transport
  imports Hci_Host
begin

text \<open>
  The interface \<open>hci_transport_t\<close> as its clients rely on it. Whatever a call does to the rest
  of the firmware it does through the receive callback; \<open>good\<close> is what the firmware maintains
  and \<open>frame\<close> what callbacks may change. Whoever runs the standby host on such a transport
  gets back from every command, in a good state.
\<close>

locale hci_transport =
  fixes tr :: "'w host_transport"
    and good :: "'w \<Rightarrow> bool"
    and frame :: "'w \<Rightarrow> 'w \<Rightarrow> bool"
    and now :: "'w \<Rightarrow> nat"
  assumes send_ok: "good w \<Longrightarrow> good (snd (snd (tr_send tr t p (h, w)))) \<and>
        frame w (snd (snd (tr_send tr t p (h, w))))"
    and task_ok: "good w \<Longrightarrow> good (snd (tr_task tr (h, w))) \<and> frame w (snd (tr_task tr (h, w)))"
    and reset_ok: "good w \<Longrightarrow> good (snd (snd (tr_reset_controller tr (h, w)))) \<and>
        frame w (snd (snd (tr_reset_controller tr (h, w))))"
    and frame_refl: "good w \<Longrightarrow> frame w w"
    and frame_trans: "frame a b \<Longrightarrow> frame b c \<Longrightarrow> frame a c"
    and frame_now: "frame a b \<Longrightarrow> now a \<le> now b"

text \<open>A transport whose polls take time.\<close>

locale timed_transport = hci_transport +
  assumes task_time: "good w \<Longrightarrow> now w < now (snd (tr_task tr (h, w)))"
begin

lemma poll_returns:
  assumes ck: "pico_clock_ok ck"
  shows "good w \<Longrightarrow> \<exists>ok res h' w'. host_poll ck now tr (sdk_make_timeout_time_ms ck n ms) opcode (h, w) =
      Some (ok, res, h', w') \<and> good w' \<and> frame w w'"
proof (induction "n + 1000 * ms - now w" arbitrary: h w rule: less_induct)
  case less
  show ?case
  proof (cases "n + 1000 * ms \<le> now w")
    case True
    then show ?thesis
      using ck less.prems frame_refl by (subst host_poll.simps) (auto simp: clock_simps)
  next
    case False
    obtain h1 w1 where t: "tr_task tr (h, w) = (h1, w1)" by (cases "tr_task tr (h, w)")
    have w1: "good w1" "frame w w1" "now w < now w1"
      using task_ok [OF less.prems, of h] task_time [OF less.prems, of h] by (simp_all add: t)
    have nr: "\<not> sdk_time_reached ck (now w) (sdk_make_timeout_time_ms ck n ms)"
      using False ck by (simp add: clock_simps)
    show ?thesis
    proof (cases "got_complete h1")
      case True
      then show ?thesis using nr t w1 by (subst host_poll.simps) simp
    next
      case go: False
      have "n + 1000 * ms - now w1 < n + 1000 * ms - now w" using w1(3) False by linarith
      from less.hyps [OF this w1(1), of h1] obtain ok res h' w' where
        "host_poll ck now tr (sdk_make_timeout_time_ms ck n ms) opcode (h1, w1) = Some (ok, res, h', w')"
        "good w'" "frame w1 w'" by blast
      then show ?thesis
        using nr t go frame_trans [OF w1(2)] by (subst host_poll.simps) auto
    qed
  qed
qed

lemma send_cmd_sync_returns:
  assumes "pico_clock_ok ck" "good w"
  shows "\<exists>ok res h' w'. hci_host_send_cmd_sync ck now (Some tr) opcode params ms (h, w) =
      Some (ok, Some res, h', w') \<and> good w' \<and> frame w w'"
proof -
  let ?h = "h\<lparr>waiting_opcode := opcode, got_status := 0xff, got_complete := False, waiting := True\<rparr>"
  obtain r h1 w1 where s: "tr_send tr HCI_PKT_COMMAND (command_bytes opcode params) (?h, w) = (r, h1, w1)"
    by (metis prod_cases3)
  have w1: "good w1" "frame w w1"
    using send_ok [OF assms(2), of HCI_PKT_COMMAND "command_bytes opcode params" ?h] by (simp_all add: s)
  from poll_returns [OF assms(1) w1(1), of "now w1" ms opcode h1] obtain ok res h' w' where
    "host_poll ck now tr (sdk_make_timeout_time_ms ck (now w1) ms) opcode (h1, w1) = Some (ok, res, h', w')"
    "good w'" "frame w1 w'" by blast
  then show ?thesis
    using s frame_trans [OF w1(2)] by (auto simp: hci_host_send_cmd_sync_def send_cmd_def)
qed

lemma commands_return:
  assumes ck: "pico_clock_ok ck"
  shows "good w \<Longrightarrow> \<exists>ok h' w'. host_commands ck now (Some tr) ms cs (h, w) = Some (ok, h', w') \<and>
      good w' \<and> frame w w'"
proof (induction cs arbitrary: h w)
  case Nil
  then show ?case by (auto simp: frame_refl)
next
  case (Cons c cs)
  obtain must opcode params where c: "c = (must, opcode, params)" by (metis prod_cases3)
  from send_cmd_sync_returns [OF ck Cons.prems, of opcode params ms h] obtain ok res h1 w1 where
    s: "hci_host_send_cmd_sync ck now (Some tr) opcode params ms (h, w) = Some (ok, Some res, h1, w1)"
      "good w1" "frame w w1" by blast
  show ?case
  proof (cases "must \<and> \<not> ok")
    case True
    with s show ?thesis by (auto simp: c)
  next
    case False
    from Cons.IH [OF s(2), of h1] obtain ok2 h2 w2 where
      "host_commands ck now (Some tr) ms cs (h1, w1) = Some (ok2, h2, w2)" "good w2" "frame w1 w2" by blast
    with s False frame_trans [OF s(3)] show ?thesis by (auto simp: c)
  qed
qed

lemma configure_returns:
  assumes "pico_clock_ok ck" "good w"
  shows "\<exists>ok h' w'. hci_host_configure_standby_wake ck now (Some tr) (h, w) = Some (ok, h', w') \<and>
      good w' \<and> frame w w'"
proof -
  obtain r h1 w1 where r: "tr_reset_controller tr (h, w) = (r, h1, w1)" by (metis prod_cases3)
  have w1: "good w1" "frame w w1" using reset_ok [OF assms(2), of h] by (simp_all add: r)
  from commands_return [OF assms(1) w1(1), of 1000 standby_commands h1] obtain ok h' w' where
    "host_commands ck now (Some tr) 1000 standby_commands (h1, w1) = Some (ok, h', w')"
    "good w'" "frame w1 w'" by blast
  then show ?thesis
    using r w1 frame_trans [OF w1(2)] by (auto simp: hci_host_configure_standby_wake_def)
qed

end

end
