(* ===== verification/Bootsel.thy ===== *)
theory Bootsel
  imports Wake_Store
begin

text \<open>
  \<open>src/bootsel_button.c\<close>: a long hold of the BOOTSEL button clears the peer list. The task
  samples the button at most every 100 ms; each sample borrows the flash chip's select line,
  whose registers are parameters acting on an opaque world.
\<close>

section \<open>State and operations\<close>

abbreviation (input) BOOTSEL_POLL_MS :: u32 where "BOOTSEL_POLL_MS \<equiv> 100"

record bootsel =
  last_poll_ms :: u32
  pressed_ms :: u32
  hold_fired :: bool

definition bootsel_boot :: bootsel where
  "bootsel_boot = \<lparr>last_poll_ms = 0, pressed_ms = 0, hold_fired = False\<rparr>"

text \<open>
  The override and the input bit of the select line, and \<open>flash_safe_execute\<close> for a callback
  that writes one \<open>bool\<close> through its argument; it gives an error code, 0 for \<open>PICO_OK\<close>.
\<close>

record 'w bootsel_hw =
  csn_override_low :: "'w \<Rightarrow> 'w"
  csn_override_normal :: "'w \<Rightarrow> 'w"
  csn_high :: "'w \<Rightarrow> bool"
  csn_safe_execute :: "(bool \<times> 'w \<Rightarrow> bool \<times> 'w) \<Rightarrow> nat \<Rightarrow> bool \<times> 'w \<Rightarrow> int \<times> bool \<times> 'w"

definition read_bootsel_cb :: "'w bootsel_hw \<Rightarrow> bool \<times> 'w \<Rightarrow> bool \<times> 'w" where
  "read_bootsel_cb hw s =
     (let w = csn_override_low hw (snd s);
          out = (\<not> csn_high hw w)
      in (out, csn_override_normal hw w))"

definition read_bootsel :: "'w bootsel_hw \<Rightarrow> 'w \<Rightarrow> bool \<times> 'w" where
  "read_bootsel hw w =
     (let (rc, pressed, w) = csn_safe_execute hw (read_bootsel_cb hw) 100 (False, w)
      in (rc = 0 \<and> pressed, w))"

text \<open>\<open>now\<close> is \<open>to_ms_since_boot\<close> at the call.\<close>

definition bootsel_button_task ::
    "build_config \<Rightarrow> 'w bootsel_hw \<Rightarrow> 'f pico_flash \<Rightarrow> u32 \<Rightarrow> bootsel \<Rightarrow> 't wake_policy \<Rightarrow> 'f \<Rightarrow> 'w
       \<Rightarrow> bootsel \<times> 't wake_policy \<times> 'f \<times> 'w" where
  "bootsel_button_task cfg hw fl now b st f w =
     (if ENABLE_BOOTSEL_CLEAR_WAKE_PEERS cfg then
        if now - last_poll_ms b < BOOTSEL_POLL_MS then (b, st, f, w)
        else
          let b = b\<lparr>last_poll_ms := now\<rparr>;
              (pressed, w) = read_bootsel hw w in
          if \<not> pressed then (b\<lparr>pressed_ms := 0, hold_fired := False\<rparr>, st, f, w)
          else
            let b = (if pressed_ms b < of_nat (BOOTSEL_CLEAR_HOLD_MS cfg)
                     then b\<lparr>pressed_ms := pressed_ms b + BOOTSEL_POLL_MS\<rparr> else b) in
            if \<not> hold_fired b \<and> pressed_ms b \<ge> of_nat (BOOTSEL_CLEAR_HOLD_MS cfg)
            then let (st, f) = wake_policy_clear_known_peers cfg fl st f
                 in (b\<lparr>hold_fired := True\<rparr>, st, f, w)
            else (b, st, f, w)
      else (b, st, f, w))"

section \<open>Holding the button\<close>

text \<open>Calls of the task at readings of the clock in given worlds, and the samples they take.\<close>

definition bootsel_samples :: "build_config \<Rightarrow> u32 \<Rightarrow> bootsel \<Rightarrow> bool" where
  "bootsel_samples cfg now b \<longleftrightarrow>
     ENABLE_BOOTSEL_CLEAR_WAKE_PEERS cfg \<and> \<not> now - last_poll_ms b < BOOTSEL_POLL_MS"

fun bootsel_run ::
    "build_config \<Rightarrow> 'w bootsel_hw \<Rightarrow> 'f pico_flash \<Rightarrow> (u32 \<times> 'w) list
       \<Rightarrow> bootsel \<times> 't wake_policy \<times> 'f \<Rightarrow> bool list \<times> bootsel \<times> 't wake_policy \<times> 'f" where
  "bootsel_run cfg hw fl [] s = ([], s)"
| "bootsel_run cfg hw fl ((now, w) # calls) (b, st, f) =
     (let (b', st', f', w') = bootsel_button_task cfg hw fl now b st f w;
          (rs, s) = bootsel_run cfg hw fl calls (b', st', f')
      in (if bootsel_samples cfg now b then fst (read_bootsel hw w) # rs else rs, s))"

text \<open>How many of the latest samples in a row found the button pressed.\<close>

definition streak :: "bool list \<Rightarrow> nat" where
  "streak rs = length (takeWhile id (rev rs))"

lemma streak_simps [simp]:
  "streak [] = 0"
  "streak (rs @ [True]) = Suc (streak rs)"
  "streak (rs @ [False]) = 0"
  by (simp_all add: streak_def)

text \<open>The samples a hold takes: the hold time in units of 100 ms, rounded up, at least one.\<close>

definition hold_samples :: "build_config \<Rightarrow> nat" where
  "hold_samples cfg = (if BOOTSEL_CLEAR_HOLD_MS cfg = 0 then 1 else (BOOTSEL_CLEAR_HOLD_MS cfg + 99) div 100)"

definition bootsel_inv :: "build_config \<Rightarrow> bool list \<Rightarrow> bootsel \<Rightarrow> bool" where
  "bootsel_inv cfg rs b \<longleftrightarrow>
     unat (pressed_ms b) = 100 * min (streak rs) ((BOOTSEL_CLEAR_HOLD_MS cfg + 99) div 100) \<and>
     (hold_fired b \<longleftrightarrow> hold_samples cfg \<le> streak rs)"

lemma bootsel_task_pressed:
  assumes "bootsel_samples cfg now b" "read_bootsel hw w = (True, w')"
    and "p = (if pressed_ms b < of_nat (BOOTSEL_CLEAR_HOLD_MS cfg)
              then pressed_ms b + BOOTSEL_POLL_MS else pressed_ms b)"
  shows "bootsel_button_task cfg hw fl now b st f w =
    (if \<not> hold_fired b \<and> of_nat (BOOTSEL_CLEAR_HOLD_MS cfg) \<le> p
     then (b\<lparr>last_poll_ms := now, pressed_ms := p, hold_fired := True\<rparr>,
           fst (wake_policy_clear_known_peers cfg fl st f),
           snd (wake_policy_clear_known_peers cfg fl st f), w')
     else (b\<lparr>last_poll_ms := now, pressed_ms := p\<rparr>, st, f, w'))"
proof -
  obtain st' f' where "wake_policy_clear_known_peers cfg fl st f = (st', f')"
    by (cases "wake_policy_clear_known_peers cfg fl st f")
  with assms show ?thesis
    by (cases "pressed_ms b < of_nat (BOOTSEL_CLEAR_HOLD_MS cfg)")
       (simp_all add: bootsel_samples_def bootsel_button_task_def)
qed

text \<open>The sample counter: what a sample that finds the button pressed adds to it.\<close>

lemma ceil_le: "(h + 99) div 100 \<le> k \<longleftrightarrow> h \<le> 100 * (k :: nat)"
  by linarith

lemma pressed_counter:
  fixes m :: u32
  assumes "unat m = 100 * min k ((h + 99) div 100)" "h < 2147483648"
  shows "m < of_nat h \<longleftrightarrow> k < (h + 99) div 100"
    and "unat (if m < of_nat h then m + 100 else m) = 100 * min (Suc k) ((h + 99) div 100)"
    and "of_nat h \<le> (if m < of_nat h then m + 100 else m) \<longleftrightarrow> (h + 99) div 100 \<le> Suc k"
proof -
  have uh: "unat (of_nat h :: u32) = h"
    using assms(2) by (simp add: unsigned_of_nat take_bit_nat_eq_self)
  obtain n where n: "n = (h + 99) div 100" by blast
  have c: "n \<le> j \<longleftrightarrow> h \<le> 100 * j" for j unfolding n by (rule ceil_le)
  have m: "unat m = 100 * min k n" using assms(1) n by simp
  show lt: "m < of_nat h \<longleftrightarrow> k < (h + 99) div 100"
    unfolding word_less_nat_alt uh m n [symmetric] using c [of k] c [of n] by (cases "k < n") simp_all
  have up: "unat (m + 100) = unat m + 100" if "k < n"
  proof -
    have "100 * k + 100 < 4294967296" using that c [of k] assms(2) by linarith
    with that m show ?thesis by (subst unat_add_lem [THEN iffD1]) simp_all
  qed
  show p: "unat (if m < of_nat h then m + 100 else m) = 100 * min (Suc k) ((h + 99) div 100)"
    using lt up m by (simp add: n [symmetric])
  show "of_nat h \<le> (if m < of_nat h then m + 100 else m) \<longleftrightarrow> (h + 99) div 100 \<le> Suc k"
    unfolding word_le_nat_alt uh p n [symmetric] using c [of "min (Suc k) n"] by simp
qed

text \<open>What one sampling call does to the variables and the peer list.\<close>

lemma bootsel_call_released:
  assumes "bootsel_samples cfg now b" "read_bootsel hw w = (False, w')"
  shows "bootsel_button_task cfg hw fl now b st f w =
    (b\<lparr>last_poll_ms := now, pressed_ms := 0, hold_fired := False\<rparr>, st, f, w')"
  using assms by (simp add: bootsel_samples_def bootsel_button_task_def)

lemma hold_samples_pos [simp]: "hold_samples cfg \<noteq> 0"
  using ceil_le [of "BOOTSEL_CLEAR_HOLD_MS cfg" 0] by (auto simp: hold_samples_def)

lemma bootsel_call:
  assumes inv: "bootsel_inv cfg rs b" and hold: "BOOTSEL_CLEAR_HOLD_MS cfg < 2147483648"
    and smp: "bootsel_samples cfg now b" and r: "read_bootsel hw w = (pressed, w')"
    and call: "bootsel_button_task cfg hw fl now b st f w = (b1, st1, f1, w1)"
  shows "bootsel_inv cfg (rs @ [pressed]) b1 \<and> w1 = w' \<and>
    (st1, f1) = (if pressed \<and> streak (rs @ [True]) = hold_samples cfg
                 then wake_policy_clear_known_peers cfg fl st f else (st, f))"
proof (cases pressed)
  case False
  with call r bootsel_call_released [OF smp, of hw w w' fl st f] show ?thesis
    by (auto simp: bootsel_inv_def)
next
  case True
  with r have rt: "read_bootsel hw w = (True, w')" by simp
  obtain h where h: "h = BOOTSEL_CLEAR_HOLD_MS cfg" by blast
  obtain p where p: "p = (if pressed_ms b < of_nat h then pressed_ms b + 100 else pressed_ms b)" by blast
  have m: "unat (pressed_ms b) = 100 * min (streak rs) ((h + 99) div 100)"
    and f: "hold_fired b \<longleftrightarrow> hold_samples cfg \<le> streak rs"
    using inv h by (simp_all add: bootsel_inv_def)
  note pc = pressed_counter [OF m, folded p]
  have hh: "h < 2147483648" using hold h by simp
  have hs: "hold_samples cfg = (if h = 0 then 1 else (h + 99) div 100)"
    by (simp add: hold_samples_def h)
  have h0: "(h + 99) div 100 = 0 \<longleftrightarrow> h = 0" using ceil_le [of h 0] by simp
  have fires: "(\<not> hold_fired b \<and> of_nat h \<le> p) = (Suc (streak rs) = hold_samples cfg)"
    unfolding f pc(3) [OF hh] hs using h0 by auto
  let ?b = "b\<lparr>last_poll_ms := now, pressed_ms := p\<rparr>"
  have "bootsel_button_task cfg hw fl now b st f w =
      (if Suc (streak rs) = hold_samples cfg
       then (?b\<lparr>hold_fired := True\<rparr>, fst (wake_policy_clear_known_peers cfg fl st f),
             snd (wake_policy_clear_known_peers cfg fl st f), w')
       else (?b, st, f, w'))"
    using bootsel_task_pressed [OF smp rt p [unfolded h], of fl st f] fires unfolding h by simp
  moreover have "unat p = 100 * min (Suc (streak rs)) ((h + 99) div 100)" by (rule pc(2) [OF hh])
  ultimately show ?thesis
    using True call f by (auto simp: bootsel_inv_def h split: if_splits)
qed

text \<open>A call that takes no sample changes nothing.\<close>

lemma bootsel_no_sample:
  "\<not> bootsel_samples cfg now b \<Longrightarrow> bootsel_button_task cfg hw fl now b st f w = (b, st, f, w)"
  by (auto simp: bootsel_samples_def bootsel_button_task_def)

lemma bootsel_run_inv:
  "bootsel_inv cfg rs0 b \<Longrightarrow> BOOTSEL_CLEAR_HOLD_MS cfg < 2147483648 \<Longrightarrow>
   bootsel_run cfg hw fl calls (b, st, f) = (rs, b', st', f') \<Longrightarrow> bootsel_inv cfg (rs0 @ rs) b'"
proof (induction calls arbitrary: rs0 b st f rs)
  case Nil
  then show ?case by simp
next
  case (Cons c calls)
  obtain now w where c: "c = (now, w)" by (cases c)
  obtain b1 st1 f1 w1 where t: "bootsel_button_task cfg hw fl now b st f w = (b1, st1, f1, w1)"
    by (metis prod_cases4)
  obtain qs where q: "bootsel_run cfg hw fl calls (b1, st1, f1) = (qs, b', st', f')"
    and rs: "rs = (if bootsel_samples cfg now b then fst (read_bootsel hw w) # qs else qs)"
    using Cons.prems(3) c t by (auto split: prod.splits)
  show ?case
  proof (cases "bootsel_samples cfg now b")
    case True
    obtain pressed w' where r: "read_bootsel hw w = (pressed, w')" by (cases "read_bootsel hw w")
    from bootsel_call [OF Cons.prems(1,2) True r t] Cons.IH [OF _ Cons.prems(2) q, of "rs0 @ [pressed]"]
    show ?thesis by (simp add: rs True r)
  next
    case False
    with bootsel_no_sample [OF False, of hw fl st f w] t Cons.IH [OF _ Cons.prems(2) q, of rs0] Cons.prems(1)
    show ?thesis by (simp add: rs)
  qed
qed

lemma bootsel_boot_inv [simp]: "bootsel_inv cfg [] bootsel_boot"
  by (simp add: bootsel_inv_def bootsel_boot_def)

section \<open>Property\<close>

text \<open>
  C36: After any calls from boot on, the next call clears the peer list exactly when it samples
  the button and this is the sample that completes a hold: the latest samples found the
  button pressed without interruption for the hold time (50 samples of 100 ms under the
  default options), and no more than that. Every other call leaves the list and the flash alone.
\<close>

theorem bootsel_clears_once_per_hold:
  assumes "BOOTSEL_CLEAR_HOLD_MS cfg < 2147483648"
    and "bootsel_run cfg hw fl calls (bootsel_boot, st0, f0) = (rs, b, st, f)"
  shows "fst (snd (bootsel_button_task cfg hw fl now b st f w)) =
      (if bootsel_samples cfg now b \<and> fst (read_bootsel hw w) \<and> streak (rs @ [True]) = hold_samples cfg
       then fst (wake_policy_clear_known_peers cfg fl st f) else st) \<and>
    fst (snd (snd (bootsel_button_task cfg hw fl now b st f w))) =
      (if bootsel_samples cfg now b \<and> fst (read_bootsel hw w) \<and> streak (rs @ [True]) = hold_samples cfg
       then snd (wake_policy_clear_known_peers cfg fl st f) else f)"
proof -
  have inv: "bootsel_inv cfg rs b" using bootsel_run_inv [OF bootsel_boot_inv assms] by simp
  obtain b1 st1 f1 w1 where t: "bootsel_button_task cfg hw fl now b st f w = (b1, st1, f1, w1)"
    by (metis prod_cases4)
  obtain pressed w' where r: "read_bootsel hw w = (pressed, w')" by (cases "read_bootsel hw w")
  show ?thesis
  proof (cases "bootsel_samples cfg now b")
    case False
    then show ?thesis by (simp add: bootsel_no_sample)
  next
    case True
    from bootsel_call [OF inv assms(1) True r t]
    show ?thesis by (auto simp: t r True prod_eq_iff)
  qed
qed

text \<open>A button whose select line follows the world, for the witness: a two-sample hold.\<close>

definition bool_button :: "bool bootsel_hw" where
  "bool_button = \<lparr>csn_override_low = id, csn_override_normal = id, csn_high = Not,
     csn_safe_execute = (\<lambda>f _ s. (0, f s))\<rparr>"

theorem bootsel_clears_once_per_hold_witness:
  "fst (snd (bootsel_button_task (default_config\<lparr>BOOTSEL_CLEAR_HOLD_MS := 200\<rparr>) bool_button ram_flash 250
     \<lparr>last_poll_ms = 150, pressed_ms = 100, hold_fired = False\<rparr> one_peer (\<lambda>_. 0) True)) =
   one_peer\<lparr>known_ble_peers := no_peers, peers_dirty := False\<rparr>"
proof -
  let ?cfg = "default_config\<lparr>BOOTSEL_CLEAR_HOLD_MS := 200\<rparr>"
  have run: "bootsel_run ?cfg bool_button ram_flash [(20, True), (150, True)] (bootsel_boot, one_peer, \<lambda>_. 0) =
      ([True], \<lparr>last_poll_ms = 150, pressed_ms = 100, hold_fired = False\<rparr>, one_peer, \<lambda>_. 0)"
    by (simp add: bootsel_button_task_def bootsel_samples_def bootsel_boot_def read_bootsel_def
        read_bootsel_cb_def bool_button_def config_defs)
  have streak1: "streak ([True] @ [True]) = 2" by (simp only: streak_simps(2)) (simp add: streak_def)
  have "bootsel_samples ?cfg 250 \<lparr>last_poll_ms = 150, pressed_ms = 100, hold_fired = False\<rparr>"
    "hold_samples ?cfg = 2" "fst (read_bootsel bool_button True)"
    by (simp_all add: bootsel_samples_def hold_samples_def read_bootsel_def read_bootsel_cb_def
        bool_button_def config_defs)
  with bootsel_clears_once_per_hold [OF _ run, of 250 True] streak1
  show ?thesis by (simp add: wake_policy_clear_known_peers_def split_beta)
qed

end
