(* ===== verification/Debug_Log.thy ===== *)
theory Debug_Log
  imports Power_Properties
begin

text \<open>
  \<open>src/debug_log.c\<close>: the debug log and the debug commands. Log lines go into a ring of 4096
  characters that drops the oldest; with the CDC port enabled the task prints the ring and
  reads command lines, some of which act on the power supervisor. Formatting
  (\<open>vsnprintf\<close>) is a parameter: it gives the full text of a line.
\<close>

section \<open>The ring\<close>

abbreviation (input) LOG_RING_SIZE :: nat where "LOG_RING_SIZE \<equiv> 4096"
abbreviation (input) DEBUG_COMMAND_SIZE :: nat where "DEBUG_COMMAND_SIZE \<equiv> 32"

record debug_log =
  log_ring :: bytes
  log_head :: nat
  log_tail :: nat
  command_buf :: bytes
  command_len :: nat

definition debug_log_boot :: debug_log where
  "debug_log_boot =
     \<lparr>log_ring = replicate LOG_RING_SIZE 0, log_head = 0, log_tail = 0,
      command_buf = replicate DEBUG_COMMAND_SIZE 0, command_len = 0\<rparr>"

definition log_ring_push_char :: "u8 \<Rightarrow> debug_log \<Rightarrow> debug_log" where
  "log_ring_push_char ch d =
     (let nxt = (log_head d + 1) mod LOG_RING_SIZE;
          d = (if nxt = log_tail d then d\<lparr>log_tail := (log_tail d + 1) mod LOG_RING_SIZE\<rparr> else d)
      in d\<lparr>log_ring := (log_ring d)[log_head d := ch], log_head := nxt\<rparr>)"

text \<open>A C string is the bytes before the first NUL.\<close>

definition c_string :: "bytes \<Rightarrow> bytes" where
  "c_string s = takeWhile (\<lambda>c. c \<noteq> 0) s"

definition log_ring_push :: "bytes \<Rightarrow> debug_log \<Rightarrow> debug_log" where
  "log_ring_push s d = fold log_ring_push_char (c_string s) d"

text \<open>
  The line buffer holds 159 characters. Without the CDC port the line is printed at once; the
  result is the characters printed.
\<close>

definition debug_log_line :: "build_config \<Rightarrow> bytes \<Rightarrow> debug_log \<Rightarrow> debug_log \<times> bytes" where
  "debug_log_line cfg formatted d =
     (let line = take 159 formatted;
          out = (if ENABLE_CDC_DEBUG cfg then [] else c_string line @ [10])
      in (log_ring_push [13, 10] (log_ring_push line d), out))"

section \<open>Commands\<close>

text \<open>The comparison loop; both arguments are C strings.\<close>

definition ascii_lower :: "u8 \<Rightarrow> u8" where
  "ascii_lower c = (if c \<ge> 65 \<and> c \<le> 90 then c - 65 + 97 else c)"

fun command_equals :: "bytes \<Rightarrow> bytes \<Rightarrow> bool" where
  "command_equals (g # got) (w # want) =
     (if ascii_lower g \<noteq> w then False else command_equals got want)"
| "command_equals got want = (got = [] \<and> want = [])"

definition debug_command_equals :: "debug_log \<Rightarrow> bytes \<Rightarrow> bool" where
  "debug_command_equals d want = command_equals (c_string (command_buf d)) want"

definition ascii_text :: "string \<Rightarrow> bytes" where
  "ascii_text s = map of_char s"

text \<open>What a command logs, before formatting, and the system the commands act on: the log,
  the power supervisor, and whether the chip was sent to its boot loader, which does not
  return.\<close>

datatype debug_message =
    Msg_text string
  | Msg_state power_state_t bool bool string
  | Msg_unknown bytes

record 't debug_system =
  dbg_log :: debug_log
  dbg_power :: "'t power"
  dbg_printed :: bytes
  dbg_bootsel :: bool

definition dbg_message ::
    "build_config \<Rightarrow> (debug_message \<Rightarrow> bytes) \<Rightarrow> debug_message \<Rightarrow> 't debug_system \<Rightarrow> 't debug_system" where
  "dbg_message cfg fmt m s =
     (let (d, out) = debug_log_line cfg (fmt m) (dbg_log s)
      in s\<lparr>dbg_log := d, dbg_printed := dbg_printed s @ out\<rparr>)"

definition debug_handle_command ::
    "build_config \<Rightarrow> ('t, 'w) power_hw \<Rightarrow> (debug_message \<Rightarrow> bytes) \<Rightarrow> nat \<Rightarrow> 't debug_system
       \<Rightarrow> 't debug_system option" where
  "debug_handle_command cfg hw fmt n s = do {
     buf \<leftarrow> wr (command_buf (dbg_log s)) (command_len (dbg_log s)) 0;
     let d = (dbg_log s)\<lparr>command_buf := buf\<rparr>;
     let s = s\<lparr>dbg_log := d\<rparr>;
     let s =
       (if debug_command_equals d (ascii_text ''bootsel'') \<or> debug_command_equals d (ascii_text ''boot'')
        then (dbg_message cfg fmt (Msg_text ''Entering BOOTSEL'') s)\<lparr>dbg_bootsel := True\<rparr>
        else if debug_command_equals d (ascii_text ''state'')
        then dbg_message cfg fmt
               (Msg_state (power_supervisor_get_state (dbg_power s))
                  (power_supervisor_pwr_ok (dbg_power s))
                  (power_supervisor_usb_vbus_present (dbg_power s))
                  (power_supervisor_last_wake_reason (dbg_power s))) s
        else if debug_command_equals d (ascii_text ''standby'')
        then s\<lparr>dbg_power := power_supervisor_debug_force_standby cfg hw n True (dbg_power s)\<rparr>
        else if debug_command_equals d (ascii_text ''host'')
        then s\<lparr>dbg_power := power_supervisor_debug_force_standby cfg hw n False (dbg_power s)\<rparr>
        else if debug_command_equals d (ascii_text ''wake'')
        then (dbg_message cfg fmt (Msg_text ''debug wake requested'') s)
               \<lparr>dbg_power := power_supervisor_request_wake (hw_clock hw) n (Some ''debug command'')
                  (dbg_power s)\<rparr>
        else if command_len d > 0
        then dbg_message cfg fmt (Msg_unknown (c_string buf)) s
        else s);
     Some (if dbg_bootsel s then s else s\<lparr>dbg_log := (dbg_log s)\<lparr>command_len := 0\<rparr>\<rparr>)
   }"

text \<open>The characters waiting on the port, read until none is left; a boot does not return.\<close>

fun debug_poll_commands ::
    "build_config \<Rightarrow> ('t, 'w) power_hw \<Rightarrow> (debug_message \<Rightarrow> bytes) \<Rightarrow> nat \<Rightarrow> bytes \<Rightarrow> 't debug_system
       \<Rightarrow> 't debug_system option" where
  "debug_poll_commands cfg hw fmt n [] s = Some s"
| "debug_poll_commands cfg hw fmt n (ch # input) s =
     (let d = dbg_log s in
      if dbg_bootsel s then Some s
      else if ch = 13 \<or> ch = 10
      then Option.bind (debug_handle_command cfg hw fmt n s) (debug_poll_commands cfg hw fmt n input)
      else if ch = 8 \<or> ch = 127
      then debug_poll_commands cfg hw fmt n input
             (if command_len d > 0 then s\<lparr>dbg_log := d\<lparr>command_len := command_len d - 1\<rparr>\<rparr> else s)
      else if command_len d + 1 < DEBUG_COMMAND_SIZE
      then Option.bind (wr (command_buf d) (command_len d) ch)
             (\<lambda>buf. debug_poll_commands cfg hw fmt n input
                (s\<lparr>dbg_log := d\<lparr>command_buf := buf, command_len := command_len d + 1\<rparr>\<rparr>))
      else debug_poll_commands cfg hw fmt n input s)"

section \<open>The task\<close>

text \<open>The printing loop, over the characters from the tail to the head.\<close>

partial_function (option) log_drain :: "debug_log \<Rightarrow> bytes \<Rightarrow> (debug_log \<times> bytes) option" where
  "log_drain d out =
     (if log_tail d \<noteq> log_head d
      then log_drain (d\<lparr>log_tail := (log_tail d + 1) mod LOG_RING_SIZE\<rparr>)
             (out @ [log_ring d ! log_tail d])
      else Some (d, out))"

text \<open>\<open>connected\<close> is \<open>stdio_usb_connected()\<close>, \<open>input\<close> the characters waiting.\<close>

definition debug_log_task ::
    "build_config \<Rightarrow> ('t, 'w) power_hw \<Rightarrow> (debug_message \<Rightarrow> bytes) \<Rightarrow> bool \<Rightarrow> bytes \<Rightarrow> nat
       \<Rightarrow> 't debug_system \<Rightarrow> 't debug_system option" where
  "debug_log_task cfg hw fmt connected input n s =
     (if ENABLE_CDC_DEBUG cfg then
        if \<not> connected then Some s
        else do {
          s \<leftarrow> debug_poll_commands cfg hw fmt n input s;
          if dbg_bootsel s then Some s
          else do {
            (d, out) \<leftarrow> log_drain (dbg_log s) [];
            Some (s\<lparr>dbg_log := d, dbg_printed := dbg_printed s @ out\<rparr>)
          }
        }
      else Some s)"

section \<open>The ring keeps the latest characters\<close>

definition log_contents :: "debug_log \<Rightarrow> bytes" where
  "log_contents d = ring_list (log_ring d) (log_head d) (log_tail d)"

definition log_inv :: "debug_log \<Rightarrow> bool" where
  "log_inv d \<longleftrightarrow> length (log_ring d) = 4096 \<and> log_head d < 4096 \<and> log_tail d < 4096 \<and>
     length (command_buf d) = 32 \<and> command_len d < 32"

text \<open>The last \<open>n\<close> elements.\<close>

definition latest :: "nat \<Rightarrow> 'a list \<Rightarrow> 'a list" where
  "latest n xs = drop (length xs - n) xs"

lemma latest_all [simp]: "length xs \<le> n \<Longrightarrow> latest n xs = xs"
  by (simp add: latest_def)

lemma latest_append [simp]: "latest n (latest n xs @ ys) = latest n (xs @ ys)"
  by (cases "length xs \<le> n") (auto simp: latest_def add.commute)

lemma latest_length: "length (latest n xs) \<le> n"
  by (simp add: latest_def)

lemma log_boot_inv [simp]: "log_inv debug_log_boot" "log_contents debug_log_boot = []"
  by (simp_all add: log_inv_def debug_log_boot_def log_contents_def)

lemma log_contents_length: "log_inv d \<Longrightarrow> length (log_contents d) \<le> 4095"
  using ring_len_less [of 4096 "log_head d" "log_tail d"] by (simp add: log_inv_def log_contents_def)

lemma log_push_char:
  assumes "log_inv d"
  shows "log_inv (log_ring_push_char ch d) \<and>
    log_contents (log_ring_push_char ch d) = latest 4095 (log_contents d @ [ch]) \<and>
    command_buf (log_ring_push_char ch d) = command_buf d \<and>
    command_len (log_ring_push_char ch d) = command_len d"
proof -
  let ?h = "log_head d" and ?t = "log_tail d" and ?b = "log_ring d"
  have b: "length ?b = 4096" "?h < length ?b" "?t < length ?b"
    using assms by (simp_all add: log_inv_def)
  show ?thesis
  proof (cases "(?h + 1) mod 4096 = ?t")
    case False
    then have "ring_list (?b[?h := ch]) ((?h + 1) mod 4096) ?t = log_contents d @ [ch]"
      using ring_list_push [OF b(2,3), of ch] b(1) by (simp add: log_contents_def)
    moreover have "length (log_contents d) < 4095"
      using ring_len_full [of ?h 4096 ?t] False b ring_len_less [of 4096 ?h ?t]
      by (simp add: log_contents_def)
    ultimately show ?thesis
      using False assms by (simp add: log_ring_push_char_def log_contents_def log_inv_def)
  next
    case True
    let ?t' = "(?t + 1) mod 4096"
    have ne: "?h \<noteq> ?t" using True b by (auto simp: mod_if split: if_splits)
    have full: "length (log_contents d) = 4095"
      using ring_len_full [of ?h 4096 ?t] True b by (simp add: log_contents_def)
    have t': "?t' < length ?b" using b by simp
    have free: "(?h + 1) mod length ?b \<noteq> ?t'" using True b by (auto simp: mod_if split: if_splits)
    have "ring_list (?b[?h := ch]) ((?h + 1) mod 4096) ?t' = tl (log_contents d) @ [ch]"
      using ring_list_push [OF b(2) t' free, of ch] ring_list_pop [OF b(2,3) ne] b(1)
      by (simp add: log_contents_def)
    then show ?thesis
      using True assms full
      by (simp add: log_ring_push_char_def log_contents_def log_inv_def latest_def drop_Suc)
  qed
qed

lemma log_push_chars:
  "log_inv d \<Longrightarrow> log_inv (fold log_ring_push_char s d) \<and>
     log_contents (fold log_ring_push_char s d) = latest 4095 (log_contents d @ s) \<and>
     command_buf (fold log_ring_push_char s d) = command_buf d \<and>
     command_len (fold log_ring_push_char s d) = command_len d"
proof (induction s arbitrary: d)
  case Nil
  then show ?case by (simp add: log_contents_length)
next
  case (Cons ch s)
  with log_push_char [OF Cons.prems, of ch] show ?case by simp
qed

lemma log_line:
  assumes "log_inv d" "debug_log_line cfg formatted d = (d', out)"
  shows "log_inv d' \<and> log_contents d' = latest 4095 (log_contents d @ c_string (take 159 formatted) @ [13, 10]) \<and>
    command_buf d' = command_buf d \<and> command_len d' = command_len d"
proof -
  let ?s = "c_string (take 159 formatted)"
  have "c_string [13, 10] = [13, 10]" by (simp add: c_string_def)
  then have "d' = fold log_ring_push_char [13, 10] (fold log_ring_push_char ?s d)"
    using assms(2) by (auto simp: debug_log_line_def log_ring_push_def)
  with log_push_chars [OF assms(1), of ?s] log_push_chars [of "fold log_ring_push_char ?s d" "[13, 10]"]
  show ?thesis by simp
qed

lemma log_drain_all:
  "log_inv d \<Longrightarrow> log_drain d out = Some (d\<lparr>log_tail := log_head d\<rparr>, out @ log_contents d)"
proof (induction "ring_len 4096 (log_head d) (log_tail d)" arbitrary: d out)
  case 0
  then have "log_head d = log_tail d" using ring_len_zero [of "log_head d" 4096 "log_tail d"] by (simp add: log_inv_def)
  with 0 show ?case by (subst log_drain.simps) (simp add: log_contents_def log_inv_def)
next
  case (Suc k)
  let ?d = "d\<lparr>log_tail := (log_tail d + 1) mod 4096\<rparr>"
  have ne: "log_head d \<noteq> log_tail d" using Suc.hyps(2) Suc.prems by (auto simp: log_inv_def)
  have k: "k = ring_len 4096 (log_head ?d) (log_tail ?d)"
    using Suc.hyps(2) Suc.prems ne ring_len_pop [of "log_head d" 4096 "log_tail d"] by (simp add: log_inv_def)
  have inv: "log_inv ?d" using Suc.prems by (simp add: log_inv_def)
  have c: "log_contents d = (log_ring d ! log_tail d) # log_contents ?d"
    using Suc.prems ne ring_list_pop [of "log_head d" "log_ring d" "log_tail d"]
    by (simp add: log_inv_def log_contents_def)
  show ?case
    using Suc.hyps(1) [OF k inv] ne by (subst log_drain.simps) (simp add: c)
qed

text \<open>Lines logged one after the other.\<close>

definition log_lines :: "build_config \<Rightarrow> bytes list \<Rightarrow> debug_log \<Rightarrow> debug_log" where
  "log_lines cfg ls d = fold (\<lambda>l d. fst (debug_log_line cfg l d)) ls d"

lemma log_lines_contents:
  "log_inv d \<Longrightarrow> log_inv (log_lines cfg ls d) \<and>
     log_contents (log_lines cfg ls d) =
       latest 4095 (log_contents d @ concat (map (\<lambda>l. c_string (take 159 l) @ [13, 10]) ls))"
proof (induction ls arbitrary: d)
  case Nil
  then show ?case by (simp add: log_lines_def log_contents_length)
next
  case (Cons l ls)
  obtain d' out where l: "debug_log_line cfg l d = (d', out)" by fastforce
  note d' = log_line [OF Cons.prems l]
  have s: "log_lines cfg (l # ls) d = log_lines cfg ls d'" by (simp add: log_lines_def l)
  have "latest 4095 (latest 4095 (log_contents d @ c_string (take 159 l) @ [13, 10]) @
         concat (map (\<lambda>l. c_string (take 159 l) @ [13, 10]) ls)) =
       latest 4095 ((log_contents d @ c_string (take 159 l) @ [13, 10]) @
         concat (map (\<lambda>l. c_string (take 159 l) @ [13, 10]) ls))"
    by (rule latest_append)
  with Cons.IH [of d'] d' show ?case by (simp add: s)
qed

text \<open>
  C37: Whatever has been logged, the ring holds the latest 4095 characters of it, each line cut
  to 159 characters and ended with CR LF; and the task, when the port is connected and no
  command waits, prints exactly these, in order, and leaves the ring empty.
\<close>

theorem debug_log_keeps_latest:
  assumes "log_inv (dbg_log s)" "ENABLE_CDC_DEBUG cfg" "\<not> dbg_bootsel s"
  shows "\<exists>s'. debug_log_task cfg hw fmt True [] n
        (s\<lparr>dbg_log := log_lines cfg ls (dbg_log s)\<rparr>) = Some s' \<and>
      dbg_printed s' = dbg_printed s @
        latest 4095 (log_contents (dbg_log s) @ concat (map (\<lambda>l. c_string (take 159 l) @ [13, 10]) ls)) \<and>
      log_contents (dbg_log s') = []"
proof -
  note l = log_lines_contents [OF assms(1), of cfg ls]
  have "log_inv (log_lines cfg ls (dbg_log s))" using l by blast
  then show ?thesis
    using assms(2,3) l log_drain_all [of "log_lines cfg ls (dbg_log s)" "[]"]
    by (auto simp: debug_log_task_def log_contents_def log_inv_def)
qed

theorem debug_log_keeps_latest_witness:
  "\<exists>s'. debug_log_task (default_config\<lparr>ENABLE_CDC_DEBUG := True\<rparr>) low_hw (\<lambda>_. []) True [] 0
      (\<lparr>dbg_log = debug_log_boot, dbg_power = power_boot us_clock, dbg_printed = [], dbg_bootsel = False\<rparr>
        \<lparr>dbg_log := log_lines (default_config\<lparr>ENABLE_CDC_DEBUG := True\<rparr>) [[104, 105]] debug_log_boot\<rparr>) = Some s' \<and>
    dbg_printed s' = [104, 105, 13, 10]"
  using debug_log_keeps_latest [of "\<lparr>dbg_log = debug_log_boot, dbg_power = power_boot us_clock,
      dbg_printed = [], dbg_bootsel = False\<rparr>" "default_config\<lparr>ENABLE_CDC_DEBUG := True\<rparr>" low_hw
      "\<lambda>_. []" 0 "[[104, 105]]"]
  by (auto simp: c_string_def)

section \<open>Command lines\<close>

text \<open>The line editor: a backspace or delete takes the last character back, and a character
  beyond the thirty-first is ignored.\<close>

definition edit_char :: "u8 \<Rightarrow> bytes \<Rightarrow> bytes" where
  "edit_char ch text =
     (if ch = 8 \<or> ch = 127 then butlast text
      else if length text < 31 then text @ [ch] else text)"

definition typed :: "debug_log \<Rightarrow> bytes" where
  "typed d = take (command_len d) (command_buf d)"

definition log_only :: "'t debug_system \<Rightarrow> 't debug_system \<Rightarrow> bool" where
  "log_only s s' \<longleftrightarrow> dbg_power s' = dbg_power s \<and> dbg_bootsel s' = dbg_bootsel s"

lemma edit_length: "length t \<le> 31 \<Longrightarrow> length (edit_char ch t) \<le> 31"
  by (auto simp: edit_char_def)

text \<open>Characters other than line ends edit the line and do nothing else.\<close>

lemma debug_poll_edits:
  assumes "log_inv (dbg_log s)" "\<not> dbg_bootsel s" "13 \<notin> set line" "10 \<notin> set line"
  shows "\<exists>d. debug_poll_commands cfg hw fmt n (line @ rest) s =
      debug_poll_commands cfg hw fmt n rest (s\<lparr>dbg_log := d\<rparr>) \<and>
    log_inv d \<and> typed d = fold edit_char line (typed (dbg_log s)) \<and>
    log_contents d = log_contents (dbg_log s)"
  using assms
proof (induction line arbitrary: s)
  case Nil
  then show ?case by (auto intro: exI [of _ "dbg_log s"])
next
  case (Cons ch line)
  let ?d = "dbg_log s"
  have inv: "length (command_buf ?d) = 32" "command_len ?d < 32" using Cons.prems(1) by (simp_all add: log_inv_def)
  have ch: "ch \<noteq> 13" "ch \<noteq> 10" using Cons.prems by auto
  obtain d where step: "debug_poll_commands cfg hw fmt n ((ch # line) @ rest) s =
      debug_poll_commands cfg hw fmt n (line @ rest) (s\<lparr>dbg_log := d\<rparr>)"
    and d: "log_inv d" "typed d = edit_char ch (typed ?d)" "log_contents d = log_contents ?d"
  proof (cases "ch = 8 \<or> ch = 127")
    case True
    show ?thesis
    proof (rule that [of "if command_len ?d > 0 then ?d\<lparr>command_len := command_len ?d - 1\<rparr> else ?d"])
      show "debug_poll_commands cfg hw fmt n ((ch # line) @ rest) s =
          debug_poll_commands cfg hw fmt n (line @ rest)
            (s\<lparr>dbg_log := if command_len ?d > 0 then ?d\<lparr>command_len := command_len ?d - 1\<rparr> else ?d\<rparr>)"
        using True ch Cons.prems(2) by auto
      show "typed (if command_len ?d > 0 then ?d\<lparr>command_len := command_len ?d - 1\<rparr> else ?d) =
          edit_char ch (typed ?d)"
        using True inv by (auto simp: typed_def edit_char_def butlast_take)
    qed (use Cons.prems(1) in \<open>auto simp: log_inv_def log_contents_def\<close>)
  next
    case False
    show ?thesis
    proof (cases "command_len ?d + 1 < 32")
      case True
      let ?d' = "?d\<lparr>command_buf := (command_buf ?d)[command_len ?d := ch], command_len := command_len ?d + 1\<rparr>"
      show ?thesis
      proof (rule that [of ?d'])
        show "debug_poll_commands cfg hw fmt n ((ch # line) @ rest) s =
            debug_poll_commands cfg hw fmt n (line @ rest) (s\<lparr>dbg_log := ?d'\<rparr>)"
          using True False ch inv Cons.prems(2) by simp
        show "typed ?d' = edit_char ch (typed ?d)"
          using True False inv by (simp add: typed_def edit_char_def)
      qed (use Cons.prems(1) True in \<open>simp_all add: log_inv_def log_contents_def\<close>)
    next
      case full: False
      show ?thesis
      proof (rule that [of ?d])
        show "debug_poll_commands cfg hw fmt n ((ch # line) @ rest) s =
            debug_poll_commands cfg hw fmt n (line @ rest) (s\<lparr>dbg_log := ?d\<rparr>)"
          using full False ch Cons.prems(2) by simp
        show "typed ?d = edit_char ch (typed ?d)"
          using full False inv by (simp add: typed_def edit_char_def)
      qed (use Cons.prems(1) in simp_all)
    qed
  qed
  from Cons.IH [of "s\<lparr>dbg_log := d\<rparr>"] d Cons.prems step show ?case by auto
qed

lemma command_equals_iff: "command_equals got want \<longleftrightarrow> map ascii_lower got = want"
  by (induction got want rule: command_equals.induct) auto

text \<open>What a command line does to the power supervisor, by its text in lower case.\<close>

definition command_power ::
    "build_config \<Rightarrow> ('t, 'w) power_hw \<Rightarrow> nat \<Rightarrow> bytes \<Rightarrow> 't power \<Rightarrow> 't power" where
  "command_power cfg hw n cmd p =
     (if cmd = ascii_text ''standby'' then power_supervisor_debug_force_standby cfg hw n True p
      else if cmd = ascii_text ''host'' then power_supervisor_debug_force_standby cfg hw n False p
      else if cmd = ascii_text ''wake''
      then power_supervisor_request_wake (hw_clock hw) n (Some ''debug command'') p
      else p)"

lemma c_string_cut: "k < length b \<Longrightarrow> c_string (b[k := 0]) = c_string (take k b)"
  by (simp add: c_string_def upd_conv_take_nth_drop takeWhile_tail)

lemma dbg_message_fields:
  assumes "log_inv (dbg_log s)"
  shows "log_inv (dbg_log (dbg_message cfg fmt m s)) \<and>
    dbg_power (dbg_message cfg fmt m s) = dbg_power s \<and>
    dbg_bootsel (dbg_message cfg fmt m s) = dbg_bootsel s"
proof -
  obtain d out where l: "debug_log_line cfg (fmt m) (dbg_log s) = (d, out)" by fastforce
  with log_line [OF assms l] show ?thesis by (simp add: dbg_message_def)
qed

lemma debug_handle_command_result:
  assumes "log_inv (dbg_log s)" "\<not> dbg_bootsel s"
    and "cmd = map ascii_lower (c_string (typed (dbg_log s)))"
  shows "\<exists>s'. debug_handle_command cfg hw fmt n s = Some s' \<and> log_inv (dbg_log s') \<and>
    (if cmd = ascii_text ''bootsel'' \<or> cmd = ascii_text ''boot''
     then dbg_bootsel s' \<and> dbg_power s' = dbg_power s
     else \<not> dbg_bootsel s' \<and> dbg_power s' = command_power cfg hw n cmd (dbg_power s) \<and>
          typed (dbg_log s') = [])"
proof -
  let ?d = "dbg_log s"
  obtain buf where buf: "wr (command_buf ?d) (command_len ?d) 0 = Some buf"
    and b: "c_string buf = c_string (typed ?d)" "length buf = 32"
    using assms(1) by (auto simp: log_inv_def typed_def c_string_cut)
  obtain s0 where s0: "s0 = s\<lparr>dbg_log := ?d\<lparr>command_buf := buf\<rparr>\<rparr>" by blast
  have inv0: "log_inv (dbg_log s0)" using assms(1) b by (simp add: s0 log_inv_def)
  have eq: "debug_command_equals (?d\<lparr>command_buf := buf\<rparr>) want \<longleftrightarrow> cmd = want" for want
    by (simp add: debug_command_equals_def command_equals_iff b(1) assms(3))
  have f: "log_inv (dbg_log (dbg_message cfg fmt m s0))" "dbg_power (dbg_message cfg fmt m s0) = dbg_power s"
    "\<not> dbg_bootsel (dbg_message cfg fmt m s0)" "\<not> dbg_bootsel s0" "dbg_power s0 = dbg_power s" for m
    using dbg_message_fields [OF inv0, of cfg fmt m] assms(2) by (auto simp: s0)
  have reset: "log_inv d \<Longrightarrow> log_inv (d\<lparr>command_len := 0\<rparr>)" "typed (d\<lparr>command_len := 0\<rparr>) = []" for d
    by (simp_all add: log_inv_def typed_def)
  let ?m = "\<lambda>m. dbg_message cfg fmt m s0"
  obtain r where r: "r =
      (if cmd = ascii_text ''bootsel'' \<or> cmd = ascii_text ''boot''
       then (?m (Msg_text ''Entering BOOTSEL''))\<lparr>dbg_bootsel := True\<rparr>
       else if cmd = ascii_text ''state''
       then ?m (Msg_state (power_supervisor_get_state (dbg_power s0)) (power_supervisor_pwr_ok (dbg_power s0))
                  (power_supervisor_usb_vbus_present (dbg_power s0))
                  (power_supervisor_last_wake_reason (dbg_power s0)))
       else if cmd = ascii_text ''standby''
       then s0\<lparr>dbg_power := power_supervisor_debug_force_standby cfg hw n True (dbg_power s0)\<rparr>
       else if cmd = ascii_text ''host''
       then s0\<lparr>dbg_power := power_supervisor_debug_force_standby cfg hw n False (dbg_power s0)\<rparr>
       else if cmd = ascii_text ''wake''
       then (?m (Msg_text ''debug wake requested''))
              \<lparr>dbg_power := power_supervisor_request_wake (hw_clock hw) n (Some ''debug command'') (dbg_power s0)\<rparr>
       else if command_len (?d\<lparr>command_buf := buf\<rparr>) > 0 then ?m (Msg_unknown (c_string buf))
       else s0)" by blast
  have h: "debug_handle_command cfg hw fmt n s =
      Some (if dbg_bootsel r then r else r\<lparr>dbg_log := (dbg_log r)\<lparr>command_len := 0\<rparr>\<rparr>)"
    unfolding debug_handle_command_def buf r by (simp only: Option.bind.bind_lunit Let_def s0 [symmetric] eq)
  have inv: "log_inv (dbg_log r)" unfolding r using f inv0 by (simp split: if_split)
  have boot: "dbg_bootsel r \<longleftrightarrow> cmd = ascii_text ''bootsel'' \<or> cmd = ascii_text ''boot''"
    unfolding r using f by (simp split: if_split)
  have "dbg_power r = (if cmd = ascii_text ''bootsel'' \<or> cmd = ascii_text ''boot'' then dbg_power s
      else if cmd = ascii_text ''state'' then dbg_power s else command_power cfg hw n cmd (dbg_power s))"
    unfolding r command_power_def using f by (simp split: if_split)
  moreover have "cmd = ascii_text ''state'' \<Longrightarrow> command_power cfg hw n cmd (dbg_power s) = dbg_power s"
    by (simp add: command_power_def ascii_text_def)
  ultimately show ?thesis using inv boot by (simp add: h reset split: if_split)
qed

text \<open>Whatever is typed, the commands keep the log well formed and the power state as it is.\<close>

lemma request_wake_state [simp]:
  "power_state (power_supervisor_request_wake ck n r p) = power_state p"
  by (simp add: power_supervisor_request_wake_def)

lemma debug_poll_returns:
  "log_inv (dbg_log s) \<Longrightarrow> \<exists>s'. debug_poll_commands cfg hw fmt n input s = Some s' \<and>
     log_inv (dbg_log s') \<and> power_state (dbg_power s') = power_state (dbg_power s)"
proof (induction input arbitrary: s)
  case Nil
  then show ?case by simp
next
  case (Cons ch input)
  let ?d = "dbg_log s"
  have len: "command_len ?d < length (command_buf ?d)" using Cons.prems by (simp add: log_inv_def)
  show ?case
  proof (cases "dbg_bootsel s \<or> \<not> (ch = 13 \<or> ch = 10)")
    case True
    have "log_inv (?d\<lparr>command_len := command_len ?d - 1\<rparr>)" using Cons.prems by (auto simp: log_inv_def)
    moreover have "command_len ?d + 1 < 32 \<Longrightarrow>
        log_inv (?d\<lparr>command_buf := (command_buf ?d)[command_len ?d := ch], command_len := command_len ?d + 1\<rparr>)"
      using Cons.prems by (simp add: log_inv_def)
    ultimately show ?thesis
      using True Cons.prems len
        Cons.IH [of "s\<lparr>dbg_log := ?d\<lparr>command_len := command_len ?d - 1\<rparr>\<rparr>"] Cons.IH [of s]
        Cons.IH [of "s\<lparr>dbg_log := ?d\<lparr>command_buf := (command_buf ?d)[command_len ?d := ch],
          command_len := command_len ?d + 1\<rparr>\<rparr>"]
      by auto
  next
    case False
    obtain s1 where h: "debug_handle_command cfg hw fmt n s = Some s1" "log_inv (dbg_log s1)"
      "power_state (dbg_power s1) = power_state (dbg_power s)"
      using debug_handle_command_result [OF Cons.prems _ refl, of cfg hw fmt n] False
      by (auto simp: command_power_def split: if_splits)
    from Cons.IH [OF h(2)] h False show ?thesis by auto
  qed
qed

lemma debug_log_task_returns:
  assumes "log_inv (dbg_log s)"
  shows "\<exists>s'. debug_log_task cfg hw fmt connected input n s = Some s' \<and> log_inv (dbg_log s') \<and>
    power_state (dbg_power s') = power_state (dbg_power s)"
proof -
  from debug_poll_returns [OF assms, of cfg hw fmt n input] obtain s1 where
    p: "debug_poll_commands cfg hw fmt n input s = Some s1" "log_inv (dbg_log s1)"
      "power_state (dbg_power s1) = power_state (dbg_power s)" by blast
  have "log_inv ((dbg_log s1)\<lparr>log_tail := log_head (dbg_log s1)\<rparr>)" using p(2) by (simp add: log_inv_def)
  with p log_drain_all [OF p(2), of "[]"] assms show ?thesis by (simp add: debug_log_task_def)
qed

text \<open>
  C35: Typed characters act only as a command line. Whatever is typed before Return, with
  corrections and beyond 31 characters, nothing is written outside the command buffer, and
  Return does exactly what the edited text asks for: \<open>bootsel\<close> or \<open>boot\<close> enter the boot
  loader, \<open>standby\<close>, \<open>host\<close> and \<open>wake\<close> (in any case) act on the power supervisor as named, and
  any other text leaves it alone.
\<close>

theorem debug_command_line:
  assumes "log_inv (dbg_log s)" "\<not> dbg_bootsel s" "13 \<notin> set line" "10 \<notin> set line"
    and "cmd = map ascii_lower (c_string (fold edit_char line (typed (dbg_log s))))"
  shows "\<exists>s'. debug_poll_commands cfg hw fmt n (line @ [13]) s = Some s' \<and>
    (if cmd = ascii_text ''bootsel'' \<or> cmd = ascii_text ''boot''
     then dbg_bootsel s' \<and> dbg_power s' = dbg_power s
     else \<not> dbg_bootsel s' \<and> dbg_power s' = command_power cfg hw n cmd (dbg_power s) \<and>
          typed (dbg_log s') = [])"
proof -
  obtain d where p: "debug_poll_commands cfg hw fmt n (line @ [13]) s =
      debug_poll_commands cfg hw fmt n [13] (s\<lparr>dbg_log := d\<rparr>)"
    and d: "log_inv d" "typed d = fold edit_char line (typed (dbg_log s))"
    using debug_poll_edits [OF assms(1-4)] by blast
  have cmd: "cmd = map ascii_lower (c_string (typed (dbg_log (s\<lparr>dbg_log := d\<rparr>))))"
    by (simp add: d(2) assms(5))
  have inv: "log_inv (dbg_log (s\<lparr>dbg_log := d\<rparr>))" "\<not> dbg_bootsel (s\<lparr>dbg_log := d\<rparr>)"
    using d(1) assms(2) by simp_all
  obtain s' where h: "debug_handle_command cfg hw fmt n (s\<lparr>dbg_log := d\<rparr>) = Some s'"
    and r: "if cmd = ascii_text ''bootsel'' \<or> cmd = ascii_text ''boot''
     then dbg_bootsel s' \<and> dbg_power s' = dbg_power (s\<lparr>dbg_log := d\<rparr>)
     else \<not> dbg_bootsel s' \<and> dbg_power s' = command_power cfg hw n cmd (dbg_power (s\<lparr>dbg_log := d\<rparr>)) \<and>
          typed (dbg_log s') = []"
    using debug_handle_command_result [OF inv cmd, of cfg hw fmt n] by blast
  have "debug_poll_commands cfg hw fmt n (line @ [13]) s = Some s'"
    unfolding p using h inv(2) by simp
  with r show ?thesis by (intro exI [of _ s']) simp
qed

theorem debug_command_line_witness:
  "\<exists>s'. debug_poll_commands default_config low_hw (\<lambda>_. []) 0 [72, 111, 8, 111, 115, 116, 13]
      \<lparr>dbg_log = debug_log_boot, dbg_power = power_boot us_clock, dbg_printed = [], dbg_bootsel = False\<rparr> = Some s' \<and>
    dbg_power s' = power_supervisor_debug_force_standby default_config low_hw 0 False (power_boot us_clock)"
proof -
  let ?s = "\<lparr>dbg_log = debug_log_boot, dbg_power = power_boot us_clock, dbg_printed = [], dbg_bootsel = False\<rparr>"
  have cmd: "[104, 111, 115, 116] = map ascii_lower (c_string (fold edit_char [72, 111, 8, 111, 115, 116] (typed (dbg_log ?s))))"
    by (simp add: typed_def debug_log_boot_def edit_char_def c_string_def ascii_lower_def word_le_nat_alt)
  have words: "ascii_text ''host'' = [104, 111, 115, 116]" "ascii_text ''boot'' = [98, 111, 111, 116]"
    "ascii_text ''bootsel'' = [98, 111, 111, 116, 115, 101, 108]" "ascii_text ''standby'' \<noteq> [104, 111, 115, 116]"
    by (simp_all add: ascii_text_def)
  have pre: "log_inv (dbg_log ?s)" "\<not> dbg_bootsel ?s" "(13 :: u8) \<notin> set [72, 111, 8, 111, 115, 116]"
    "(10 :: u8) \<notin> set [72, 111, 8, 111, 115, 116]" by simp_all
  obtain s' where s': "debug_poll_commands default_config low_hw (\<lambda>_. []) 0 ([72, 111, 8, 111, 115, 116] @ [13]) ?s = Some s'"
    and r: "if [104, 111, 115, 116] = ascii_text ''bootsel'' \<or> [104, 111, 115, 116] = ascii_text ''boot''
     then dbg_bootsel s' \<and> dbg_power s' = dbg_power ?s
     else \<not> dbg_bootsel s' \<and> dbg_power s' = command_power default_config low_hw 0 [104, 111, 115, 116] (dbg_power ?s) \<and>
          typed (dbg_log s') = []"
    using debug_command_line [OF pre cmd, of default_config low_hw "\<lambda>_. []" 0] by blast
  have "dbg_power s' = command_power default_config low_hw 0 [104, 111, 115, 116] (power_boot us_clock)"
    using r by (simp add: words)
  also have "\<dots> = power_supervisor_debug_force_standby default_config low_hw 0 False (power_boot us_clock)"
    using words(4) by (simp add: command_power_def words(1))
  finally show ?thesis using s' by (intro exI [of _ s']) (simp only: append.simps simp_thms)
qed

end
