(* ===== verification/Firmware.thy ===== *)
theory Firmware
  imports Power_Properties Wake_Properties Usb_Bridge Backend_Stub Hci_Transport Bootsel Debug_Log
begin

text \<open>
  \<open>src/main.c\<close>: the receive callback, the two modes and the main loop, over the models of all
  the components. The state is the standby host, the rest of the firmware and the transport
  with the controller behind it; TinyUSB's device functions and the boards' parts are
  parameters. A poll of the transport takes at least a microsecond.
\<close>

section \<open>State\<close>

text \<open>What TinyUSB's \<open>tud_task\<close> calls back with: a command or an ACL transfer from the PC, and
  the completion of a transfer to it.\<close>

datatype usb_event =
    Usb_command bytes
  | Usb_acl bytes
  | Usb_event_sent
  | Usb_acl_sent

record 'u usb_device =
  dev_connect :: "'u \<Rightarrow> 'u"
  dev_disconnect :: "'u \<Rightarrow> 'u"
  dev_ready :: "'u \<Rightarrow> bool"
  dev_event_send :: "bytes \<Rightarrow> 'u \<Rightarrow> bool \<times> 'u"
  dev_acl_send :: "bytes \<Rightarrow> 'u \<Rightarrow> bool \<times> 'u"
  dev_task :: "'u \<Rightarrow> usb_event list \<times> 'u"
  dev_stdio :: "'u \<Rightarrow> bool \<times> bytes \<times> 'u"

record ('t, 'u, 'f, 'b) board =
  board_hw :: "('t, 'u) power_hw"
  board_usb :: "'u usb_device"
  board_flash :: "'f pico_flash"
  board_button :: "'b bootsel_hw"
  board_format :: "debug_message \<Rightarrow> bytes"

text \<open>\<open>fw_rebooted\<close>: the chip was sent to its boot loader and the loop runs no more.\<close>

record ('t, 'u, 'f, 'b) firmware =
  fw_power :: "'t power"
  fw_io :: "('t, 'u) power_io"
  fw_policy :: "'t wake_policy"
  fw_flash :: 'f
  fw_bridge :: bridge
  fw_bootsel :: bootsel
  fw_button :: 'b
  fw_log :: debug_log
  fw_printed :: bytes
  fw_rebooted :: bool
  last_state :: power_state_t
  standby_configured :: bool

abbreviation board_clock :: "('t, 'u, 'f, 'b) board \<Rightarrow> 't pico_clock" where
  "board_clock bd \<equiv> hw_clock (board_hw bd)"

abbreviation fw_now :: "('t, 'u, 'f, 'b) firmware \<Rightarrow> nat" where
  "fw_now fw \<equiv> io_now (fw_io fw)"

abbreviation fw_state :: "('t, 'u, 'f, 'b) firmware \<Rightarrow> power_state_t" where
  "fw_state fw \<equiv> power_state (fw_power fw)"

section \<open>Packets from the controller\<close>

definition backend_rx ::
    "build_config \<Rightarrow> ('t, 'u, 'f, 'b) board \<Rightarrow> hci_packet_type \<Rightarrow> bytes
       \<Rightarrow> host \<times> ('t, 'u, 'f, 'b) firmware \<Rightarrow> (host \<times> ('t, 'u, 'f, 'b) firmware) option" where
  "backend_rx cfg bd t packet s =
     (let (h, fw) = s; ck = board_clock bd; n = fw_now fw;
          state = power_supervisor_get_state (fw_power fw) in
      if state = POWER_STATE_HOST_ON_USB_HCI \<and> usb_bth_bridge_is_enabled (fw_bridge fw)
      then do {
        st \<leftarrow> wake_policy_observe_host_packet cfg ck n t packet (fw_policy fw);
        Some (h, fw\<lparr>fw_policy := st,
                    fw_bridge := usb_bth_bridge_backend_packet cfg t packet (fw_bridge fw)\<rparr>)
      }
      else if state = POWER_STATE_STANDBY_HCI_HOST
      then do {
        let h = hci_host_minimal_packet t packet h;
        (reason, st) \<leftarrow> wake_policy_packet_matches cfg ck n t packet (fw_policy fw);
        let fw = fw\<lparr>fw_policy := st\<rparr>;
        Some (h, (case reason of
                    Some r \<Rightarrow> fw\<lparr>fw_power := power_supervisor_request_wake ck n (Some r) (fw_power fw)\<rparr>
                  | None \<Rightarrow> fw))
      }
      else Some (h, fw))"

text \<open>The callback the transport is given, beside the transport's own state: \<open>backend_rx\<close>, which
  is shown below to have a result whenever the peer list is well formed.\<close>

definition backend_rx_cb ::
    "build_config \<Rightarrow> ('t, 'u, 'f, 'b) board
       \<Rightarrow> (host \<times> ('t, 'u, 'f, 'b) firmware \<times> 'x) hci_rx_cb" where
  "backend_rx_cb cfg bd t packet s =
     (case s of (h, fw, x) \<Rightarrow>
        (case backend_rx cfg bd t packet (h, fw) of Some (h', fw') \<Rightarrow> (h', fw', x) | None \<Rightarrow> s))"

section \<open>The bridge and USB in the loop\<close>

definition usb_do :: "('u \<Rightarrow> 'u) \<Rightarrow> ('t, 'u, 'f, 'b) firmware \<Rightarrow> ('t, 'u, 'f, 'b) firmware" where
  "usb_do f fw = fw\<lparr>fw_io := (fw_io fw)\<lparr>io_usb := f (io_usb (fw_io fw))\<rparr>\<rparr>"

definition usb_call ::
    "('u \<Rightarrow> bool \<times> 'u) \<Rightarrow> host \<times> ('t, 'u, 'f, 'b) firmware \<times> 'x
       \<Rightarrow> bool \<times> host \<times> ('t, 'u, 'f, 'b) firmware \<times> 'x" where
  "usb_call f s =
     (case s of (h, fw, x) \<Rightarrow>
        (fst (f (io_usb (fw_io fw))), h, usb_do (\<lambda>u. snd (f u)) fw, x))"

text \<open>What the bridge's task calls. The transport works on the whole firmware, the bridge's
  variables included.\<close>

definition bridge_env_of ::
    "('t, 'u, 'f, 'b) board \<Rightarrow> (('t, 'u, 'f, 'b) firmware \<times> 'x) host_transport
       \<Rightarrow> ('t, 'u, 'f, 'b) firmware \<Rightarrow> (host \<times> ('t, 'u, 'f, 'b) firmware \<times> 'x) bridge_env" where
  "bridge_env_of bd tr fw =
     \<lparr>tud_ready = dev_ready (board_usb bd) (io_usb (fw_io fw)),
      now_ms = sdk_ms_since_boot (board_clock bd) (fw_now fw),
      sent_ms = sdk_ms_since_boot (board_clock bd) (fw_now fw),
      tud_bt_event_send = (\<lambda>pkt. usb_call (dev_event_send (board_usb bd) pkt)),
      tud_bt_acl_data_send = (\<lambda>pkt. usb_call (dev_acl_send (board_usb bd) pkt)),
      transport_send = Some (\<lambda>t pkt (br, h, fw, x).
        case tr_send tr t pkt (h, fw\<lparr>fw_bridge := br\<rparr>, x) of
          (ok, h', fw', x') \<Rightarrow> (ok, fw_bridge fw', h', fw', x'))\<rparr>"

definition main_bridge_task ::
    "build_config \<Rightarrow> ('t, 'u, 'f, 'b) board \<Rightarrow> (('t, 'u, 'f, 'b) firmware \<times> 'x) host_transport
       \<Rightarrow> host \<times> ('t, 'u, 'f, 'b) firmware \<times> 'x \<Rightarrow> (host \<times> ('t, 'u, 'f, 'b) firmware \<times> 'x) option" where
  "main_bridge_task cfg bd tr s =
     (case s of (h, fw, x) \<Rightarrow>
        map_option (\<lambda>(br, h', fw', x'). (h', fw'\<lparr>fw_bridge := br\<rparr>, x'))
          (usb_bth_bridge_task cfg (bridge_env_of bd tr fw) (fw_bridge fw) s))"

definition usb_event_cb :: "build_config \<Rightarrow> usb_event \<Rightarrow> bridge \<Rightarrow> bridge option" where
  "usb_event_cb cfg ev br =
     (case ev of
        Usb_command cmd \<Rightarrow> Some (tud_bt_hci_cmd_cb cfg cmd br)
      | Usb_acl acl_data \<Rightarrow> tud_bt_acl_data_received_cb acl_data br
      | Usb_event_sent \<Rightarrow> Some (tud_bt_event_sent_cb br)
      | Usb_acl_sent \<Rightarrow> Some (tud_bt_acl_data_sent_cb br))"

fun usb_events :: "build_config \<Rightarrow> usb_event list \<Rightarrow> bridge \<Rightarrow> bridge option" where
  "usb_events cfg [] br = Some br"
| "usb_events cfg (ev # evs) br = Option.bind (usb_event_cb cfg ev br) (usb_events cfg evs)"

definition main_tud_task ::
    "build_config \<Rightarrow> ('t, 'u, 'f, 'b) board \<Rightarrow> ('t, 'u, 'f, 'b) firmware
       \<Rightarrow> ('t, 'u, 'f, 'b) firmware option" where
  "main_tud_task cfg bd fw =
     (case dev_task (board_usb bd) (io_usb (fw_io fw)) of (evs, u) \<Rightarrow>
        map_option (\<lambda>br. (usb_do (\<lambda>_. u) fw)\<lparr>fw_bridge := br\<rparr>) (usb_events cfg evs (fw_bridge fw)))"

section \<open>The modes\<close>

definition set_standby_keyboard :: "bool \<Rightarrow> ('t, 'u, 'f, 'b) firmware \<Rightarrow> ('t, 'u, 'f, 'b) firmware" where
  "set_standby_keyboard b fw =
     fw\<lparr>fw_io := (fw_io fw)\<lparr>io_hid := usb_hid_wake_set_standby b (io_hid (fw_io fw))\<rparr>\<rparr>"

definition keep_or_disconnect ::
    "build_config \<Rightarrow> ('t, 'u, 'f, 'b) board \<Rightarrow> ('t, 'u, 'f, 'b) firmware \<Rightarrow> ('t, 'u, 'f, 'b) firmware" where
  "keep_or_disconnect cfg bd fw =
     (if usb_hid_wake_keep_usb_connected cfg then usb_do (dev_connect (board_usb bd)) fw
      else usb_do (dev_disconnect (board_usb bd)) fw)"

definition enter_host_usb_mode ::
    "('t, 'u, 'f, 'b) board \<Rightarrow> ('t, 'u, 'f, 'b) firmware \<Rightarrow> ('t, 'u, 'f, 'b) firmware" where
  "enter_host_usb_mode bd fw =
     (let fw = set_standby_keyboard False (fw\<lparr>standby_configured := False\<rparr>);
          fw = fw\<lparr>fw_bridge := usb_bth_bridge_set_enabled True (fw_bridge fw)\<rparr>
      in usb_do (dev_connect (board_usb bd)) fw)"

definition leave_host_usb_mode ::
    "build_config \<Rightarrow> ('t, 'u, 'f, 'b) board \<Rightarrow> ('t, 'u, 'f, 'b) firmware \<Rightarrow> ('t, 'u, 'f, 'b) firmware" where
  "leave_host_usb_mode cfg bd fw =
     (let fw = set_standby_keyboard True fw;
          fw = fw\<lparr>fw_bridge := usb_bth_bridge_set_enabled False (fw_bridge fw)\<rparr>
      in keep_or_disconnect cfg bd fw)"

text \<open>A poll of the transport by the firmware takes at least a microsecond.\<close>

definition timed ::
    "(('t, 'u, 'f, 'b) firmware \<times> 'x) host_transport \<Rightarrow> (('t, 'u, 'f, 'b) firmware \<times> 'x) host_transport" where
  "timed tr = tr\<lparr>tr_task := (\<lambda>s. case tr_task tr s of (h, fw, x) \<Rightarrow>
     (h, fw\<lparr>fw_io := (fw_io fw)\<lparr>io_now := fw_now fw + 1\<rparr>\<rparr>, x))\<rparr>"

definition enter_standby_mode ::
    "build_config \<Rightarrow> ('t, 'u, 'f, 'b) board \<Rightarrow> (('t, 'u, 'f, 'b) firmware \<times> 'x) host_transport
       \<Rightarrow> host \<times> ('t, 'u, 'f, 'b) firmware \<times> 'x \<Rightarrow> (host \<times> ('t, 'u, 'f, 'b) firmware \<times> 'x) option" where
  "enter_standby_mode cfg bd tr s =
     (case s of (h, fw, x) \<Rightarrow>
        let fw = leave_host_usb_mode cfg bd fw in
        if \<not> standby_configured fw
        then map_option (\<lambda>(ok, h', fw', x'). (h', fw'\<lparr>standby_configured := ok\<rparr>, x'))
               (hci_host_configure_standby_wake (board_clock bd) (\<lambda>(fw, x). fw_now fw) (Some (timed tr))
                  (h, fw, x))
        else Some (h, fw, x))"

section \<open>The main loop\<close>

text \<open>What the loop does when the power state has changed.\<close>

definition main_mode_change ::
    "build_config \<Rightarrow> ('t, 'u, 'f, 'b) board \<Rightarrow> (('t, 'u, 'f, 'b) firmware \<times> 'x) host_transport
       \<Rightarrow> power_state_t \<Rightarrow> host \<times> ('t, 'u, 'f, 'b) firmware \<times> 'x
       \<Rightarrow> (host \<times> ('t, 'u, 'f, 'b) firmware \<times> 'x) option" where
  "main_mode_change cfg bd tr state s =
     (case s of (h, fw, x) \<Rightarrow>
        if state = POWER_STATE_HOST_ON_USB_HCI then Some (h, enter_host_usb_mode bd fw, x)
        else if state = POWER_STATE_STANDBY_HCI_HOST then enter_standby_mode cfg bd tr s
        else if state = POWER_STATE_HOST_SHUTTING_DOWN \<or> state = POWER_STATE_HOST_OFF \<or>
                state = POWER_STATE_WAIT_WAKE_SENSE_SETTLE
        then Some (h, (leave_host_usb_mode cfg bd fw)\<lparr>standby_configured := False\<rparr>, x)
        else if state = POWER_STATE_WAKE_PULSE then Some (h, fw\<lparr>standby_configured := False\<rparr>, x)
        else Some s)"

definition on_firmware ::
    "(('t, 'u, 'f, 'b) firmware \<Rightarrow> ('t, 'u, 'f, 'b) firmware option)
       \<Rightarrow> host \<times> ('t, 'u, 'f, 'b) firmware \<times> 'x \<Rightarrow> (host \<times> ('t, 'u, 'f, 'b) firmware \<times> 'x) option" where
  "on_firmware f s = (case s of (h, fw, x) \<Rightarrow> map_option (\<lambda>fw'. (h, fw', x)) (f fw))"

text \<open>The work of the state.\<close>

definition main_state_work ::
    "build_config \<Rightarrow> ('t, 'u, 'f, 'b) board \<Rightarrow> (('t, 'u, 'f, 'b) firmware \<times> 'x) host_transport
       \<Rightarrow> power_state_t \<Rightarrow> host \<times> ('t, 'u, 'f, 'b) firmware \<times> 'x
       \<Rightarrow> (host \<times> ('t, 'u, 'f, 'b) firmware \<times> 'x) option" where
  "main_state_work cfg bd tr state s =
     (if state = POWER_STATE_HOST_ON_USB_HCI then do {
        s \<leftarrow> on_firmware (main_tud_task cfg bd) s;
        s \<leftarrow> main_bridge_task cfg bd tr s;
        s \<leftarrow> main_bridge_task cfg bd tr (tr_task (timed tr) s);
        on_firmware (main_tud_task cfg bd) s
      }
      else if state = POWER_STATE_STANDBY_HCI_HOST
      then (let s = tr_task (timed tr) s in
            if \<not> standby_configured (fst (snd s)) then enter_standby_mode cfg bd tr s else Some s)
      else if state = POWER_STATE_WAIT_WAKE_SENSE_SETTLE
      then on_firmware (\<lambda>fw. Some (fw\<lparr>fw_io := (fw_io fw)
             \<lparr>io_now := sdk_sleep_ms (board_clock bd) (fw_now fw) 1\<rparr>\<rparr>)) s
      else Some (tr_task (timed tr) s))"

text \<open>The keyboard, the peer list, the button and the log.\<close>

definition main_keyboard ::
    "build_config \<Rightarrow> ('t, 'u, 'f, 'b) board \<Rightarrow> power_state_t \<Rightarrow> ('t, 'u, 'f, 'b) firmware
       \<Rightarrow> ('t, 'u, 'f, 'b) firmware option" where
  "main_keyboard cfg bd state fw =
     (if state \<noteq> POWER_STATE_HOST_ON_USB_HCI \<and> usb_hid_wake_keep_usb_connected cfg
      then do {
        fw \<leftarrow> main_tud_task cfg bd fw;
        let (hid, u) = usb_hid_wake_task cfg (board_clock bd) (hw_usb (board_hw bd)) (fw_now fw)
              (io_hid (fw_io fw)) (io_usb (fw_io fw));
        Some (fw\<lparr>fw_io := (fw_io fw)\<lparr>io_hid := hid, io_usb := u\<rparr>\<rparr>)
      }
      else Some fw)"

definition main_policy ::
    "build_config \<Rightarrow> ('t, 'u, 'f, 'b) board \<Rightarrow> ('t, 'u, 'f, 'b) firmware \<Rightarrow> ('t, 'u, 'f, 'b) firmware" where
  "main_policy cfg bd fw =
     (let (st, f) = wake_policy_task cfg (board_clock bd) (board_flash bd) (fw_now fw) (fw_policy fw) (fw_flash fw);
          (b, st, f, w) = bootsel_button_task cfg (board_button bd) (board_flash bd)
             (sdk_ms_since_boot (board_clock bd) (fw_now fw)) (fw_bootsel fw) st f (fw_button fw)
      in fw\<lparr>fw_policy := st, fw_flash := f, fw_bootsel := b, fw_button := w\<rparr>)"

definition main_debug ::
    "build_config \<Rightarrow> ('t, 'u, 'f, 'b) board \<Rightarrow> ('t, 'u, 'f, 'b) firmware
       \<Rightarrow> ('t, 'u, 'f, 'b) firmware option" where
  "main_debug cfg bd fw =
     (case dev_stdio (board_usb bd) (io_usb (fw_io fw)) of (connected, input, u) \<Rightarrow>
        map_option (\<lambda>s. (usb_do (\<lambda>_. u) fw)\<lparr>fw_power := dbg_power s, fw_log := dbg_log s,
             fw_printed := dbg_printed s, fw_rebooted := dbg_bootsel s\<rparr>)
          (debug_log_task cfg (board_hw bd) (board_format bd) connected input (fw_now fw)
             \<lparr>dbg_log = fw_log fw, dbg_power = fw_power fw, dbg_printed = fw_printed fw,
              dbg_bootsel = fw_rebooted fw\<rparr>))"

definition main_power :: "build_config \<Rightarrow> ('t, 'u, 'f, 'b) board \<Rightarrow> ('t, 'u, 'f, 'b) firmware
    \<Rightarrow> ('t, 'u, 'f, 'b) firmware" where
  "main_power cfg bd fw =
     (let (p, io) = power_supervisor_task cfg (board_hw bd) (fw_power fw) (fw_io fw)
      in fw\<lparr>fw_power := p, fw_io := io\<rparr>)"

text \<open>One pass of the loop.\<close>

definition main_iteration ::
    "build_config \<Rightarrow> ('t, 'u, 'f, 'b) board \<Rightarrow> (('t, 'u, 'f, 'b) firmware \<times> 'x) host_transport
       \<Rightarrow> host \<times> ('t, 'u, 'f, 'b) firmware \<times> 'x \<Rightarrow> (host \<times> ('t, 'u, 'f, 'b) firmware \<times> 'x) option" where
  "main_iteration cfg bd tr s =
     (case s of (h, fw, x) \<Rightarrow>
        let fw = main_power cfg bd fw;
            state = power_supervisor_get_state (fw_power fw)
        in do {
          s \<leftarrow> (if state \<noteq> last_state fw
               then map_option (\<lambda>(h, fw, x). (h, fw\<lparr>last_state := state\<rparr>, x))
                      (main_mode_change cfg bd tr state (h, fw, x))
               else Some (h, fw, x));
          s \<leftarrow> main_state_work cfg bd tr state s;
          s \<leftarrow> on_firmware (main_keyboard cfg bd state) s;
          on_firmware (\<lambda>fw. main_debug cfg bd (main_policy cfg bd fw)) s
        })"

section \<open>Boot\<close>

text \<open>The static variables when the firmware starts, on a world at reading \<open>n\<close> of the timer.\<close>

definition firmware_boot ::
    "('t, 'u, 'f, 'b) board \<Rightarrow> nat \<Rightarrow> 'u \<Rightarrow> 'f \<Rightarrow> 'b \<Rightarrow> ('t, 'u, 'f, 'b) firmware" where
  "firmware_boot bd n u f b =
     \<lparr>fw_power = power_boot (board_clock bd),
      fw_io = \<lparr>io_now = n, io_gpio = [], io_hid = usb_hid_wake_init (board_clock bd), io_usb = u\<rparr>,
      fw_policy = wake_policy_boot (board_clock bd), fw_flash = f, fw_bridge = bridge_boot,
      fw_bootsel = bootsel_boot, fw_button = b, fw_log = debug_log_boot, fw_printed = [],
      fw_rebooted = False, last_state = POWER_STATE_UNKNOWN, standby_configured = False\<rparr>"

text \<open>
  \<open>main\<close> up to its loop. \<open>transport_init\<close> is the transport's \<open>init\<close>, \<open>dev_init\<close> TinyUSB's
  \<open>tusb_init\<close>; a failure of the former is only logged.
\<close>

definition main_init ::
    "build_config \<Rightarrow> ('t, 'u, 'f, 'b) board \<Rightarrow> (('t, 'u, 'f, 'b) firmware \<times> 'x) host_transport
       \<Rightarrow> (host \<times> ('t, 'u, 'f, 'b) firmware \<times> 'x \<Rightarrow> bool \<times> host \<times> ('t, 'u, 'f, 'b) firmware \<times> 'x)
       \<Rightarrow> ('u \<Rightarrow> 'u) \<Rightarrow> host \<times> ('t, 'u, 'f, 'b) firmware \<times> 'x
       \<Rightarrow> host \<times> ('t, 'u, 'f, 'b) firmware \<times> 'x" where
  "main_init cfg bd tr transport_init dev_init s =
     (let (h, fw, x) = s;
          fw = fw\<lparr>fw_policy := wake_policy_init cfg (board_flash bd) (fw_flash fw) (fw_policy fw)\<rparr>;
          (p, io) = power_supervisor_init cfg (board_hw bd) (fw_power fw) (fw_io fw);
          fw = fw\<lparr>fw_power := p, fw_io := io\<rparr>;
          (_, h, fw, x) = transport_init (h, fw, x);
          (_, h) = hci_host_minimal_init (Some tr) h;
          fw = fw\<lparr>fw_io := (fw_io fw)\<lparr>io_hid := usb_hid_wake_init (board_clock bd)\<rparr>\<rparr>;
          fw = usb_do dev_init fw;
          fw = (if power_supervisor_get_state (fw_power fw) \<noteq> POWER_STATE_HOST_ON_USB_HCI
                then if usb_hid_wake_keep_usb_connected cfg
                     then usb_do (dev_connect (board_usb bd)) (set_standby_keyboard True fw)
                     else usb_do (dev_disconnect (board_usb bd)) fw
                else fw)
      in (h, fw, x))"

end
