(* ===== verification/Firmware_Safety.thy ===== *)
theory Firmware_Safety
  imports Firmware
begin

text \<open>
  What the main loop maintains over every run: the components' invariants, and that exactly
  one side owns the controller: the USB bridge while the PC is on, the standby host otherwise.
\<close>

section \<open>What a receive callback may change\<close>

text \<open>Everything but the bridge: the peer list, a pending wake request, and the time.\<close>

definition wake_only :: "'t power \<Rightarrow> 't power \<Rightarrow> bool" where
  "wake_only p p' \<longleftrightarrow>
     p' = p\<lparr>wake_requested := wake_requested p', wake_reason := wake_reason p'\<rparr> \<and>
     (wake_requested p \<longrightarrow> wake_requested p')"

lemma wake_only_refl [simp]: "wake_only p p"
  by (simp add: wake_only_def)

lemma wake_only_trans: "wake_only a b \<Longrightarrow> wake_only b c \<Longrightarrow> wake_only a c"
  by (cases a; cases b; cases c) (simp add: wake_only_def)

lemma wake_only_request [simp]: "wake_only p (power_supervisor_request_wake ck n r p)"
  by (simp add: wake_only_def power_supervisor_request_wake_def)

lemma wake_only_state: "wake_only p p' \<Longrightarrow> power_state p' = power_state p"
  by (cases p; cases p') (simp add: wake_only_def)

definition fw_frame :: "('t, 'u, 'f, 'b) firmware \<Rightarrow> ('t, 'u, 'f, 'b) firmware \<Rightarrow> bool" where
  "fw_frame fw fw' \<longleftrightarrow>
     policy_inv (fw_policy fw') \<and>
     wake_only (fw_power fw) (fw_power fw') \<and>
     fw_now fw \<le> fw_now fw' \<and> io_gpio (fw_io fw') = io_gpio (fw_io fw) \<and>
     io_hid (fw_io fw') = io_hid (fw_io fw) \<and>
     fw_flash fw' = fw_flash fw \<and> fw_bootsel fw' = fw_bootsel fw \<and> fw_button fw' = fw_button fw \<and>
     fw_log fw' = fw_log fw \<and> fw_printed fw' = fw_printed fw \<and> fw_rebooted fw' = fw_rebooted fw \<and>
     last_state fw' = last_state fw \<and> standby_configured fw' = standby_configured fw"

definition rx_frame :: "('t, 'u, 'f, 'b) firmware \<Rightarrow> ('t, 'u, 'f, 'b) firmware \<Rightarrow> bool" where
  "rx_frame fw fw' \<longleftrightarrow> fw_frame fw fw' \<and> backend_extends (fw_bridge fw) (fw_bridge fw')"

definition rx_good :: "('t, 'u, 'f, 'b) firmware \<Rightarrow> bool" where
  "rx_good fw \<longleftrightarrow> policy_inv (fw_policy fw) \<and> bridge_inv (fw_bridge fw)"

lemma fw_frame_refl [simp]: "policy_inv (fw_policy fw) \<Longrightarrow> fw_frame fw fw"
  by (simp add: fw_frame_def)

lemma fw_frame_trans: "fw_frame a b \<Longrightarrow> fw_frame b c \<Longrightarrow> fw_frame a c"
  by (auto simp: fw_frame_def intro: wake_only_trans)

lemma fw_frameD:
  assumes "fw_frame fw fw'"
  shows "policy_inv (fw_policy fw')" "fw_state fw' = fw_state fw" "fw_now fw \<le> fw_now fw'"
    "io_gpio (fw_io fw') = io_gpio (fw_io fw)" "io_hid (fw_io fw') = io_hid (fw_io fw)"
    "fw_log fw' = fw_log fw" "last_state fw' = last_state fw"
    "standby_configured fw' = standby_configured fw"
  using assms wake_only_state by (auto simp: fw_frame_def)

lemma rx_frame_refl: "rx_good fw \<Longrightarrow> rx_frame fw fw"
  by (simp add: rx_frame_def rx_good_def)

lemma rx_frame_trans: "rx_frame a b \<Longrightarrow> rx_frame b c \<Longrightarrow> rx_frame a c"
  using fw_frame_trans backend_extends_trans by (auto simp: rx_frame_def)

lemma rx_frame_good: "rx_frame a b \<Longrightarrow> rx_good b"
  by (simp add: rx_frame_def rx_good_def fw_frame_def backend_extends_def)

lemma backend_rx_ok:
  assumes "rx_good fw"
  shows "\<exists>h' fw'. backend_rx cfg bd t packet (h, fw) = Some (h', fw') \<and> rx_frame fw fw' \<and>
    fw_now fw' = fw_now fw"
proof -
  let ?ck = "board_clock bd" and ?n = "fw_now fw"
  have inv: "policy_inv (fw_policy fw)" "bridge_inv (fw_bridge fw)" using assms by (simp_all add: rx_good_def)
  obtain st where o: "wake_policy_observe_host_packet cfg ?ck ?n t packet (fw_policy fw) = Some st" "policy_inv st"
    using observe_host_packet_ok [OF inv(1)] by blast
  obtain reason st2 where m: "wake_policy_packet_matches cfg ?ck ?n t packet (fw_policy fw) = Some (reason, st2)"
      "policy_inv st2"
    using packet_matches_spec [OF inv(1), of cfg t packet ?ck ?n] by (auto simp: policy_result_def)
  have e: "backend_extends (fw_bridge fw) (usb_bth_bridge_backend_packet cfg t packet (fw_bridge fw))"
    by (rule backend_packet_extends [OF inv(2)])
  consider
      (on) "fw_state fw = POWER_STATE_HOST_ON_USB_HCI \<and> bridge_enabled (fw_bridge fw)"
    | (standby) "fw_state fw = POWER_STATE_STANDBY_HCI_HOST"
    | (idle) "\<not> (fw_state fw = POWER_STATE_HOST_ON_USB_HCI \<and> bridge_enabled (fw_bridge fw))"
        "fw_state fw \<noteq> POWER_STATE_STANDBY_HCI_HOST" by blast
  then show ?thesis
  proof cases
    case on
    then show ?thesis
      using o e inv by (simp add: backend_rx_def power_supervisor_get_state_def usb_bth_bridge_is_enabled_def
          rx_frame_def fw_frame_def)
  next
    case standby
    show ?thesis
    proof (cases reason)
      case None
      with standby m inv show ?thesis
        by (simp add: backend_rx_def power_supervisor_get_state_def rx_frame_def fw_frame_def)
    next
      case (Some r)
      with standby m inv show ?thesis
        by (simp add: backend_rx_def power_supervisor_get_state_def rx_frame_def fw_frame_def)
    qed
  next
    case idle
    then have "backend_rx cfg bd t packet (h, fw) = Some (h, fw)"
      by (auto simp: backend_rx_def power_supervisor_get_state_def usb_bth_bridge_is_enabled_def)
    with inv show ?thesis by (simp add: rx_frame_def)
  qed
qed

section \<open>The transport's contract\<close>

text \<open>A transport of this firmware, with \<open>X\<close> the invariant of its own state.\<close>

abbreviation fw_transport ::
    "(('t, 'u, 'f, 'b) firmware \<times> 'x) host_transport \<Rightarrow> ('x \<Rightarrow> bool) \<Rightarrow> bool" where
  "fw_transport tr X \<equiv>
     hci_transport tr (\<lambda>(fw, x). rx_good fw \<and> X x) (\<lambda>(fw, x) (fw', x'). rx_frame fw fw') (\<lambda>(fw, x). fw_now fw)"

lemma backend_rx_cb_ok:
  assumes "rx_good fw"
  shows "\<exists>h' fw'. backend_rx_cb cfg bd t packet (h, fw, x) = (h', fw', x) \<and> rx_frame fw fw' \<and>
    fw_now fw' = fw_now fw"
  using backend_rx_ok [OF assms, of cfg bd t packet h] by (auto simp: backend_rx_cb_def)

text \<open>The stub with the firmware's callback meets it.\<close>

interpretation stub: hci_transport "stub_transport (Some (backend_rx_cb cfg bd))"
  "\<lambda>(fw, x). rx_good fw \<and> X x" "\<lambda>(fw, x) (fw', x'). rx_frame fw fw'" "\<lambda>(fw, x). fw_now fw"
  for cfg and bd :: "('t, 'u, 'f, 'b) board" and X :: "'x \<Rightarrow> bool"
proof (unfold_locales, goal_cases)
  case (1 w t p h)
  obtain fw x where w: "w = (fw, x)" by (cases w)
  with 1 have "rx_good fw" by simp
  then obtain h' fw' where
    "backend_rx_cb cfg bd HCI_PKT_EVENT (stub_answer p) (h, fw, x) = (h', fw', x)" "rx_frame fw fw'"
    using backend_rx_cb_ok [of fw cfg bd HCI_PKT_EVENT "stub_answer p" h x] by blast
  with 1 w show ?case
    by (auto simp: stub_transport_def stub_send_answer rx_frame_good rx_frame_refl)
next
  case (5 a b c)
  then show ?case using rx_frame_trans by (auto split: prod.splits)
next
  case (6 a b)
  then show ?case by (auto simp: rx_frame_def fw_frame_def split: prod.splits)
qed (auto simp: stub_transport_def stub_reset_controller_def stub_task_def rx_frame_refl)

text \<open>Polls as the firmware makes them take time.\<close>

lemma timed_fields [simp]:
  "tr_send (timed tr) = tr_send tr" "tr_reset_controller (timed tr) = tr_reset_controller tr"
  by (simp_all add: timed_def)

lemma timed_ok:
  assumes "fw_transport tr X"
  shows "timed_transport (timed tr) (\<lambda>(fw, x). rx_good fw \<and> X x)
    (\<lambda>(fw, x) (fw', x'). rx_frame fw fw') (\<lambda>(fw, x). fw_now fw)"
proof (unfold_locales, goal_cases)
  case (2 w h)
  obtain h1 fw1 x1 where t: "tr_task tr (h, w) = (h1, fw1, x1)" by (metis prod_cases3)
  with hci_transport.task_ok [OF assms 2, of h] show ?case
    by (auto simp: timed_def rx_good_def rx_frame_def fw_frame_def split: prod.splits)
next
  case (7 w h)
  obtain h1 fw1 x1 where t: "tr_task tr (h, w) = (h1, fw1, x1)" by (metis prod_cases3)
  with hci_transport.task_ok [OF assms 7, of h] show ?case
    by (auto simp: timed_def rx_frame_def fw_frame_def split: prod.splits)
qed (use hci_transport.send_ok [OF assms] hci_transport.reset_ok [OF assms] hci_transport.frame_refl [OF assms]
      hci_transport.frame_trans [OF assms] hci_transport.frame_now [OF assms] in \<open>simp_all\<close>)

lemma timed_task:
  assumes "fw_transport tr X" "rx_good fw" "X x"
  obtains h' fw' x' where "tr_task (timed tr) (h, fw, x) = (h', fw', x')" "rx_frame fw fw'" "X x'"
proof -
  obtain h' fw' x' where t: "tr_task (timed tr) (h, fw, x) = (h', fw', x')" by (metis prod_cases3)
  have "hci_transport (timed tr) (\<lambda>(fw, x). rx_good fw \<and> X x)
    (\<lambda>(fw, x) (fw', x'). rx_frame fw fw') (\<lambda>(fw, x). fw_now fw)"
    using timed_ok [OF assms(1)] by (rule timed_transport.axioms)
  from hci_transport.task_ok [OF this, of "(fw, x)" h] assms(2,3) that [OF t]
  show ?thesis by (simp add: t)
qed

section \<open>The parts of the loop\<close>

text \<open>Changes to the world behind TinyUSB.\<close>

lemma usb_do_fields [simp]:
  "fw_power (usb_do f fw) = fw_power fw" "fw_policy (usb_do f fw) = fw_policy fw"
  "fw_bridge (usb_do f fw) = fw_bridge fw" "fw_flash (usb_do f fw) = fw_flash fw"
  "fw_log (usb_do f fw) = fw_log fw" "fw_rebooted (usb_do f fw) = fw_rebooted fw"
  "fw_printed (usb_do f fw) = fw_printed fw" "fw_bootsel (usb_do f fw) = fw_bootsel fw"
  "fw_button (usb_do f fw) = fw_button fw"
  "last_state (usb_do f fw) = last_state fw" "standby_configured (usb_do f fw) = standby_configured fw"
  "fw_now (usb_do f fw) = fw_now fw" "io_hid (fw_io (usb_do f fw)) = io_hid (fw_io fw)"
  "io_gpio (fw_io (usb_do f fw)) = io_gpio (fw_io fw)"
  by (simp_all add: usb_do_def)

lemma usb_do_frame: "fw_frame a fw \<Longrightarrow> fw_frame a (usb_do f fw)"
  by (simp add: fw_frame_def)

lemma set_bridge_frame: "fw_frame a fw \<Longrightarrow> fw_frame a (fw\<lparr>fw_bridge := br\<rparr>)"
  by (simp add: fw_frame_def)

text \<open>The bridge's task, on a transport that meets its contract.\<close>

lemma main_bridge_task_ok:
  assumes tr: "fw_transport tr X" and fw: "rx_good fw" and x: "X x"
  shows "\<exists>h' fw' x'. main_bridge_task cfg bd tr (h, fw, x) = Some (h', fw', x') \<and>
    fw_frame fw fw' \<and> rx_good fw' \<and> bridge_enabled (fw_bridge fw') = bridge_enabled (fw_bridge fw) \<and> X x'"
proof -
  let ?W = "\<lambda>(h :: host, fw', x'). fw_frame fw fw' \<and> X x'"
  let ?env = "bridge_env_of bd tr fw"
  have keeps: "env_keeps ?W ?env"
    unfolding env_keeps_def
  proof (intro conjI allI impI)
    fix pkt w
    assume "?W w"
    then show "?W (snd (tud_bt_event_send ?env pkt w))" "?W (snd (tud_bt_acl_data_send ?env pkt w))"
      by (auto simp: bridge_env_of_def usb_call_def usb_do_frame split: prod.splits)
  next
    fix send t pkt br w
    assume s: "transport_send ?env = Some send" and w: "bridge_inv br \<and> ?W w"
    obtain h1 fw1 x1 where w1: "w = (h1, fw1, x1)" by (metis prod_cases3)
    obtain ok h2 fw2 x2 where t: "tr_send tr t pkt (h1, fw1\<lparr>fw_bridge := br\<rparr>, x1) = (ok, h2, fw2, x2)"
      by (metis prod_cases4)
    have "rx_good (fw1\<lparr>fw_bridge := br\<rparr>)" "X x1" using w w1 by (auto simp: rx_good_def fw_frame_def)
    then have f: "rx_frame (fw1\<lparr>fw_bridge := br\<rparr>) fw2" "X x2"
      using hci_transport.send_ok [OF tr, of "(fw1\<lparr>fw_bridge := br\<rparr>, x1)" t pkt h1] by (simp_all add: t)
    then have "fw_frame fw1 fw2" "backend_extends br (fw_bridge fw2)"
      by (simp_all add: rx_frame_def) (simp add: fw_frame_def)
    moreover have "fw_frame fw fw1" using w w1 by simp
    moreover have "send t pkt (br, w) = (ok, fw_bridge fw2, h2, fw2, x2)"
      using s t by (auto simp: bridge_env_of_def w1)
    ultimately show "backend_extends br (fst (snd (send t pkt (br, w))))" "?W (snd (snd (send t pkt (br, w))))"
      using f(2) fw_frame_trans by auto
  qed
  have w0: "?W (h, fw, x)" and inv: "bridge_inv (fw_bridge fw)" using fw x by (simp_all add: rx_good_def)
  from bridge_task_returns [OF keeps inv w0, of cfg] obtain br' w' where
    t: "usb_bth_bridge_task cfg ?env (fw_bridge fw) (h, fw, x) = Some (br', w')" "bridge_inv br'" "?W w'"
      "bridge_enabled br' = bridge_enabled (fw_bridge fw)" by blast
  obtain h' fw' x' where w': "w' = (h', fw', x')" by (metis prod_cases3)
  have "main_bridge_task cfg bd tr (h, fw, x) = Some (h', fw'\<lparr>fw_bridge := br'\<rparr>, x')"
    using t(1) by (simp add: main_bridge_task_def w')
  with t(2-4) w' show ?thesis
    by (auto simp: set_bridge_frame rx_good_def fw_frame_def)
qed

text \<open>TinyUSB's callbacks.\<close>

lemma usb_event_cb_ok:
  assumes "bridge_inv br"
  shows "\<exists>br'. usb_event_cb cfg ev br = Some br' \<and> bridge_inv br' \<and> bridge_enabled br' = bridge_enabled br"
proof (cases ev)
  case (Usb_command cmd)
  have "bridge_enabled (tud_bt_hci_cmd_cb cfg cmd br) = bridge_enabled br"
    using pre_quirk_extends [OF assms, of cfg "take (to_u16 (length cmd)) cmd"]
    by (auto simp: tud_bt_hci_cmd_cb_def backend_extends_def split_beta)
  with cmd_cb_inv [OF assms] Usb_command show ?thesis by (simp add: usb_event_cb_def)
next
  case (Usb_acl acl_data)
  obtain br' where "usb_bth_bridge_acl_out_fragment br acl_data = Some br'" "bridge_inv br'"
    "bridge_enabled br' = bridge_enabled br"
    using acl_fragment_total [OF assms, of acl_data] acl_fragment_enabled by blast
  with Usb_acl assms show ?thesis
    by (auto simp: usb_event_cb_def tud_bt_acl_data_received_cb_def)
next
  case Usb_event_sent
  with sent_cb_ok(1) [OF assms] show ?thesis
    by (simp add: usb_event_cb_def) (simp add: tud_bt_event_sent_cb_def drop_backend_tail_def)
next
  case Usb_acl_sent
  with sent_cb_ok(1) [OF assms] show ?thesis
    by (simp add: usb_event_cb_def acl_sent_cb_same) (simp add: tud_bt_event_sent_cb_def drop_backend_tail_def)
qed

lemma usb_events_ok:
  "bridge_inv br \<Longrightarrow> \<exists>br'. usb_events cfg evs br = Some br' \<and> bridge_inv br' \<and>
     bridge_enabled br' = bridge_enabled br"
proof (induction evs arbitrary: br)
  case Nil
  then show ?case by simp
next
  case (Cons ev evs)
  from usb_event_cb_ok [OF Cons.prems, of cfg ev] obtain br1 where
    "usb_event_cb cfg ev br = Some br1" "bridge_inv br1" "bridge_enabled br1 = bridge_enabled br" by blast
  with Cons.IH [of br1] show ?case by auto
qed

lemma main_tud_task_ok:
  assumes "rx_good fw"
  shows "\<exists>fw'. main_tud_task cfg bd fw = Some fw' \<and> fw_frame fw fw' \<and> rx_good fw' \<and>
    bridge_enabled (fw_bridge fw') = bridge_enabled (fw_bridge fw)"
proof -
  obtain evs u where d: "dev_task (board_usb bd) (io_usb (fw_io fw)) = (evs, u)"
    by (cases "dev_task (board_usb bd) (io_usb (fw_io fw))")
  from usb_events_ok [of "fw_bridge fw" cfg evs] assms obtain br where
    "usb_events cfg evs (fw_bridge fw) = Some br" "bridge_inv br"
    "bridge_enabled br = bridge_enabled (fw_bridge fw)" by (auto simp: rx_good_def)
  with d assms show ?thesis
    by (simp add: main_tud_task_def rx_good_def set_bridge_frame usb_do_frame)
qed

section \<open>Who owns the controller\<close>

text \<open>
  The bridge is enabled exactly in the PC-on state, scanning is configured in standby only, and
  the standby keyboard is in use exactly when the PC is not on.
\<close>

definition modes_ok :: "('t, 'u, 'f, 'b) firmware \<Rightarrow> bool" where
  "modes_ok fw \<longleftrightarrow>
     (bridge_enabled (fw_bridge fw) \<longleftrightarrow> last_state fw = POWER_STATE_HOST_ON_USB_HCI) \<and>
     (standby_configured fw \<longrightarrow> last_state fw = POWER_STATE_STANDBY_HCI_HOST) \<and>
     (standby_mode (io_hid (fw_io fw)) \<longleftrightarrow> last_state fw \<noteq> POWER_STATE_HOST_ON_USB_HCI)"

definition live_state :: "power_state_t \<Rightarrow> bool" where
  "live_state s \<longleftrightarrow> s \<noteq> POWER_STATE_UNKNOWN \<and> s \<noteq> POWER_STATE_FAULT"

text \<open>The firmware inside a pass, once the mode is that of the state.\<close>

definition fw_mode :: "power_state_t \<Rightarrow> ('t, 'u, 'f, 'b) firmware \<Rightarrow> bool" where
  "fw_mode state fw \<longleftrightarrow> rx_good fw \<and> log_inv (fw_log fw) \<and> fw_state fw = state \<and>
     last_state fw = state \<and> live_state state \<and> modes_ok fw"

text \<open>Between two passes: as after a pass, or still as \<open>main\<close> leaves it before the first.\<close>

definition fw_inv :: "('t, 'u, 'f, 'b) firmware \<Rightarrow> bool" where
  "fw_inv fw \<longleftrightarrow> fw_mode (fw_state fw) fw \<or>
     rx_good fw \<and> log_inv (fw_log fw) \<and> last_state fw = POWER_STATE_UNKNOWN \<and>
     (fw_state fw = POWER_STATE_HOST_ON_USB_HCI \<or> fw_state fw = POWER_STATE_HOST_OFF) \<and>
     \<not> bridge_enabled (fw_bridge fw) \<and> \<not> standby_configured fw"

lemma fw_mode_frame:
  "fw_mode state fw \<Longrightarrow> fw_frame fw fw' \<Longrightarrow> rx_good fw' \<Longrightarrow>
   bridge_enabled (fw_bridge fw') = bridge_enabled (fw_bridge fw) \<Longrightarrow> fw_mode state fw'"
  using fw_frameD [of fw fw'] by (auto simp: fw_mode_def modes_ok_def)

lemma rx_frame_mode: "fw_mode state fw \<Longrightarrow> rx_frame fw fw' \<Longrightarrow> fw_mode state fw'"
  using rx_frame_good by (auto simp: rx_frame_def backend_extends_def intro: fw_mode_frame)

subsection \<open>The mode changes\<close>

lemma set_standby_keyboard_fields [simp]:
  "fw_power (set_standby_keyboard b fw) = fw_power fw" "fw_policy (set_standby_keyboard b fw) = fw_policy fw"
  "fw_bridge (set_standby_keyboard b fw) = fw_bridge fw" "fw_log (set_standby_keyboard b fw) = fw_log fw"
  "last_state (set_standby_keyboard b fw) = last_state fw"
  "standby_configured (set_standby_keyboard b fw) = standby_configured fw"
  "standby_mode (io_hid (fw_io (set_standby_keyboard b fw))) = b"
  "fw_now (set_standby_keyboard b fw) = fw_now fw"
  by (simp_all add: set_standby_keyboard_def usb_hid_wake_set_standby_def)

lemma set_enabled_enabled [simp]: "bridge_enabled (usb_bth_bridge_set_enabled e br) = e"
  by (simp add: usb_bth_bridge_set_enabled_def)

lemma leave_host_fields [simp]:
  "fw_power (leave_host_usb_mode cfg bd fw) = fw_power fw"
  "fw_policy (leave_host_usb_mode cfg bd fw) = fw_policy fw"
  "fw_bridge (leave_host_usb_mode cfg bd fw) = usb_bth_bridge_set_enabled False (fw_bridge fw)"
  "fw_log (leave_host_usb_mode cfg bd fw) = fw_log fw"
  "last_state (leave_host_usb_mode cfg bd fw) = last_state fw"
  "standby_configured (leave_host_usb_mode cfg bd fw) = standby_configured fw"
  "standby_mode (io_hid (fw_io (leave_host_usb_mode cfg bd fw)))"
  "fw_now (leave_host_usb_mode cfg bd fw) = fw_now fw"
  by (simp_all add: leave_host_usb_mode_def keep_or_disconnect_def)

lemma enter_host_fields [simp]:
  "fw_power (enter_host_usb_mode bd fw) = fw_power fw" "fw_policy (enter_host_usb_mode bd fw) = fw_policy fw"
  "fw_bridge (enter_host_usb_mode bd fw) = usb_bth_bridge_set_enabled True (fw_bridge fw)"
  "fw_log (enter_host_usb_mode bd fw) = fw_log fw" "last_state (enter_host_usb_mode bd fw) = last_state fw"
  "\<not> standby_configured (enter_host_usb_mode bd fw)"
  "\<not> standby_mode (io_hid (fw_io (enter_host_usb_mode bd fw)))"
  "fw_now (enter_host_usb_mode bd fw) = fw_now fw"
  by (simp_all add: enter_host_usb_mode_def)

text \<open>What a pass may do after the power step, debug commands left aside.\<close>

definition pass_frame :: "('t, 'u, 'f, 'b) firmware \<Rightarrow> ('t, 'u, 'f, 'b) firmware \<Rightarrow> bool" where
  "pass_frame fw fw' \<longleftrightarrow> wake_only (fw_power fw) (fw_power fw') \<and>
     io_gpio (fw_io fw') = io_gpio (fw_io fw) \<and> fw_now fw \<le> fw_now fw'"

lemma pass_frame_refl [simp]: "pass_frame fw fw"
  by (simp add: pass_frame_def)

lemma pass_frame_trans: "pass_frame a b \<Longrightarrow> pass_frame b c \<Longrightarrow> pass_frame a c"
  by (auto simp: pass_frame_def intro: wake_only_trans)

lemma fw_frame_pass: "fw_frame a b \<Longrightarrow> pass_frame a b"
  by (simp add: fw_frame_def pass_frame_def)

lemma leave_enter_gpio [simp]:
  "io_gpio (fw_io (leave_host_usb_mode cfg bd fw)) = io_gpio (fw_io fw)"
  "io_gpio (fw_io (enter_host_usb_mode bd fw)) = io_gpio (fw_io fw)"
  by (simp_all add: leave_host_usb_mode_def enter_host_usb_mode_def keep_or_disconnect_def
      set_standby_keyboard_def)

lemma leave_enter_pass [simp]:
  "pass_frame fw (leave_host_usb_mode cfg bd fw)" "pass_frame fw (enter_host_usb_mode bd fw)"
  by (simp_all add: pass_frame_def)

text \<open>Entering standby returns, whatever the controller answers.\<close>

lemma enter_standby_ok:
  assumes ck: "pico_clock_ok (board_clock bd)" and tr: "fw_transport tr X" and fw: "rx_good fw" and x: "X x"
  shows "\<exists>h' fw' x'. enter_standby_mode cfg bd tr (h, fw, x) = Some (h', fw', x') \<and> rx_good fw' \<and> X x' \<and>
    fw_state fw' = fw_state fw \<and> last_state fw' = last_state fw \<and> fw_log fw' = fw_log fw \<and>
    \<not> bridge_enabled (fw_bridge fw') \<and> standby_mode (io_hid (fw_io fw')) \<and> pass_frame fw fw'"
proof -
  let ?fw = "leave_host_usb_mode cfg bd fw"
  have g: "rx_good ?fw" using fw by (simp add: rx_good_def set_enabled_inv)
  show ?thesis
  proof (cases "standby_configured ?fw")
    case True
    with g x show ?thesis by (simp add: enter_standby_mode_def)
  next
    case False
    have "case (?fw, x) of (fw, x) \<Rightarrow> rx_good fw \<and> X x" using g x by simp
    from timed_transport.configure_returns [OF timed_ok [OF tr] ck this, of h] obtain ok h' w' where
      c: "hci_host_configure_standby_wake (board_clock bd) (\<lambda>(fw, x). fw_now fw) (Some (timed tr)) (h, ?fw, x) =
        Some (ok, h', w')"
      and w: "(\<lambda>(fw, x). rx_good fw \<and> X x) w'"
        "(\<lambda>(fw, x) (fw', x'). rx_frame fw fw') (?fw, x) w'"
      by blast
    obtain fw' x' where w': "w' = (fw', x')" by (cases w')
    have f: "rx_frame ?fw fw'" "rx_good fw'" "X x'" using w by (simp_all add: w')
    then have p: "pass_frame ?fw fw'" by (simp add: rx_frame_def fw_frame_pass)
    have "pass_frame fw (fw'\<lparr>standby_configured := ok\<rparr>)"
      using pass_frame_trans [OF leave_enter_pass(1) p] by (simp add: pass_frame_def)
    moreover
    have "enter_standby_mode cfg bd tr (h, fw, x) = Some (h', fw'\<lparr>standby_configured := ok\<rparr>, x')"
      using False c by (simp add: enter_standby_mode_def w')
    ultimately show ?thesis
      using f fw_frameD [of ?fw fw'] by (simp add: rx_frame_def rx_good_def backend_extends_def)
  qed
qed

end
