(* ===== verification/Firmware_Loop.thy ===== *)
theory Firmware_Loop
  imports Firmware_Safety
begin

text \<open>
  One pass of the main loop, step by step: every step returns, keeps the mode of the state and
  the components' invariants, and changes the power supervisor and the GPIO lines no more than
  \<open>pass_frame\<close> says.
\<close>

section \<open>The power step\<close>

lemma power_task_edge:
  "power_state (fst (power_supervisor_task cfg hw p io)) = power_state p \<or>
   power_edge (power_state p) (power_state (fst (power_supervisor_task cfg hw p io)))"
proof -
  let ?p = "update_power_inputs cfg hw (io_now io) p"
  have "power_guard cfg (hw_clock hw) (io_now io) ?p (power_state (fst (power_switch cfg hw ?p io))) \<or>
      power_state (fst (power_switch cfg hw ?p io)) = power_state ?p"
    using power_switch_guard [of cfg hw ?p io] by blast
  then show ?thesis
    unfolding power_task_fields using power_guard_edge by fastforce
qed

lemma request_keypress_mode [simp]:
  "standby_mode (fst (usb_hid_wake_request_keypress cfg tud h w)) = standby_mode h"
  by (simp add: usb_hid_wake_request_keypress_def)

lemma pulse_hid [simp]:
  "io_hid (power_supervisor_pulse_power_button_ms cfg hw ms io) = io_hid io"
  by (simp add: power_supervisor_pulse_power_button_ms_def power_button_press_def power_button_release_def)

lemma power_task_mode [simp]:
  "standby_mode (io_hid (snd (power_supervisor_task cfg hw p io))) = standby_mode (io_hid io)"
  by (cases "power_state p")
     (simp_all add: power_task_split update_status_led_def power_switch_def power_wake_pulse_def
        power_fault_led_def split_beta)

lemma power_edge_live: "power_edge s s' \<Longrightarrow> live_state s'"
  by (auto simp: live_state_def elim: power_edge.cases)

lemma main_power_fields [simp]:
  "fw_power (main_power cfg bd fw) =
     fst (power_supervisor_task cfg (board_hw bd) (fw_power fw) (fw_io fw))"
  "fw_io (main_power cfg bd fw) =
     snd (power_supervisor_task cfg (board_hw bd) (fw_power fw) (fw_io fw))"
  "fw_policy (main_power cfg bd fw) = fw_policy fw" "fw_bridge (main_power cfg bd fw) = fw_bridge fw"
  "fw_log (main_power cfg bd fw) = fw_log fw" "last_state (main_power cfg bd fw) = last_state fw"
  "standby_configured (main_power cfg bd fw) = standby_configured fw"
  by (simp_all add: main_power_def split_beta)

text \<open>What a change to the state in \<open>state\<close> can start from.\<close>

definition mode_before :: "power_state_t \<Rightarrow> ('t, 'u, 'f, 'b) firmware \<Rightarrow> bool" where
  "mode_before state fw \<longleftrightarrow> rx_good fw \<and> log_inv (fw_log fw) \<and> fw_state fw = state \<and> live_state state \<and>
     (state = POWER_STATE_WAKE_PULSE \<longrightarrow> modes_ok fw \<and> last_state fw = POWER_STATE_STANDBY_HCI_HOST) \<and>
     (state = POWER_STATE_WAIT_HOST_BOOT \<longrightarrow>
        modes_ok fw \<and> last_state fw = POWER_STATE_WAIT_WAKE_SENSE_SETTLE)"

lemma main_power_ok:
  assumes "fw_inv fw"
  shows "fw_state (main_power cfg bd fw) = last_state fw \<and>
      fw_mode (fw_state (main_power cfg bd fw)) (main_power cfg bd fw) \<or>
    fw_state (main_power cfg bd fw) \<noteq> last_state fw \<and>
      mode_before (fw_state (main_power cfg bd fw)) (main_power cfg bd fw)"
proof -
  let ?s = "fw_state (main_power cfg bd fw)"
  have e: "?s = fw_state fw \<or> power_edge (fw_state fw) ?s"
    using power_task_edge by simp
  show ?thesis
  proof (cases "fw_mode (fw_state fw) fw")
    case True
    then have live: "live_state ?s" and last: "last_state fw = fw_state fw"
      using e power_edge_live by (auto simp: fw_mode_def)
    have good: "rx_good (main_power cfg bd fw)" "log_inv (fw_log (main_power cfg bd fw))"
      "modes_ok (main_power cfg bd fw)"
      using True by (auto simp: fw_mode_def rx_good_def modes_ok_def)
    have "?s = POWER_STATE_WAKE_PULSE \<Longrightarrow> ?s \<noteq> last_state fw \<Longrightarrow> last_state fw = POWER_STATE_STANDBY_HCI_HOST"
      and "?s = POWER_STATE_WAIT_HOST_BOOT \<Longrightarrow> ?s \<noteq> last_state fw \<Longrightarrow>
        last_state fw = POWER_STATE_WAIT_WAKE_SENSE_SETTLE"
      using e unfolding last by (auto elim: power_edge.cases)
    with good live show ?thesis by (auto simp: fw_mode_def mode_before_def)
  next
    case False
    with assms have b: "rx_good fw" "log_inv (fw_log fw)" "last_state fw = POWER_STATE_UNKNOWN"
      "fw_state fw = POWER_STATE_HOST_ON_USB_HCI \<or> fw_state fw = POWER_STATE_HOST_OFF"
      by (auto simp: fw_inv_def)
    have "live_state ?s" "?s \<noteq> POWER_STATE_WAKE_PULSE" "?s \<noteq> POWER_STATE_WAIT_HOST_BOOT"
      using e b(4) by (auto simp: live_state_def)
    moreover have "rx_good (main_power cfg bd fw)" using b(1) by (simp add: rx_good_def)
    ultimately show ?thesis using b by (auto simp: mode_before_def live_state_def)
  qed
qed

section \<open>The mode change\<close>

lemma mode_change_ok:
  assumes ck: "pico_clock_ok (board_clock bd)" and tr: "fw_transport tr X"
    and b: "mode_before state fw" and x: "X x"
  shows "\<exists>h' fw' x'. main_mode_change cfg bd tr state (h, fw, x) = Some (h', fw', x') \<and>
    fw_mode state (fw'\<lparr>last_state := state\<rparr>) \<and> pass_frame fw fw' \<and> X x'"
proof -
  have g: "rx_good fw" "log_inv (fw_log fw)" "fw_state fw = state" "live_state state"
    using b by (simp_all add: mode_before_def)
  have br: "policy_inv (fw_policy fw)" "bridge_inv (fw_bridge fw)" using g(1) by (simp_all add: rx_good_def)
  have m: "fw_mode state (fw'\<lparr>last_state := state\<rparr>) \<longleftrightarrow>
      rx_good fw' \<and> log_inv (fw_log fw') \<and> fw_state fw' = state \<and>
      (bridge_enabled (fw_bridge fw') \<longleftrightarrow> state = POWER_STATE_HOST_ON_USB_HCI) \<and>
      (standby_configured fw' \<longrightarrow> state = POWER_STATE_STANDBY_HCI_HOST) \<and>
      (standby_mode (io_hid (fw_io fw')) \<longleftrightarrow> state \<noteq> POWER_STATE_HOST_ON_USB_HCI)"
    for fw' :: "('a, 'b, 'c, 'd) firmware"
    using g(4) by (auto simp: fw_mode_def modes_ok_def rx_good_def)
  show ?thesis
  proof (cases state)
    case POWER_STATE_STANDBY_HCI_HOST
    from enter_standby_ok [OF ck tr g(1) x, of cfg h] obtain h' fw' x' where
      "enter_standby_mode cfg bd tr (h, fw, x) = Some (h', fw', x')" "rx_good fw'" "X x'"
      "fw_state fw' = fw_state fw" "fw_log fw' = fw_log fw" "\<not> bridge_enabled (fw_bridge fw')"
      "standby_mode (io_hid (fw_io fw'))" "pass_frame fw fw'"
      by blast
    with g POWER_STATE_STANDBY_HCI_HOST show ?thesis
      unfolding m by (simp add: main_mode_change_def)
  next
    case POWER_STATE_WAKE_PULSE
    with b g x show ?thesis
      unfolding m by (auto simp: main_mode_change_def mode_before_def modes_ok_def rx_good_def pass_frame_def)
  next
    case POWER_STATE_WAIT_HOST_BOOT
    with b g x show ?thesis
      unfolding m by (auto simp: main_mode_change_def mode_before_def modes_ok_def)
  qed (use g br x in \<open>auto simp: fw_mode_def modes_ok_def main_mode_change_def rx_good_def set_enabled_inv
         live_state_def pass_frame_def\<close>)
qed

section \<open>The work of a state\<close>

text \<open>A step of a pass that returns, keeps the mode and stays within the frame.\<close>

definition step_ok ::
    "power_state_t \<Rightarrow> ('x \<Rightarrow> bool) \<Rightarrow> ('t, 'u, 'f, 'b) firmware
       \<Rightarrow> (host \<times> ('t, 'u, 'f, 'b) firmware \<times> 'x) option \<Rightarrow> bool" where
  "step_ok state X fw r \<longleftrightarrow>
     (\<exists>h' fw' x'. r = Some (h', fw', x') \<and> fw_mode state fw' \<and> pass_frame fw fw' \<and> X x')"

lemma step_ok_Some [simp]:
  "step_ok state X fw (Some (h', fw', x')) \<longleftrightarrow> fw_mode state fw' \<and> pass_frame fw fw' \<and> X x'"
  by (simp add: step_ok_def)

lemma step_ok_bind:
  assumes "step_ok state X fw r"
    and "\<And>h' fw' x'. fw_mode state fw' \<Longrightarrow> X x' \<Longrightarrow> step_ok state X fw' (k (h', fw', x'))"
  shows "step_ok state X fw (Option.bind r k)"
proof -
  from assms(1) obtain h1 fw1 x1 where r: "r = Some (h1, fw1, x1)" "fw_mode state fw1" "pass_frame fw fw1" "X x1"
    by (auto simp: step_ok_def)
  with assms(2) [OF r(2,4), of h1] pass_frame_trans [OF r(3)] show ?thesis by (auto simp: step_ok_def)
qed

lemma step_ok_on_firmware:
  "step_ok state X fw (on_firmware f (h, fw, x)) \<longleftrightarrow>
   X x \<and> (\<exists>fw'. f fw = Some fw' \<and> fw_mode state fw' \<and> pass_frame fw fw')"
  by (auto simp: on_firmware_def step_ok_def)

lemma tud_step:
  assumes "fw_mode state fw"
  shows "\<exists>fw'. main_tud_task cfg bd fw = Some fw' \<and> fw_mode state fw' \<and> pass_frame fw fw'"
proof -
  have "rx_good fw" using assms by (simp add: fw_mode_def)
  from main_tud_task_ok [OF this, of cfg bd] show ?thesis
    using assms fw_mode_frame fw_frame_pass by blast
qed

lemma bridge_step:
  assumes tr: "fw_transport tr X" and m: "fw_mode state fw" and x: "X x"
  shows "step_ok state X fw (main_bridge_task cfg bd tr (h, fw, x))"
proof -
  have "rx_good fw" using m by (simp add: fw_mode_def)
  from main_bridge_task_ok [OF tr this x, of cfg bd h] show ?thesis
    unfolding step_ok_def using m fw_mode_frame fw_frame_pass by blast
qed

lemma task_step:
  assumes "fw_transport tr X" and m: "fw_mode state fw" and "X x"
  shows "step_ok state X fw (Some (tr_task (timed tr) (h, fw, x)))"
proof -
  have g: "rx_good fw" using m by (simp add: fw_mode_def)
  obtain h' fw' x' where t: "tr_task (timed tr) (h, fw, x) = (h', fw', x')" "rx_frame fw fw'" "X x'"
    by (rule timed_task [OF assms(1) g assms(3)])
  moreover have "pass_frame fw fw'" using t(2) by (simp add: rx_frame_def fw_frame_pass)
  ultimately show ?thesis using rx_frame_mode [OF m t(2)] by (simp add: step_ok_def)
qed

lemma standby_step:
  assumes ck: "pico_clock_ok (board_clock bd)" and tr: "fw_transport tr X"
    and m: "fw_mode POWER_STATE_STANDBY_HCI_HOST fw" and x: "X x"
  shows "step_ok POWER_STATE_STANDBY_HCI_HOST X fw (enter_standby_mode cfg bd tr (h, fw, x))"
proof -
  have g: "rx_good fw" using m by (simp add: fw_mode_def)
  from enter_standby_ok [OF ck tr g x, of cfg h] obtain h' fw' x' where
    "enter_standby_mode cfg bd tr (h, fw, x) = Some (h', fw', x')" "rx_good fw'" "X x'"
    "fw_state fw' = fw_state fw" "last_state fw' = last_state fw" "fw_log fw' = fw_log fw"
    "\<not> bridge_enabled (fw_bridge fw')" "standby_mode (io_hid (fw_io fw'))" "pass_frame fw fw'"
    by blast
  with m show ?thesis by (simp add: fw_mode_def modes_ok_def)
qed

lemma state_work_ok:
  assumes ck: "pico_clock_ok (board_clock bd)" and tr: "fw_transport tr X"
    and m: "fw_mode state fw" and x: "X x"
  shows "step_ok state X fw (main_state_work cfg bd tr state (h, fw, x))"
proof -
  have task: "step_ok state X fw (Some (tr_task (timed tr) (h, fw, x)))"
    if "fw_mode state fw" "X x" for h fw x using task_step [OF tr that] .
  consider (on) "state = POWER_STATE_HOST_ON_USB_HCI" | (standby) "state = POWER_STATE_STANDBY_HCI_HOST"
    | (settle) "state = POWER_STATE_WAIT_WAKE_SENSE_SETTLE"
    | (other) "state \<noteq> POWER_STATE_HOST_ON_USB_HCI" "state \<noteq> POWER_STATE_STANDBY_HCI_HOST"
        "state \<noteq> POWER_STATE_WAIT_WAKE_SENSE_SETTLE" by blast
  then show ?thesis
  proof cases
    case on
    have poll: "step_ok state X fw (Option.bind (main_bridge_task cfg bd tr (tr_task (timed tr) (h, fw, x))) k)"
      if s: "fw_mode state fw" "X x"
        and k: "\<And>h fw x. fw_mode state fw \<Longrightarrow> X x \<Longrightarrow> step_ok state X fw (k (h, fw, x))" for h fw x k
    proof -
      have "step_ok state X fw (Option.bind (Some (tr_task (timed tr) (h, fw, x)))
          (\<lambda>s. Option.bind (main_bridge_task cfg bd tr s) k))"
        by (intro step_ok_bind [OF task [OF s]] step_ok_bind [OF bridge_step [OF tr]] k)
      then show ?thesis by simp
    qed
    have tud: "step_ok state X fw (on_firmware (main_tud_task cfg bd) (h, fw, x))"
      if "fw_mode state fw" "X x" for h fw x
      using tud_step [OF that(1)] that(2) by (simp add: step_ok_on_firmware)
    show ?thesis
      unfolding main_state_work_def if_P [OF on]
      by (intro step_ok_bind [OF tud [OF m x]] step_ok_bind [OF bridge_step [OF tr]] poll tud)
  next
    case standby
    let ?k = "\<lambda>s. if \<not> standby_configured (fst (snd s)) then enter_standby_mode cfg bd tr s else Some s"
    have k: "step_ok state X fw (?k (h, fw, x))" if "fw_mode state fw" "X x" for h fw x
      using standby_step [OF ck tr, of fw x cfg h] that standby by simp
    have "step_ok state X fw (Option.bind (Some (tr_task (timed tr) (h, fw, x))) ?k)"
      by (intro step_ok_bind [OF task [OF m x]] k)
    then show ?thesis by (simp add: main_state_work_def standby)
  next
    case settle
    have "fw_now fw \<le> sdk_sleep_ms (board_clock bd) (fw_now fw) 1"
      using clock_sleep [OF ck, of "fw_now fw" 1] by linarith
    with m x show ?thesis
      by (auto simp: main_state_work_def settle step_ok_on_firmware fw_mode_def modes_ok_def rx_good_def pass_frame_def)
  next
    case other
    with task [OF m x] show ?thesis by (simp add: main_state_work_def)
  qed
qed

section \<open>The keyboard, the peer list and the log\<close>

lemma hid_task_mode [simp]: "standby_mode (fst (usb_hid_wake_task cfg ck tud n h w)) = standby_mode h"
  by (simp add: usb_hid_wake_task_def split_beta)

lemma set_hid_mode:
  "fw_mode state fw \<Longrightarrow> standby_mode hid = standby_mode (io_hid (fw_io fw)) \<Longrightarrow>
   fw_mode state (fw\<lparr>fw_io := (fw_io fw)\<lparr>io_hid := hid, io_usb := u\<rparr>\<rparr>)"
  by (auto simp: fw_mode_def modes_ok_def rx_good_def)

lemma keyboard_step:
  assumes "fw_mode state fw"
  shows "\<exists>fw'. main_keyboard cfg bd state fw = Some fw' \<and> fw_mode state fw' \<and> pass_frame fw fw'"
proof (cases "state \<noteq> POWER_STATE_HOST_ON_USB_HCI \<and> usb_hid_wake_keep_usb_connected cfg")
  case True
  from tud_step [OF assms, of cfg bd] obtain fw1 where
    t: "main_tud_task cfg bd fw = Some fw1" "fw_mode state fw1" "pass_frame fw fw1" by blast
  obtain hid u where k: "usb_hid_wake_task cfg (board_clock bd) (hw_usb (board_hw bd)) (fw_now fw1)
      (io_hid (fw_io fw1)) (io_usb (fw_io fw1)) = (hid, u)" by fastforce
  then have "standby_mode hid = standby_mode (io_hid (fw_io fw1))" by (metis fst_conv hid_task_mode)
  from set_hid_mode [OF t(2) this, of u] t True k show ?thesis
    by (simp add: main_keyboard_def pass_frame_def)
qed (use assms in \<open>auto simp: main_keyboard_def\<close>)

lemma policy_task_inv: "policy_inv st \<Longrightarrow> policy_inv (fst (wake_policy_task cfg ck fl n st w))"
  by (simp add: wake_policy_task_def policy_inv_def)

lemma clear_peers_inv: "policy_inv (fst (wake_policy_clear_known_peers cfg fl st w))"
  by (simp add: wake_policy_clear_known_peers_def policy_inv_def no_peers_of peers_inv_of)

lemma bootsel_task_inv:
  "policy_inv st \<Longrightarrow> policy_inv (fst (snd (bootsel_button_task cfg hw fl now b st f w)))"
  using clear_peers_inv [of cfg fl st f] by (simp add: bootsel_button_task_def split_beta)

lemma main_policy_fields [simp]:
  "fw_power (main_policy cfg bd fw) = fw_power fw" "fw_io (main_policy cfg bd fw) = fw_io fw"
  "fw_bridge (main_policy cfg bd fw) = fw_bridge fw" "fw_log (main_policy cfg bd fw) = fw_log fw"
  "last_state (main_policy cfg bd fw) = last_state fw"
  "standby_configured (main_policy cfg bd fw) = standby_configured fw"
  by (simp_all add: main_policy_def split_beta)

lemma policy_step:
  assumes "fw_mode state fw"
  shows "fw_mode state (main_policy cfg bd fw) \<and> pass_frame fw (main_policy cfg bd fw)"
proof -
  have "policy_inv (fw_policy fw)" using assms by (simp add: fw_mode_def rx_good_def)
  then have "policy_inv (fw_policy (main_policy cfg bd fw))"
    by (simp add: main_policy_def split_beta bootsel_task_inv policy_task_inv)
  with assms show ?thesis
    by (auto simp: fw_mode_def modes_ok_def rx_good_def pass_frame_def)
qed

text \<open>Without input the log's task leaves the supervisor alone.\<close>

lemma debug_step:
  assumes m: "fw_mode state fw"
  shows "\<exists>fw'. main_debug cfg bd fw = Some fw' \<and> fw_mode state fw' \<and> fw_now fw' = fw_now fw \<and>
    io_gpio (fw_io fw') = io_gpio (fw_io fw) \<and>
    (fst (snd (dev_stdio (board_usb bd) (io_usb (fw_io fw)))) = [] \<longrightarrow> fw_power fw' = fw_power fw)"
proof -
  obtain connected input u where d: "dev_stdio (board_usb bd) (io_usb (fw_io fw)) = (connected, input, u)"
    by (metis prod_cases3)
  let ?s = "\<lparr>dbg_log = fw_log fw, dbg_power = fw_power fw, dbg_printed = fw_printed fw,
    dbg_bootsel = fw_rebooted fw\<rparr>"
  have "log_inv (dbg_log ?s)" using m by (simp add: fw_mode_def)
  from debug_log_task_returns [OF this, of cfg "board_hw bd" "board_format bd" connected input "fw_now fw"]
  obtain s' where t: "debug_log_task cfg (board_hw bd) (board_format bd) connected input (fw_now fw) ?s = Some s'"
    "log_inv (dbg_log s')" "power_state (dbg_power s') = fw_state fw" by auto
  have p: "dbg_power s' = fw_power fw" if "input = []"
    using t(1) that by (auto simp: debug_log_task_def split: if_splits bind_splits prod.splits)
  have "main_debug cfg bd fw = Some ((usb_do (\<lambda>_. u) fw)\<lparr>fw_power := dbg_power s', fw_log := dbg_log s',
      fw_printed := dbg_printed s', fw_rebooted := dbg_bootsel s'\<rparr>)"
    using t(1) d by (simp add: main_debug_def)
  with t(2,3) m p d show ?thesis
    by (auto simp: fw_mode_def modes_ok_def rx_good_def)
qed

section \<open>The pass\<close>

text \<open>The pass up to the log: it returns in the mode of its state.\<close>

definition main_pass ::
    "build_config \<Rightarrow> ('t, 'u, 'f, 'b) board \<Rightarrow> (('t, 'u, 'f, 'b) firmware \<times> 'x) host_transport
       \<Rightarrow> power_state_t \<Rightarrow> host \<times> ('t, 'u, 'f, 'b) firmware \<times> 'x
       \<Rightarrow> (host \<times> ('t, 'u, 'f, 'b) firmware \<times> 'x) option" where
  "main_pass cfg bd tr state s = do {
     s \<leftarrow> main_state_work cfg bd tr state s;
     s \<leftarrow> on_firmware (main_keyboard cfg bd state) s;
     on_firmware (\<lambda>fw. Some (main_policy cfg bd fw)) s
   }"

lemma main_pass_ok:
  assumes ck: "pico_clock_ok (board_clock bd)" and tr: "fw_transport tr X"
    and m: "fw_mode state fw" and x: "X x"
  shows "step_ok state X fw (main_pass cfg bd tr state (h, fw, x))"
  unfolding main_pass_def
  by (intro step_ok_bind [OF state_work_ok [OF ck tr m x]] step_ok_bind)
     (simp_all add: step_ok_on_firmware keyboard_step policy_step)

lemma on_firmware_bind:
  "Option.bind (on_firmware (\<lambda>fw. Some (g fw)) s) (on_firmware f) = on_firmware (\<lambda>fw. f (g fw)) s"
  by (simp add: on_firmware_def split_beta)

lemma main_iteration_pass:
  "main_iteration cfg bd tr (h, fw, x) =
     (let fw = main_power cfg bd fw; state = fw_state fw
      in Option.bind
           (if state \<noteq> last_state fw
            then map_option (\<lambda>(h, fw, x). (h, fw\<lparr>last_state := state\<rparr>, x))
                   (main_mode_change cfg bd tr state (h, fw, x))
            else Some (h, fw, x))
           (\<lambda>s. Option.bind (main_pass cfg bd tr state s) (on_firmware (main_debug cfg bd))))"
  by (simp add: main_iteration_def main_pass_def power_supervisor_get_state_def
      on_firmware_bind Option.bind_assoc)

text \<open>So every pass returns.\<close>

lemma main_iteration_ok:
  fixes cfg :: build_config
  assumes ck: "pico_clock_ok (board_clock bd)" and tr: "fw_transport tr X"
    and inv: "fw_inv fw" and x: "X x"
  defines "fw1 \<equiv> main_power cfg bd fw"
  obtains h2 fw2 x2 h3 fw3 where
    "main_iteration cfg bd tr (h, fw, x) = Some (h3, fw3, x2)"
    "fw_mode (fw_state fw1) fw2" "pass_frame fw1 fw2" "X x2"
    "main_debug cfg bd fw2 = Some fw3" "fw_mode (fw_state fw1) fw3"
    "fw_now fw3 = fw_now fw2" "io_gpio (fw_io fw3) = io_gpio (fw_io fw2)"
    "fst (snd (dev_stdio (board_usb bd) (io_usb (fw_io fw2)))) = [] \<longrightarrow> fw_power fw3 = fw_power fw2"
proof -
  let ?state = "fw_state fw1"
  let ?r = "if ?state \<noteq> last_state fw1
    then map_option (\<lambda>(h, fw, x). (h, fw\<lparr>last_state := ?state\<rparr>, x)) (main_mode_change cfg bd tr ?state (h, fw1, x))
    else Some (h, fw1, x)"
  have "step_ok ?state X fw1 ?r"
  proof (cases "?state = last_state fw1")
    case True
    with main_power_ok [OF inv, of cfg bd] x show ?thesis by (auto simp: fw1_def)
  next
    case False
    with main_power_ok [OF inv, of cfg bd] have "mode_before ?state fw1" by (auto simp: fw1_def)
    from mode_change_ok [OF ck tr this x, of cfg h] False show ?thesis
      by (auto simp: step_ok_def pass_frame_def)
  qed
  then have "step_ok ?state X fw1 (Option.bind ?r (main_pass cfg bd tr ?state))"
    using main_pass_ok [OF ck tr] by (rule step_ok_bind)
  then obtain h2 fw2 x2 where 2: "Option.bind ?r (main_pass cfg bd tr ?state) = Some (h2, fw2, x2)"
    "fw_mode ?state fw2" "pass_frame fw1 fw2" "X x2" by (auto simp: step_ok_def)
  from debug_step [OF 2(2), of cfg bd] obtain fw3 where 3: "main_debug cfg bd fw2 = Some fw3"
    "fw_mode ?state fw3" "fw_now fw3 = fw_now fw2" "io_gpio (fw_io fw3) = io_gpio (fw_io fw2)"
    "fst (snd (dev_stdio (board_usb bd) (io_usb (fw_io fw2)))) = [] \<longrightarrow> fw_power fw3 = fw_power fw2" by blast
  have "main_iteration cfg bd tr (h, fw, x) =
      Option.bind (Option.bind ?r (main_pass cfg bd tr ?state)) (on_firmware (main_debug cfg bd))"
    by (simp only: main_iteration_pass Let_def fw1_def [symmetric] Option.bind_assoc)
  also have "\<dots> = Some (h2, fw3, x2)" using 3(1) by (simp only: 2(1)) (simp add: on_firmware_def)
  finally show thesis using 2 3 that by blast
qed

lemma main_iteration_returns:
  assumes "pico_clock_ok (board_clock bd)" "fw_transport tr X" "fw_inv fw" "X x"
  shows "\<exists>h' fw' x'. main_iteration cfg bd tr (h, fw, x) = Some (h', fw', x') \<and>
    fw_mode (fw_state (main_power cfg bd fw)) fw' \<and> X x'"
  using main_iteration_ok [OF assms, of cfg h] by (metis (no_types, lifting))

text \<open>A pass in standby: the poll, and the rest.\<close>

definition standby_rest ::
    "build_config \<Rightarrow> ('t, 'u, 'f, 'b) board \<Rightarrow> (('t, 'u, 'f, 'b) firmware \<times> 'x) host_transport
       \<Rightarrow> host \<times> ('t, 'u, 'f, 'b) firmware \<times> 'x \<Rightarrow> (host \<times> ('t, 'u, 'f, 'b) firmware \<times> 'x) option" where
  "standby_rest cfg bd tr s = do {
     s \<leftarrow> (if \<not> standby_configured (fst (snd s)) then enter_standby_mode cfg bd tr s else Some s);
     s \<leftarrow> on_firmware (main_keyboard cfg bd POWER_STATE_STANDBY_HCI_HOST) s;
     on_firmware (\<lambda>fw. Some (main_policy cfg bd fw)) s
   }"

lemma main_pass_standby:
  "main_pass cfg bd tr POWER_STATE_STANDBY_HCI_HOST s = standby_rest cfg bd tr (tr_task (timed tr) s)"
  by (simp add: main_pass_def main_state_work_def standby_rest_def)

lemma standby_rest_ok:
  assumes "pico_clock_ok (board_clock bd)" "fw_transport tr X"
    and m: "fw_mode POWER_STATE_STANDBY_HCI_HOST fw" and x: "X x"
  shows "step_ok POWER_STATE_STANDBY_HCI_HOST X fw (standby_rest cfg bd tr (h, fw, x))"
proof -
  have "step_ok POWER_STATE_STANDBY_HCI_HOST X fw
      (if \<not> standby_configured fw then enter_standby_mode cfg bd tr (h, fw, x) else Some (h, fw, x))"
    using standby_step [OF assms, of cfg h] m x by simp
  then show ?thesis
    unfolding standby_rest_def fst_conv snd_conv
    by (elim step_ok_bind, intro step_ok_bind) (simp_all add: step_ok_on_firmware keyboard_step policy_step)
qed

end
