(* ===== verification/Firmware_Properties.thy ===== *)
theory Firmware_Properties
  imports Firmware_Loop
begin

text \<open>
  The properties of the whole firmware: what every run of the main loop keeps, where a packet
  from the controller goes, and that a wake-up packet received in standby ends in a press of
  the PC's power button.
\<close>

section \<open>Runs\<close>

text \<open>
  Between two passes the timer advances, the USB world and the BOOTSEL button change, and
  interrupts may change the transport's own state within its invariant.
\<close>

inductive firmware_step ::
    "build_config \<Rightarrow> ('t, 'u, 'f, 'b) board \<Rightarrow> (('t, 'u, 'f, 'b) firmware \<times> 'x) host_transport
       \<Rightarrow> ('x \<Rightarrow> bool) \<Rightarrow> host \<times> ('t, 'u, 'f, 'b) firmware \<times> 'x
       \<Rightarrow> host \<times> ('t, 'u, 'f, 'b) firmware \<times> 'x \<Rightarrow> bool"
  for cfg bd tr X where
  fw_pass: "main_iteration cfg bd tr s = Some s' \<Longrightarrow> firmware_step cfg bd tr X s s'"
| fw_wait: "fw_now fw \<le> n \<Longrightarrow> X x' \<Longrightarrow>
     firmware_step cfg bd tr X (h, fw, x)
       (h, fw\<lparr>fw_io := (fw_io fw)\<lparr>io_now := n, io_usb := u\<rparr>, fw_button := b\<rparr>, x')"

lemma fw_inv_wait:
  "fw_inv fw \<Longrightarrow> fw_inv (fw\<lparr>fw_io := (fw_io fw)\<lparr>io_now := n, io_usb := u\<rparr>, fw_button := b\<rparr>)"
  by (auto simp: fw_inv_def fw_mode_def modes_ok_def rx_good_def)

lemma firmware_step_inv:
  assumes "firmware_step cfg bd tr X (h, fw, x) (h', fw', x')"
    and "pico_clock_ok (board_clock bd)" "fw_transport tr X" "fw_inv fw" "X x"
  shows "fw_inv fw' \<and> X x'"
  using assms(1)
proof cases
  case fw_pass
  from main_iteration_returns [OF assms(2-5), of cfg h] obtain h3 fw3 x3 where
    "main_iteration cfg bd tr (h, fw, x) = Some (h3, fw3, x3)" "X x3"
    "fw_mode (fw_state (main_power cfg bd fw)) fw3" by (elim exE conjE)
  with fw_pass show ?thesis by (auto simp: fw_inv_def fw_mode_def)
qed (use assms(4) fw_inv_wait in auto)

lemma firmware_run_inv:
  assumes "(firmware_step cfg bd tr X)\<^sup>*\<^sup>* s s'"
    and "pico_clock_ok (board_clock bd)" "fw_transport tr X"
  shows "fw_inv (fst (snd s)) \<Longrightarrow> X (snd (snd s)) \<Longrightarrow> fw_inv (fst (snd s')) \<and> X (snd (snd s'))"
  using assms(1)
proof (induction rule: rtranclp_induct)
  case (step s1 s2)
  obtain h fw x h' fw' x' where s: "s1 = (h, fw, x)" "s2 = (h', fw', x')" by (metis prod_cases3)
  from firmware_step_inv [OF step.hyps(2) [unfolded s] assms(2,3)] step s show ?case by simp
qed simp

section \<open>Boot\<close>

text \<open>The transport's \<open>init\<close> is held to what its other operations may do.\<close>

definition transport_init_ok ::
    "(host \<times> ('t, 'u, 'f, 'b) firmware \<times> 'x \<Rightarrow> bool \<times> host \<times> ('t, 'u, 'f, 'b) firmware \<times> 'x)
       \<Rightarrow> ('x \<Rightarrow> bool) \<Rightarrow> 'x \<Rightarrow> bool" where
  "transport_init_ok transport_init X x \<longleftrightarrow>
     (\<forall>h fw. rx_good fw \<longrightarrow> (case transport_init (h, fw, x) of (_, _, fw', x') \<Rightarrow> rx_frame fw fw' \<and> X x'))"

lemma power_init_state:
  "power_state (fst (power_supervisor_init cfg hw p io)) = POWER_STATE_HOST_ON_USB_HCI \<or>
   power_state (fst (power_supervisor_init cfg hw p io)) = POWER_STATE_HOST_OFF"
  by (simp add: power_supervisor_init_def)

lemma main_init_inv:
  assumes "transport_init_ok transport_init X x"
    and "main_init cfg bd tr transport_init dev_init (h, firmware_boot bd n u f b, x) = (h', fw', x')"
  shows "fw_inv fw' \<and> X x'"
proof -
  let ?fw = "firmware_boot bd n u f b"
  obtain p io where pi: "power_supervisor_init cfg (board_hw bd) (fw_power ?fw) (fw_io ?fw) = (p, io)" by fastforce
  obtain fw1 where fw1: "fw1 = ?fw\<lparr>fw_policy := wake_policy_init cfg (board_flash bd) (fw_flash ?fw) (fw_policy ?fw),
    fw_power := p, fw_io := io\<rparr>" by blast
  have g1: "rx_good fw1"
    using load_gives_inv [of cfg "board_flash bd" f]
    by (simp add: fw1 rx_good_def firmware_boot_def wake_policy_init_def policy_inv_def)
  obtain ok h2 fw2 x2 where ti: "transport_init (h, fw1, x) = (ok, h2, fw2, x2)" by (metis prod_cases4)
  have "case transport_init (h, fw1, x) of (_, _, fw', x') \<Rightarrow> rx_frame fw1 fw' \<and> X x'"
    using assms(1) [unfolded transport_init_ok_def, rule_format, OF g1, of h] .
  then have fr: "rx_frame fw1 fw2" "X x2" by (simp_all add: ti)
  have g2: "rx_good fw2" by (rule rx_frame_good [OF fr(1)])
  have k: "fw_state fw2 = power_state p" "last_state fw2 = POWER_STATE_UNKNOWN" "\<not> standby_configured fw2"
    "\<not> bridge_enabled (fw_bridge fw2)" "fw_log fw2 = debug_log_boot"
    using fr(1) fw_frameD [of fw1 fw2] by (auto simp: rx_frame_def backend_extends_def fw1 firmware_boot_def bridge_boot_def)
  have ps: "power_state p = POWER_STATE_HOST_ON_USB_HCI \<or> power_state p = POWER_STATE_HOST_OFF"
    using power_init_state [of cfg "board_hw bd" "fw_power ?fw" "fw_io ?fw"] by (simp add: pi)
  have "rx_good fw' \<and> fw_log fw' = fw_log fw2 \<and> last_state fw' = last_state fw2 \<and> fw_state fw' = fw_state fw2 \<and>
      fw_bridge fw' = fw_bridge fw2 \<and> standby_configured fw' = standby_configured fw2 \<and> x' = x2"
    using assms(2) g2
    by (auto simp: main_init_def pi fw1 [symmetric] ti rx_good_def split_beta split: if_splits)
  with fr(2) g2 k ps show ?thesis by (simp add: fw_inv_def)
qed

section \<open>A board for the witnesses\<close>

definition demo_usb :: "(nat \<times> bytes option) list usb_device" where
  "demo_usb = \<lparr>dev_connect = id, dev_disconnect = id, dev_ready = (\<lambda>_. True),
     dev_event_send = (\<lambda>_ u. (True, u)), dev_acl_send = (\<lambda>_ u. (True, u)), dev_task = (\<lambda>u. ([], u)),
     dev_stdio = (\<lambda>u. (False, [], u))\<rparr>"

definition demo_board :: "(nat, (nat \<times> bytes option) list, nat \<Rightarrow> u8, bool) board" where
  "demo_board = \<lparr>board_hw = low_hw, board_usb = demo_usb, board_flash = ram_flash,
     board_button = bool_button, board_format = (\<lambda>_. [])\<rparr>"

lemma demo_board_fields [simp]:
  "board_hw demo_board = low_hw" "board_usb demo_board = demo_usb" "board_flash demo_board = ram_flash"
  "dev_stdio demo_usb u = (False, [], u)"
  by (simp_all add: demo_board_def demo_usb_def)

abbreviation demo_stub ::
    "((nat, (nat \<times> bytes option) list, nat \<Rightarrow> u8, bool) firmware \<times> unit) host_transport" where
  "demo_stub \<equiv> stub_transport (Some (backend_rx_cb pico2w_config demo_board))"

lemma stub_init_ok: "transport_init_ok (\<lambda>s. (stub_init, s)) (\<lambda>_. True) x"
  by (simp add: transport_init_ok_def rx_frame_refl)

section \<open>The main loop\<close>

text \<open>
  The main loop never hangs and the controller always has one owner: from boot on, with any
  transport that meets its contract, whatever the PC, the controller and the user do, every
  pass of the loop returns, with the bridge enabled exactly while the PC is on, wake scanning
  configured in standby only, the standby keyboard in use exactly while the PC is not on, and
  the peer list, the bridge's queues and the log well formed.
\<close>

definition pass_safe ::
    "build_config \<Rightarrow> ('t, 'u, 'f, 'b) board \<Rightarrow> (('t, 'u, 'f, 'b) firmware \<times> 'x) host_transport
       \<Rightarrow> host \<times> ('t, 'u, 'f, 'b) firmware \<times> 'x \<Rightarrow> bool" where
  "pass_safe cfg bd tr s \<longleftrightarrow>
     (\<exists>h' fw' x'. main_iteration cfg bd tr s = Some (h', fw', x') \<and>
       (bridge_enabled (fw_bridge fw') \<longleftrightarrow> fw_state fw' = POWER_STATE_HOST_ON_USB_HCI) \<and>
       (standby_configured fw' \<longrightarrow> fw_state fw' = POWER_STATE_STANDBY_HCI_HOST) \<and>
       (standby_mode (io_hid (fw_io fw')) \<longleftrightarrow> fw_state fw' \<noteq> POWER_STATE_HOST_ON_USB_HCI) \<and>
       policy_inv (fw_policy fw') \<and> bridge_inv (fw_bridge fw') \<and> log_inv (fw_log fw'))"

lemma firmware_pass_safe:
  assumes "pico_clock_ok (board_clock bd)" "fw_transport tr X" "transport_init_ok start X x0"
    and "(firmware_step cfg bd tr X)\<^sup>*\<^sup>* (main_init cfg bd tr start dev_init (host_boot, firmware_boot bd n u f b, x0)) s"
  shows "pass_safe cfg bd tr s"
proof -
  obtain h1 fw1 x1 where i: "main_init cfg bd tr start dev_init (host_boot, firmware_boot bd n u f b, x0) = (h1, fw1, x1)"
    by (metis prod_cases3)
  obtain h fw x where s: "s = (h, fw, x)" by (metis prod_cases3)
  have "fw_inv fw1" "X x1" using main_init_inv [OF assms(3) i] by simp_all
  then have inv: "fw_inv fw" "X x"
    using firmware_run_inv [OF assms(4) [unfolded i] assms(1,2)] by (simp_all add: s)
  from main_iteration_returns [OF assms(1,2) inv, of cfg h] obtain h3 fw3 x3 where
    r: "main_iteration cfg bd tr (h, fw, x) = Some (h3, fw3, x3)"
    and m: "fw_mode (fw_state (main_power cfg bd fw)) fw3" by (elim exE conjE)
  from m have "rx_good fw3" "log_inv (fw_log fw3)" "modes_ok fw3" "last_state fw3 = fw_state fw3"
    by (simp_all add: fw_mode_def)
  then show ?thesis unfolding pass_safe_def s
    by (intro exI [of _ h3] exI [of _ fw3] exI [of _ x3]) (simp add: r modes_ok_def rx_good_def)
qed

section \<open>Packets from the controller\<close>

lemma rx_dispatch:
  assumes "rx_good fw"
  shows "\<exists>h' fw'. backend_rx cfg bd t packet (h, fw) = Some (h', fw') \<and>
    (if fw_state fw = POWER_STATE_HOST_ON_USB_HCI \<and> bridge_enabled (fw_bridge fw)
     then h' = h \<and> fw_power fw' = fw_power fw \<and>
       fw_bridge fw' = usb_bth_bridge_backend_packet cfg t packet (fw_bridge fw) \<and>
       wake_policy_observe_host_packet cfg (board_clock bd) (fw_now fw) t packet (fw_policy fw) =
         Some (fw_policy fw')
     else if fw_state fw = POWER_STATE_STANDBY_HCI_HOST
     then h' = hci_host_minimal_packet t packet h \<and> fw_bridge fw' = fw_bridge fw \<and>
       policy_peers (fw_policy fw') = snd (wake_spec cfg (policy_peers (fw_policy fw)) t packet) \<and>
       fw_power fw' = (case fst (wake_spec cfg (policy_peers (fw_policy fw)) t packet) of
           Some r \<Rightarrow> power_supervisor_request_wake (board_clock bd) (fw_now fw) (Some r) (fw_power fw)
         | None \<Rightarrow> fw_power fw)
     else h' = h \<and> fw' = fw)"
proof -
  have inv: "policy_inv (fw_policy fw)" using assms by (simp add: rx_good_def)
  obtain st where o: "wake_policy_observe_host_packet cfg (board_clock bd) (fw_now fw) t packet (fw_policy fw) = Some st"
    using observe_host_packet_ok [OF inv] by blast
  obtain st2 where m: "wake_policy_packet_matches cfg (board_clock bd) (fw_now fw) t packet (fw_policy fw) =
      Some (fst (wake_spec cfg (policy_peers (fw_policy fw)) t packet), st2)"
      "policy_peers st2 = snd (wake_spec cfg (policy_peers (fw_policy fw)) t packet)"
    using packet_matches_spec [OF inv, of cfg t packet "board_clock bd" "fw_now fw"]
    by (auto simp: policy_result_def)
  show ?thesis
    using o m by (auto simp: backend_rx_def power_supervisor_get_state_def usb_bth_bridge_is_enabled_def
        split: option.splits)
qed

section \<open>From a packet to the power button\<close>

lemma wake_only_sense: "wake_only p p' \<Longrightarrow> sense_low cfg hw n p' = sense_low cfg hw n p"
  by (cases p; cases p') (simp add: wake_only_def sense_low_def)

lemma same_button_presses: "same_button cfg io io' \<Longrightarrow> presses_of cfg io' = presses_of cfg io"
  by (simp add: same_button_def presses_of_def)

lemma pass_frame_presses: "pass_frame fw fw' \<Longrightarrow> presses_of cfg (fw_io fw') = presses_of cfg (fw_io fw)"
  by (simp add: pass_frame_def presses_of_def)

text \<open>No characters come in over the debug port.\<close>

definition no_typing :: "('t, 'u, 'f, 'b) board \<Rightarrow> bool" where
  "no_typing bd \<longleftrightarrow> (\<forall>u. fst (snd (dev_stdio (board_usb bd) u)) = [])"

text \<open>A pass without typing: what is left of the effect of its power step.\<close>

lemma quiet_pass:
  assumes "pico_clock_ok (board_clock bd)" "fw_transport tr X" "fw_inv fw" "X x" "no_typing bd"
  shows "\<exists>h' fw' x'. main_iteration cfg bd tr (h, fw, x) = Some (h', fw', x') \<and> X x' \<and>
    fw_mode (fw_state (main_power cfg bd fw)) fw' \<and> pass_frame (main_power cfg bd fw) fw'"
proof -
  obtain h2 fw2 x2 h3 fw3 where
    r: "main_iteration cfg bd tr (h, fw, x) = Some (h3, fw3, x2)"
      "pass_frame (main_power cfg bd fw) fw2" "X x2" "fw_mode (fw_state (main_power cfg bd fw)) fw3"
      "fw_now fw3 = fw_now fw2" "io_gpio (fw_io fw3) = io_gpio (fw_io fw2)"
      "fst (snd (dev_stdio (board_usb bd) (io_usb (fw_io fw2)))) = [] \<longrightarrow> fw_power fw3 = fw_power fw2"
    using main_iteration_ok [OF assms(1-4), of cfg h] by (metis (no_types, lifting))
  then have "pass_frame (main_power cfg bd fw) fw3" using assms(5) by (simp add: no_typing_def pass_frame_def)
  with r(1,3,4) show ?thesis by blast
qed

text \<open>A request pending at the start of a pass, and the pass that pulses.\<close>

lemma request_pass:
  assumes "pico_clock_ok (board_clock bd)" "fw_transport tr X" "no_typing bd" "X x"
    and m: "fw_mode POWER_STATE_STANDBY_HCI_HOST fw" and w: "wake_requested (fw_power fw)"
    and low: "sense_low cfg (board_hw bd) n (fw_power fw)" "n \<le> fw_now fw" and en: "ENABLE_POWER_BUTTON_WAKE cfg"
  shows "\<exists>h' fw' x'. main_iteration cfg bd tr (h, fw, x) = Some (h', fw', x') \<and> X x' \<and>
    fw_mode POWER_STATE_WAKE_PULSE fw' \<and> sense_low cfg (board_hw bd) n (fw_power fw') \<and>
    presses_of cfg (fw_io fw') = presses_of cfg (fw_io fw) \<and> fw_now fw \<le> fw_now fw'"
proof -
  have inv: "fw_inv fw" and st: "fw_state fw = POWER_STATE_STANDBY_HCI_HOST"
    using m by (auto simp: fw_inv_def fw_mode_def)
  note p = power_task_requested [OF st w low en surjective_pairing]
  from quiet_pass [OF assms(1,2) inv assms(4,3), of cfg h] obtain h' fw' x' where
    r: "main_iteration cfg bd tr (h, fw, x) = Some (h', fw', x')" "X x'"
      "fw_mode (fw_state (main_power cfg bd fw)) fw'" and f: "pass_frame (main_power cfg bd fw) fw'"
    by (elim exE conjE)
  have "wake_only (fw_power (main_power cfg bd fw)) (fw_power fw')" "fw_now (main_power cfg bd fw) \<le> fw_now fw'"
    using f by (simp_all add: pass_frame_def)
  with r p(1,4) same_button_presses [OF p(5)] p(5) pass_frame_presses [OF f] show ?thesis
    by (intro exI [of _ h'] exI [of _ fw'] exI [of _ x']) (simp add: wake_only_sense same_button_def)
qed

lemma pulse_pass:
  assumes "pico_clock_ok (board_clock bd)" "fw_transport tr X" "no_typing bd" "X x"
    and m: "fw_mode POWER_STATE_WAKE_PULSE fw"
    and low: "sense_low cfg (board_hw bd) n (fw_power fw)" "n \<le> fw_now fw"
    and en: "ENABLE_POWER_BUTTON_WAKE cfg" "PIN_PWR_BUTTON_OUT cfg \<ge> 0"
  shows "\<exists>h' fw' x'. main_iteration cfg bd tr (h, fw, x) = Some (h', fw', x') \<and>
    fw_state fw' = POWER_STATE_WAIT_WAKE_SENSE_SETTLE \<and>
    presses_of cfg (fw_io fw') = presses_of cfg (fw_io fw) @ [fw_now fw]"
proof -
  have inv: "fw_inv fw" and st: "fw_state fw = POWER_STATE_WAKE_PULSE"
    using m by (auto simp: fw_inv_def fw_mode_def)
  note p = power_task_pulse [OF st low en surjective_pairing]
  from quiet_pass [OF assms(1,2) inv assms(4,3), of cfg h] obtain h' fw' x' where
    r: "main_iteration cfg bd tr (h, fw, x) = Some (h', fw', x')"
      "fw_mode (fw_state (main_power cfg bd fw)) fw'" and f: "pass_frame (main_power cfg bd fw) fw'"
    by (elim exE conjE)
  from r p(1,4) pass_frame_presses [OF f] show ?thesis
    by (intro exI [of _ h'] exI [of _ fw'] exI [of _ x']) (simp add: fw_mode_def)
qed

text \<open>The pass in which the packet arrives.\<close>

lemma backend_rx_wakes:
  assumes g: "rx_good fw" and st: "fw_state fw = POWER_STATE_STANDBY_HCI_HOST"
    and w: "fst (wake_spec cfg (policy_peers (fw_policy fw)) t packet) = Some r"
  shows "\<exists>h' fw'. backend_rx_cb cfg bd t packet (h, fw, x) = (h', fw', x) \<and> rx_frame fw fw' \<and>
    fw_power fw' = power_supervisor_request_wake (board_clock bd) (fw_now fw) (Some r) (fw_power fw)"
proof -
  from rx_dispatch [OF g, of cfg bd t packet h] st w obtain h' fw' where
    r: "backend_rx cfg bd t packet (h, fw) = Some (h', fw')"
      "fw_power fw' = power_supervisor_request_wake (board_clock bd) (fw_now fw) (Some r) (fw_power fw)"
    by (auto split: if_splits)
  with backend_rx_ok [OF g, of cfg bd t packet h] show ?thesis by (simp add: backend_rx_cb_def)
qed

lemma arrival_pass:
  assumes ck: "pico_clock_ok (board_clock bd)" and tr: "fw_transport tr X" and quiet: "no_typing bd" and x: "X x"
    and m: "fw_mode POWER_STATE_STANDBY_HCI_HOST fw" and nw: "\<not> wake_requested (fw_power fw)"
    and low: "sense_low cfg (board_hw bd) (fw_now fw) (fw_power fw)"
    and cool: "sdk_time_reached (board_clock bd) (fw_now fw) (cooldown_until (fw_power fw))"
    and armed: "standby_wake_armed (board_clock bd) (fw_now fw) (fw_power fw)"
    and wake: "fst (wake_spec cfg (policy_peers (fw_policy fw)) t packet) = Some r"
    and arr: "tr_task tr (h, main_power cfg bd fw, x) = backend_rx_cb cfg bd t packet (h, main_power cfg bd fw, x)"
  shows "\<exists>h' fw' x'. main_iteration cfg bd tr (h, fw, x) = Some (h', fw', x') \<and> X x' \<and>
    fw_mode POWER_STATE_STANDBY_HCI_HOST fw' \<and> wake_requested (fw_power fw') \<and>
    sense_low cfg (board_hw bd) (fw_now fw) (fw_power fw') \<and>
    presses_of cfg (fw_io fw') = presses_of cfg (fw_io fw) \<and> fw_now fw \<le> fw_now fw'"
proof -
  let ?S = POWER_STATE_STANDBY_HCI_HOST
  obtain q where q: "q = main_power cfg bd fw" by blast
  have st: "fw_state fw = ?S" and last: "last_state fw = ?S" and inv: "fw_inv fw"
    using m by (auto simp: fw_inv_def fw_mode_def)
  note p = power_task_idle [OF st nw low order_refl surjective_pairing]
  have qp: "fw_power q = update_power_inputs cfg (board_hw bd) (fw_now fw) (fw_power fw)"
    and qio: "same_button cfg (fw_io fw) (fw_io q)" using p by (simp_all add: q)
  have qn: "fw_now q = fw_now fw" using qio by (simp add: same_button_def)
  have qs: "fw_state q = ?S" "sense_low cfg (board_hw bd) (fw_now fw) (fw_power q)"
    using st sense_low_inputs [OF low order_refl] by (simp_all add: qp)
  have qm: "fw_mode ?S q" using main_power_ok [OF inv, of cfg bd] qs last by (simp add: q)
  have qg: "rx_good q" using qm by (simp add: fw_mode_def)
  have "fst (wake_spec cfg (policy_peers (fw_policy q)) t packet) = Some r" using wake by (simp add: q)
  from backend_rx_wakes [OF qg qs(1) this, of bd h x] obtain h1 fw1 where
    b: "backend_rx_cb cfg bd t packet (h, q, x) = (h1, fw1, x)" "rx_frame q fw1"
      "fw_power fw1 = power_supervisor_request_wake (board_clock bd) (fw_now q) (Some r) (fw_power q)" by blast
  have w1: "wake_requested (fw_power fw1)"
    using request_wake_accepts [of "fw_power q" "board_clock bd" "fw_now q" r] cool armed qs(1) b(3)
    by (simp add: qn qp)
  obtain fw2 where fw2: "fw2 = fw1\<lparr>fw_io := (fw_io fw1)\<lparr>io_now := fw_now fw1 + 1\<rparr>\<rparr>" by blast
  have t2: "tr_task (timed tr) (h, q, x) = (h1, fw2, x)"
    using arr b(1) by (simp add: timed_def q fw2)
  have f2: "rx_frame q fw2" using b(2) by (simp add: fw2 rx_frame_def fw_frame_def)
  have m2: "fw_mode ?S fw2" by (rule rx_frame_mode [OF qm f2])
  have "step_ok ?S X fw2 (main_pass cfg bd tr ?S (h, q, x))"
    unfolding main_pass_standby t2 by (rule standby_rest_ok [OF ck tr m2 x])
  then obtain h3 fw3 x3 where p3: "main_pass cfg bd tr ?S (h, q, x) = Some (h3, fw3, x3)"
      "fw_mode ?S fw3" "pass_frame fw2 fw3" "X x3" by (auto simp: step_ok_def)
  from debug_step [OF p3(2), of cfg bd] quiet obtain fw4 where 4: "main_debug cfg bd fw3 = Some fw4"
      "fw_mode ?S fw4" "fw_now fw4 = fw_now fw3" "io_gpio (fw_io fw4) = io_gpio (fw_io fw3)"
      "fw_power fw4 = fw_power fw3" unfolding no_typing_def by blast
  have run: "main_iteration cfg bd tr (h, fw, x) = Some (h3, fw4, x3)"
    using 4(1) p3(1) qs(1) last by (simp add: main_iteration_pass q [symmetric] on_firmware_def)
       (simp add: q)
  have f: "pass_frame q fw4"
    using pass_frame_trans [OF fw_frame_pass p3(3)] f2 4(3-5) by (simp add: rx_frame_def pass_frame_def)
  have "wake_requested (fw_power fw4)"
    using w1 p3(3) 4(5) by (simp add: pass_frame_def wake_only_def fw2)
  moreover have "wake_only (fw_power q) (fw_power fw4)" "fw_now fw \<le> fw_now fw4"
    using f qn by (simp_all add: pass_frame_def)
  moreover have "presses_of cfg (fw_io fw4) = presses_of cfg (fw_io fw)"
    using pass_frame_presses [OF f] same_button_presses [OF qio] by simp
  ultimately show ?thesis using run p3(4) 4(2) qs(2) by (auto simp: wake_only_sense)
qed

section \<open>Properties\<close>

text \<open>
  C5: Every packet from the controller goes to exactly one side. While the PC is on and the
  bridge enabled it is queued for USB and shown to the peer list; in standby the standby host
  sees it and the wake decision, as specified over the packet's reports, is passed to the
  power supervisor; in every other state it changes nothing.
\<close>

theorem backend_rx_dispatch:
  assumes "rx_good fw"
  shows "\<exists>h' fw'. backend_rx cfg bd t packet (h, fw) = Some (h', fw') \<and>
    (if fw_state fw = POWER_STATE_HOST_ON_USB_HCI \<and> bridge_enabled (fw_bridge fw)
     then h' = h \<and> fw_power fw' = fw_power fw \<and>
       fw_bridge fw' = usb_bth_bridge_backend_packet cfg t packet (fw_bridge fw) \<and>
       wake_policy_observe_host_packet cfg (board_clock bd) (fw_now fw) t packet (fw_policy fw) =
         Some (fw_policy fw')
     else if fw_state fw = POWER_STATE_STANDBY_HCI_HOST
     then h' = hci_host_minimal_packet t packet h \<and> fw_bridge fw' = fw_bridge fw \<and>
       policy_peers (fw_policy fw') = snd (wake_spec cfg (policy_peers (fw_policy fw)) t packet) \<and>
       fw_power fw' = (case fst (wake_spec cfg (policy_peers (fw_policy fw)) t packet) of
           Some r \<Rightarrow> power_supervisor_request_wake (board_clock bd) (fw_now fw) (Some r) (fw_power fw)
         | None \<Rightarrow> fw_power fw)
     else h' = h \<and> fw' = fw)"
  by (rule rx_dispatch [OF assms])

text \<open>A firmware in armed standby that knows one peer, and an advertisement of that peer.\<close>

definition standby_fw :: "(nat, (nat \<times> bytes option) list, nat \<Rightarrow> u8, bool) firmware" where
  "standby_fw = (firmware_boot demo_board 5000 [] (\<lambda>_. 0) False)
     \<lparr>fw_power := power_in POWER_STATE_STANDBY_HCI_HOST 0, fw_policy := one_peer,
      fw_io := (io_at 5000)\<lparr>io_hid := usb_hid_wake_set_standby True (usb_hid_wake_init us_clock)\<rparr>,
      last_state := POWER_STATE_STANDBY_HCI_HOST\<rparr>"

definition peer_adv :: bytes where
  "peer_adv = [0x3e, 0x0c, 0x02, 0x01, 0x00, 0x01, 1, 2, 3, 4, 5, 6, 0x00, 0xc0]"

lemma peer_adv_wakes:
  "fst (wake_spec pico2w_config [(1, [1, 2, 3, 4, 5, 6])] HCI_PKT_EVENT peer_adv) =
     Some ''known BLE peer advertisement''"
  by (simp add: wake_spec_def peer_adv_def config_defs)

lemma power_in_state [simp]: "power_state (power_in s d) = s"
  by (simp add: power_in_def)

lemma standby_fw_fields:
  "rx_good standby_fw" "fw_state standby_fw = POWER_STATE_STANDBY_HCI_HOST"
  "policy_peers (fw_policy standby_fw) = [(1, [1, 2, 3, 4, 5, 6])]"
  "fw_mode POWER_STATE_STANDBY_HCI_HOST standby_fw" "fw_power standby_fw = power_in POWER_STATE_STANDBY_HCI_HOST 0"
  "fw_now standby_fw = 5000" "io_gpio (fw_io standby_fw) = []"
  using one_peer_inv
  by (simp_all add: standby_fw_def rx_good_def firmware_boot_def power_in_def fw_mode_def modes_ok_def
      live_state_def bridge_boot_def [THEN arg_cong [of _ _ bridge_enabled]] usb_hid_wake_set_standby_def)
     (simp_all add: policy_peers_def one_peer_def)

theorem backend_rx_dispatch_witness:
  "\<exists>h' fw'. backend_rx pico2w_config demo_board HCI_PKT_EVENT peer_adv (host_boot, standby_fw) = Some (h', fw') \<and>
    fw_power fw' = power_supervisor_request_wake us_clock 5000 (Some ''known BLE peer advertisement'')
      (power_in POWER_STATE_STANDBY_HCI_HOST 0)"
  using backend_rx_dispatch [OF standby_fw_fields(1), of pico2w_config demo_board HCI_PKT_EVENT peer_adv host_boot]
    peer_adv_wakes by (auto simp: standby_fw_fields)


text \<open>A controller that hears the peer at every poll, beside the stub's answers.\<close>

definition hearing :: "(nat, (nat \<times> bytes option) list, nat \<Rightarrow> u8, bool) board
    \<Rightarrow> ((nat, (nat \<times> bytes option) list, nat \<Rightarrow> u8, bool) firmware \<times> unit) host_transport" where
  "hearing bd = (stub_transport (Some (backend_rx_cb pico2w_config bd)))
     \<lparr>tr_task := backend_rx_cb pico2w_config bd HCI_PKT_EVENT peer_adv\<rparr>"

lemma hearing_ok: "fw_transport (hearing bd) (\<lambda>_. True)"
proof -
  have base: "fw_transport (stub_transport (Some (backend_rx_cb pico2w_config bd))) (\<lambda>_ :: unit. True)"
    by (rule stub.hci_transport_axioms)
  show ?thesis
  proof (unfold_locales, goal_cases)
    case (2 w h)
    obtain fw x where w: "w = (fw, x)" by (cases w)
    with 2 have "rx_good fw" by simp
    then obtain h' fw' where
      "backend_rx_cb pico2w_config bd HCI_PKT_EVENT peer_adv (h, fw, x) = (h', fw', x)" "rx_frame fw fw'"
      using backend_rx_cb_ok [of fw pico2w_config bd HCI_PKT_EVENT peer_adv h x] by blast
    then show ?case by (simp add: hearing_def w rx_frame_good)
  qed (use hci_transport.send_ok [OF base] hci_transport.reset_ok [OF base] hci_transport.frame_refl [OF base]
        hci_transport.frame_trans [OF base] hci_transport.frame_now [OF base] in \<open>simp_all add: hearing_def\<close>)
qed


text \<open>In standby the callback hands every event to the standby host.\<close>

lemma rx_host_listens:
  "host_listens (\<lambda>(fw, x). fw_now fw)
     (\<lambda>(fw, x). rx_good fw \<and> fw_state fw = POWER_STATE_STANDBY_HCI_HOST) (backend_rx_cb cfg bd)"
  unfolding host_listens_def
proof (intro allI impI, goal_cases)
  case (1 p h w)
  obtain fw x where fw: "w = (fw, x)" by (cases w)
  have g: "rx_good fw" "fw_state fw = POWER_STATE_STANDBY_HCI_HOST" using 1 by (simp_all add: fw)
  obtain h' fw' where r: "backend_rx cfg bd HCI_PKT_EVENT p (h, fw) = Some (h', fw')" "rx_frame fw fw'"
    "fw_now fw' = fw_now fw" using backend_rx_ok [OF g(1)] by blast
  have "h' = hci_host_minimal_packet HCI_PKT_EVENT p h"
    using rx_dispatch [OF g(1), of cfg bd HCI_PKT_EVENT p h] g(2) r(1) by auto
  with r g(2) fw_frameD(2) [of fw fw'] rx_frame_good [OF r(2)] show ?case
    by (simp add: backend_rx_cb_def fw rx_frame_def)
qed

text \<open>
  With the stub in place of a controller, entering standby succeeds: every command of the
  standby host is answered through the firmware's own receive callback, and the configuration
  reports success.
\<close>

lemma stub_standby_configured:
  assumes "pico_clock_ok (board_clock bd)" "rx_good fw" "fw_state fw = POWER_STATE_STANDBY_HCI_HOST"
  shows "\<exists>h' fw' x'. hci_host_configure_standby_wake (board_clock bd) (\<lambda>(fw, x). fw_now fw)
      (Some (stub_transport (Some (backend_rx_cb cfg bd)))) (h, fw, x) = Some (True, h', fw', x')"
  using stub_configures [OF assms(1) rx_host_listens, of "(fw, x)" cfg bd h] assms(2,3) by auto

end
