(* ===== verification/H4_Parser.thy ===== *)
theory H4_Parser
  imports Hci_Packet
begin

text \<open>
  \<open>src/h4_parser.c\<close> and \<open>include/h4_parser.h\<close>: the byte-at-a-time parser of the UART
  H4 framing. Every store into \<open>header\<close> and into the packet buffer is checked, so a
  result \<open>None\<close> of a step is an access outside a buffer. The lemmas show that no
  reachable parser makes one, that the parser delivers exactly the packets that were
  framed, and how it recovers from unknown indicators and oversized lengths.
\<close>

section \<open>State\<close>

datatype h4_parser_state =
    H4_WAIT_TYPE
  | H4_READ_EVENT_HEADER
  | H4_READ_EVENT_PAYLOAD
  | H4_READ_ACL_HEADER
  | H4_READ_ACL_PAYLOAD
  | H4_READ_SCO_HEADER
  | H4_READ_SCO_PAYLOAD
  | H4_ERROR_RECOVERY

record 'w h4_parser =
  state :: h4_parser_state
  type :: hci_packet_type
  header :: bytes
  header_len :: nat
  header_pos :: nat
  packet :: bytes
  packet_capacity :: nat
  packet_pos :: nat
  packet_len :: nat
  error_count :: u32
  callback :: "'w hci_rx_cb option"

section \<open>Operations\<close>

definition h4_start_header :: "'w h4_parser \<Rightarrow> hci_packet_type \<Rightarrow> nat \<Rightarrow> 'w h4_parser" where
  "h4_start_header p t hlen =
     p\<lparr>type := t, header_len := hlen, header_pos := 0, packet_pos := 0, packet_len := 0\<rparr>"

text \<open>
  \<open>memset\<close> zeroes the struct, then the fields are set; the type field is the value 0,
  which no enumerator has.
\<close>

definition h4_parser_init :: "bytes \<Rightarrow> nat \<Rightarrow> 'w hci_rx_cb option \<Rightarrow> 'w h4_parser" where
  "h4_parser_init packet_storage capacity cb =
     \<lparr>state = H4_WAIT_TYPE, type = HCI_PKT_OTHER 0, header = replicate 4 0,
      header_len = 0, header_pos = 0, packet = packet_storage,
      packet_capacity = capacity, packet_pos = 0, packet_len = 0,
      error_count = 0, callback = cb\<rparr>"

definition h4_parser_set_callback :: "'w h4_parser \<Rightarrow> 'w hci_rx_cb option \<Rightarrow> 'w h4_parser" where
  "h4_parser_set_callback p cb = p\<lparr>callback := cb\<rparr>"

definition h4_parser_reset :: "'w h4_parser \<Rightarrow> 'w h4_parser" where
  "h4_parser_reset p =
     p\<lparr>state := H4_WAIT_TYPE, header_len := 0, header_pos := 0,
       packet_pos := 0, packet_len := 0\<rparr>"

text \<open>The call of the parser's callback with the first \<open>packet_len\<close> bytes.\<close>

definition h4_deliver :: "'w h4_parser \<Rightarrow> 'w \<Rightarrow> 'w" where
  "h4_deliver p w = call_rx (callback p) (type p) (take (packet_len p) (packet p)) w"

definition h4_begin_payload ::
    "'w h4_parser \<Rightarrow> h4_parser_state \<Rightarrow> nat \<Rightarrow> 'w \<Rightarrow> (bool \<times> 'w h4_parser \<times> 'w) option" where
  "h4_begin_payload p payload_state payload_len w =
     (let p = p\<lparr>packet_len := to_u16 (header_len p + payload_len)\<rparr> in
      if packet_len p > packet_capacity p
      then Some (False, h4_parser_reset (p\<lparr>error_count := error_count p + 1\<rparr>), w)
      else do {
        hdr \<leftarrow> sub_bytes (header p) 0 (header_len p);
        buf \<leftarrow> memcpy_at (packet p) 0 hdr;
        let p = p\<lparr>packet := buf, packet_pos := header_len p\<rparr>;
        if payload_len = 0
        then Some (True, h4_parser_reset p, h4_deliver p w)
        else Some (True, p\<lparr>state := payload_state\<rparr>, w)
      })"

text \<open>The common shape of the three header cases: store the byte, and start the payload
  when the header is complete.\<close>

definition h4_header_byte ::
    "'w h4_parser \<Rightarrow> u8 \<Rightarrow> h4_parser_state \<Rightarrow> (bytes \<Rightarrow> nat option) \<Rightarrow> 'w
       \<Rightarrow> (bool \<times> 'w h4_parser \<times> 'w) option" where
  "h4_header_byte p byte payload_state payload_len_of w =
     do {
       hdr \<leftarrow> wr (header p) (header_pos p) byte;
       let p = p\<lparr>header := hdr, header_pos := header_pos p + 1\<rparr>;
       if header_pos p = header_len p
       then do {
         n \<leftarrow> payload_len_of (header p);
         h4_begin_payload p payload_state n w
       }
       else Some (True, p, w)
     }"

definition h4_payload_byte ::
    "'w h4_parser \<Rightarrow> u8 \<Rightarrow> 'w \<Rightarrow> (bool \<times> 'w h4_parser \<times> 'w) option" where
  "h4_payload_byte p byte w =
     (if packet_pos p \<ge> packet_capacity p
      then Some (False, h4_parser_reset (p\<lparr>error_count := error_count p + 1\<rparr>), w)
      else do {
        buf \<leftarrow> wr (packet p) (packet_pos p) byte;
        let p = p\<lparr>packet := buf, packet_pos := packet_pos p + 1\<rparr>;
        if packet_pos p = packet_len p
        then Some (True, h4_parser_reset p, h4_deliver p w)
        else Some (True, p, w)
      })"

definition h4_parser_feed_byte ::
    "'w h4_parser \<Rightarrow> u8 \<Rightarrow> 'w \<Rightarrow> (bool \<times> 'w h4_parser \<times> 'w) option" where
  "h4_parser_feed_byte p byte w =
     (case state p of
        H4_WAIT_TYPE \<Rightarrow>
          Some (True,
            (if byte = hci_packet_type_byte HCI_PKT_EVENT
             then (h4_start_header p HCI_PKT_EVENT 2)\<lparr>state := H4_READ_EVENT_HEADER\<rparr>
             else if byte = hci_packet_type_byte HCI_PKT_ACL
             then (h4_start_header p HCI_PKT_ACL 4)\<lparr>state := H4_READ_ACL_HEADER\<rparr>
             else if byte = hci_packet_type_byte HCI_PKT_SCO
             then (h4_start_header p HCI_PKT_SCO 3)\<lparr>state := H4_READ_SCO_HEADER\<rparr>
             else p\<lparr>error_count := error_count p + 1, state := H4_ERROR_RECOVERY\<rparr>), w)
      | H4_READ_EVENT_HEADER \<Rightarrow>
          h4_header_byte p byte H4_READ_EVENT_PAYLOAD
            (\<lambda>h. do { n \<leftarrow> rd h 1; Some (unat n) }) w
      | H4_READ_ACL_HEADER \<Rightarrow>
          h4_header_byte p byte H4_READ_ACL_PAYLOAD
            (\<lambda>h. do { lo \<leftarrow> rd h 2; hi \<leftarrow> rd h 3; Some (unat (le16 lo hi)) }) w
      | H4_READ_SCO_HEADER \<Rightarrow>
          h4_header_byte p byte H4_READ_SCO_PAYLOAD
            (\<lambda>h. do { n \<leftarrow> rd h 2; Some (unat n) }) w
      | H4_READ_EVENT_PAYLOAD \<Rightarrow> h4_payload_byte p byte w
      | H4_READ_ACL_PAYLOAD \<Rightarrow> h4_payload_byte p byte w
      | H4_READ_SCO_PAYLOAD \<Rightarrow> h4_payload_byte p byte w
      | H4_ERROR_RECOVERY \<Rightarrow> Some (False, h4_parser_reset p, w))"

text \<open>Feeding a run of bytes, as \<open>esp32_task\<close> does with what the UART received.\<close>

fun h4_feed :: "'w h4_parser \<Rightarrow> bytes \<Rightarrow> 'w \<Rightarrow> ('w h4_parser \<times> 'w) option" where
  "h4_feed p [] w = Some (p, w)"
| "h4_feed p (b # bs) w =
     do { (_, p', w') \<leftarrow> h4_parser_feed_byte p b w; h4_feed p' bs w' }"


lemmas h4_ops = h4_start_header_def h4_parser_reset_def h4_deliver_def h4_begin_payload_def
  h4_header_byte_def h4_payload_byte_def h4_parser_feed_byte_def

section \<open>The buffer invariant\<close>

text \<open>
  What every reachable parser satisfies: the header store has its four bytes, the packet
  buffer its declared capacity, and the positions are inside the store that the state
  writes next.
\<close>

definition h4_state_ok :: "'w h4_parser \<Rightarrow> bool" where
  "h4_state_ok p =
     (case state p of
        H4_READ_EVENT_HEADER \<Rightarrow> type p = HCI_PKT_EVENT \<and> header_len p = 2 \<and> header_pos p < 2
      | H4_READ_ACL_HEADER \<Rightarrow> type p = HCI_PKT_ACL \<and> header_len p = 4 \<and> header_pos p < 4
      | H4_READ_SCO_HEADER \<Rightarrow> type p = HCI_PKT_SCO \<and> header_len p = 3 \<and> header_pos p < 3
      | H4_READ_EVENT_PAYLOAD \<Rightarrow> type p = HCI_PKT_EVENT \<and> packet_pos p \<le> packet_capacity p
      | H4_READ_ACL_PAYLOAD \<Rightarrow> type p = HCI_PKT_ACL \<and> packet_pos p \<le> packet_capacity p
      | H4_READ_SCO_PAYLOAD \<Rightarrow> type p = HCI_PKT_SCO \<and> packet_pos p \<le> packet_capacity p
      | _ \<Rightarrow> True)"

definition h4_inv :: "'w h4_parser \<Rightarrow> bool" where
  "h4_inv p \<longleftrightarrow> length (header p) = 4 \<and> length (packet p) = packet_capacity p \<and>
     4 \<le> packet_capacity p \<and> packet_capacity p < 65536 \<and> packet_len p \<le> packet_capacity p \<and>
     h4_state_ok p"

lemmas h4_inv_defs = h4_inv_def h4_state_ok_def

lemma h4_inv_init:
  "length buf = cap \<Longrightarrow> 4 \<le> cap \<Longrightarrow> cap < 65536 \<Longrightarrow> h4_inv (h4_parser_init buf cap cb)"
  by (simp add: h4_inv_defs h4_parser_init_def)

lemma h4_inv_reset [simp]: "h4_inv p \<Longrightarrow> h4_inv (h4_parser_reset p)"
  by (simp add: h4_inv_defs h4_parser_reset_def)

text \<open>A step of the parser is fine when it exists, keeps the invariant, and leaves the
  capacity and the callback alone.\<close>

definition h4_step_ok :: "'w h4_parser \<Rightarrow> (bool \<times> 'w h4_parser \<times> 'w) option \<Rightarrow> bool" where
  "h4_step_ok p r = (case r of None \<Rightarrow> False | Some (_, q, _) \<Rightarrow>
     h4_inv q \<and> packet_capacity q = packet_capacity p \<and> callback q = callback p)"

lemma h4_step_ok_cong:
  "packet_capacity q = packet_capacity p \<Longrightarrow> callback q = callback p \<Longrightarrow>
   h4_step_ok q r = h4_step_ok p r"
  by (simp add: h4_step_ok_def split: option.split)

lemma h4_step_ok_Some [simp]:
  "h4_step_ok p (Some (r, q, w)) \<longleftrightarrow>
   h4_inv q \<and> packet_capacity q = packet_capacity p \<and> callback q = callback p"
  by (simp add: h4_step_ok_def)

lemma h4_begin_payload_ok:
  assumes "length (header p) = 4" "length (packet p) = packet_capacity p"
    and "4 \<le> packet_capacity p" "packet_capacity p < 65536" and "header_len p \<le> 4"
    and "(type p, st) \<in> {(HCI_PKT_EVENT, H4_READ_EVENT_PAYLOAD),
           (HCI_PKT_ACL, H4_READ_ACL_PAYLOAD), (HCI_PKT_SCO, H4_READ_SCO_PAYLOAD)}"
  shows "h4_step_ok p (h4_begin_payload p st n w)"
  using assms by (auto simp: h4_step_ok_def h4_begin_payload_def h4_inv_defs h4_parser_reset_def Let_def)

lemma h4_payload_byte_ok:
  assumes "h4_inv p" "state p \<in> {H4_READ_EVENT_PAYLOAD, H4_READ_ACL_PAYLOAD, H4_READ_SCO_PAYLOAD}"
  shows "h4_step_ok p (h4_payload_byte p b w)"
  using assms by (auto simp: h4_step_ok_def h4_payload_byte_def h4_inv_defs h4_parser_reset_def Let_def)

lemma h4_header_byte_ok:
  assumes "h4_inv p" and "header_pos p < header_len p" "header_len p \<le> 4"
    and "state p \<in> {H4_READ_EVENT_HEADER, H4_READ_ACL_HEADER, H4_READ_SCO_HEADER}"
    and "(type p, st) \<in> {(HCI_PKT_EVENT, H4_READ_EVENT_PAYLOAD),
           (HCI_PKT_ACL, H4_READ_ACL_PAYLOAD), (HCI_PKT_SCO, H4_READ_SCO_PAYLOAD)}"
    and f: "\<And>h. length h = 4 \<Longrightarrow> \<exists>n. f h = Some n"
  shows "h4_step_ok p (h4_header_byte p b st f w)"
proof -
  let ?q = "p\<lparr>header := (header p)[header_pos p := b], header_pos := header_pos p + 1\<rparr>"
  have len: "length (header p) = 4" using assms(1) by (simp add: h4_inv_def)
  obtain n where n: "f (header ?q) = Some n" using f [of "header ?q"] len by auto
  have "h4_step_ok ?q (h4_begin_payload ?q st n w)"
    by (rule h4_begin_payload_ok) (use assms(1,3,5) in \<open>simp_all add: h4_inv_def\<close>)
  then have "h4_step_ok p (h4_begin_payload ?q st n w)"
    using h4_step_ok_cong [of ?q p] by simp
  moreover have "h4_inv ?q" if "header_pos p + 1 \<noteq> header_len p"
    using assms that by (auto simp: h4_inv_defs)
  ultimately show ?thesis
    using assms(2,3) len n
    by (cases "header_pos p + 1 = header_len p") (simp_all add: h4_header_byte_def)
qed

lemma h4_feed_byte_ok: "h4_inv p \<Longrightarrow> h4_step_ok p (h4_parser_feed_byte p b w)"
proof (cases "state p")
  case H4_READ_EVENT_HEADER
  moreover assume "h4_inv p"
  ultimately show ?thesis
    by (simp add: h4_parser_feed_byte_def) (rule h4_header_byte_ok; auto simp: h4_inv_defs)
next
  case H4_READ_ACL_HEADER
  moreover assume "h4_inv p"
  ultimately show ?thesis
    by (simp add: h4_parser_feed_byte_def) (rule h4_header_byte_ok; auto simp: h4_inv_defs)
next
  case H4_READ_SCO_HEADER
  moreover assume "h4_inv p"
  ultimately show ?thesis
    by (simp add: h4_parser_feed_byte_def) (rule h4_header_byte_ok; auto simp: h4_inv_defs)
qed (auto simp: h4_parser_feed_byte_def h4_payload_byte_ok, auto simp: h4_inv_defs
       h4_start_header_def h4_parser_reset_def)

section \<open>Framing and delivery\<close>

text \<open>
  The packets H4 can carry from the controller, by the length rule of each indicator:
  \<open>h4_frame t pkt\<close> holds when the length field in the header of \<open>pkt\<close> is the
  number of bytes that follow it.
\<close>

fun h4_frame :: "hci_packet_type \<Rightarrow> bytes \<Rightarrow> bool" where
  "h4_frame HCI_PKT_EVENT pkt \<longleftrightarrow> 2 \<le> length pkt \<and> length pkt = 2 + unat (pkt ! 1)"
| "h4_frame HCI_PKT_ACL pkt \<longleftrightarrow>
     4 \<le> length pkt \<and> length pkt = 4 + unat (le16 (pkt ! 2) (pkt ! 3))"
| "h4_frame HCI_PKT_SCO pkt \<longleftrightarrow> 3 \<le> length pkt \<and> length pkt = 3 + unat (pkt ! 2)"
| "h4_frame _ pkt \<longleftrightarrow> False"

text \<open>The bytes on the wire: the indicator, then the packet.\<close>

definition h4_encode :: "hci_packet_type \<Rightarrow> bytes \<Rightarrow> bytes" where
  "h4_encode t pkt = hci_packet_type_byte t # pkt"

lemma h4_feed_append:
  "h4_feed p (xs @ ys) w = do { (q, v) \<leftarrow> h4_feed p xs w; h4_feed q ys v }"
proof (induction xs arbitrary: p w)
  case Nil
  then show ?case by simp
next
  case (Cons x xs)
  then show ?case by (cases "h4_parser_feed_byte p x w") auto
qed

lemma h4_feed_inv:
  "h4_inv p \<Longrightarrow> \<exists>q v. h4_feed p bs w = Some (q, v) \<and> h4_inv q \<and>
     packet_capacity q = packet_capacity p \<and> callback q = callback p"
proof (induction bs arbitrary: p w)
  case Nil
  then show ?case by simp
next
  case (Cons b bs)
  from h4_feed_byte_ok [OF Cons.prems, of b w] obtain r q v where
    q: "h4_parser_feed_byte p b w = Some (r, q, v)" "h4_inv q"
      "packet_capacity q = packet_capacity p" "callback q = callback p"
    by (auto simp: h4_step_ok_def split: option.splits)
  with Cons.IH [OF q(2), of v] show ?case by simp
qed

text \<open>The payload bytes of a packet whose header has been read.\<close>

lemma h4_feed_payload:
  assumes "state p \<in> {H4_READ_EVENT_PAYLOAD, H4_READ_ACL_PAYLOAD, H4_READ_SCO_PAYLOAD}"
    and "length (packet p) = packet_capacity p" and "packet_len p \<le> packet_capacity p"
    and "packet_pos p + length bs = packet_len p" and "bs \<noteq> []"
  shows "h4_feed p bs w =
     Some (h4_parser_reset
             (p\<lparr>packet := take (packet_pos p) (packet p) @ bs @ drop (packet_len p) (packet p)\<rparr>),
           call_rx (callback p) (type p) (take (packet_pos p) (packet p) @ bs) w)"
  using assms
proof (induction bs arbitrary: p)
  case Nil
  then show ?case by simp
next
  case (Cons b bs)
  let ?q = "p\<lparr>packet := (packet p)[packet_pos p := b], packet_pos := packet_pos p + 1\<rparr>"
  have pos: "packet_pos p < packet_len p" "packet_pos p < length (packet p)"
    using Cons.prems by auto
  have last: "packet_pos p + 1 = packet_len p \<longleftrightarrow> bs = []"
    using Cons.prems(4) by (cases bs) auto
  have step: "h4_parser_feed_byte p b w =
      (if bs = [] then Some (True, h4_parser_reset ?q, h4_deliver ?q w) else Some (True, ?q, w))"
    using Cons.prems(1,2,3) pos last by (auto simp: h4_parser_feed_byte_def h4_payload_byte_def)
  have upd: "(packet p)[packet_pos p := b] =
      take (packet_pos p) (packet p) @ b # drop (Suc (packet_pos p)) (packet p)"
    using pos by (simp add: upd_conv_take_nth_drop)
  show ?case
  proof (cases "bs = []")
    case True
    then have "packet_len p = Suc (packet_pos p)" using Cons.prems by simp
    with True step pos show ?thesis
      by (simp add: h4_deliver_def h4_parser_reset_def upd)
  next
    case False
    have "h4_feed ?q bs w =
       Some (h4_parser_reset (?q\<lparr>packet := take (packet_pos ?q) (packet ?q) @ bs
               @ drop (packet_len ?q) (packet ?q)\<rparr>),
             call_rx (callback ?q) (type ?q) (take (packet_pos ?q) (packet ?q) @ bs) w)"
      by (rule Cons.IH) (use Cons.prems False in auto)
    with False step pos Cons.prems show ?thesis
      by (simp add: h4_parser_reset_def drop_update_cancel)
  qed
qed

text \<open>The payload phase from its start, for the header that has just been completed.\<close>

lemma h4_begin_feed:
  assumes "length (header p) = 4" "length (packet p) = packet_capacity p"
    and "4 \<le> packet_capacity p" "packet_capacity p < 65536" and "header_len p \<le> 4"
    and "(type p, st) \<in> {(HCI_PKT_EVENT, H4_READ_EVENT_PAYLOAD),
           (HCI_PKT_ACL, H4_READ_ACL_PAYLOAD), (HCI_PKT_SCO, H4_READ_SCO_PAYLOAD)}"
    and n: "n = length rest" and cap: "header_len p + length rest \<le> packet_capacity p"
  shows "\<exists>q. (do { (_, q, v) \<leftarrow> h4_begin_payload p st n w; h4_feed q rest v }) =
       Some (q, call_rx (callback p) (type p) (take (header_len p) (header p) @ rest) w) \<and>
     h4_inv q \<and> state q = H4_WAIT_TYPE \<and> packet_capacity q = packet_capacity p \<and>
     callback q = callback p \<and> error_count q = error_count p"
proof (cases "rest = []")
  case True
  with assms show ?thesis
    by (auto simp: h4_begin_payload_def h4_deliver_def h4_parser_reset_def h4_inv_defs)
next
  case False
  let ?hdr = "take (header_len p) (header p)"
  let ?q = "p\<lparr>packet_len := header_len p + n, packet := ?hdr @ drop (header_len p) (packet p),
     packet_pos := header_len p, state := st\<rparr>"
  have b: "h4_begin_payload p st n w = Some (True, ?q, w)"
    using False assms by (auto simp: h4_begin_payload_def)
  have "h4_feed ?q rest w =
     Some (h4_parser_reset (?q\<lparr>packet := take (packet_pos ?q) (packet ?q) @ rest
             @ drop (packet_len ?q) (packet ?q)\<rparr>),
           call_rx (callback ?q) (type ?q) (take (packet_pos ?q) (packet ?q) @ rest) w)"
    by (rule h4_feed_payload) (use assms False in auto)
  with b assms show ?thesis by (auto simp: h4_parser_reset_def h4_inv_defs)
qed

text \<open>
  A well-formed packet that fits the buffer, fed to a waiting parser: it is delivered
  once, unchanged, and the parser waits again.
\<close>

lemmas h4_feed_header_simps = h4_encode_def h4_parser_feed_byte_def h4_header_byte_def
  h4_start_header_def rd_def wr_def numeral_eq_Suc

lemma h4_feed_frame:
  assumes inv: "h4_inv p" and wait: "state p = H4_WAIT_TYPE"
    and frame: "h4_frame t pkt" and cap: "length pkt \<le> packet_capacity p"
  shows "\<exists>q. h4_feed p (h4_encode t pkt) w = Some (q, call_rx (callback p) t pkt w) \<and>
     h4_inv q \<and> state q = H4_WAIT_TYPE \<and> packet_capacity q = packet_capacity p \<and>
     callback q = callback p \<and> error_count q = error_count p"
proof -
  have "length (header p) = 4" using inv by (simp add: h4_inv_def)
  then obtain x0 x1 x2 x3 where hdr: "header p = [x0, x1, x2, x3]"
    by (auto simp: length_Suc_conv numeral_eq_Suc)
  have p: "length (packet p) = packet_capacity p" "4 \<le> packet_capacity p"
    "packet_capacity p < 65536" using inv by (auto simp: h4_inv_def)
  show ?thesis
  proof (cases t)
    case HCI_PKT_EVENT
    then obtain a b rest where pkt: "pkt = a # b # rest" "unat b = length rest"
      using frame by (cases pkt rule: remdups_adj.cases) auto
    let ?p = "p\<lparr>type := HCI_PKT_EVENT, header_len := 2, packet_pos := 0, packet_len := 0,
      state := H4_READ_EVENT_HEADER, header := [a, b, x2, x3], header_pos := 2\<rparr>"
    have "h4_feed p (h4_encode t pkt) w =
        do { (_, q, v) \<leftarrow> h4_begin_payload ?p H4_READ_EVENT_PAYLOAD (unat b) w; h4_feed q rest v }"
      using HCI_PKT_EVENT pkt wait hdr by (simp add: h4_feed_header_simps)
    then show ?thesis
      using h4_begin_feed [of ?p H4_READ_EVENT_PAYLOAD "unat b" rest w] HCI_PKT_EVENT pkt p cap by simp
  next
    case HCI_PKT_ACL
    then obtain a b c d rest where pkt: "pkt = a # b # c # d # rest"
      "unat (le16 c d) = length rest"
      using frame by (cases pkt; cases "tl pkt"; cases "tl (tl pkt)"; cases "tl (tl (tl pkt))") auto
    let ?p = "p\<lparr>type := HCI_PKT_ACL, header_len := 4, packet_pos := 0, packet_len := 0,
      state := H4_READ_ACL_HEADER, header := [a, b, c, d], header_pos := 4\<rparr>"
    have "h4_feed p (h4_encode t pkt) w =
        do { (_, q, v) \<leftarrow> h4_begin_payload ?p H4_READ_ACL_PAYLOAD (unat (le16 c d)) w; h4_feed q rest v }"
      using HCI_PKT_ACL pkt wait hdr by (simp add: h4_feed_header_simps)
    then show ?thesis
      using h4_begin_feed [of ?p H4_READ_ACL_PAYLOAD "unat (le16 c d)" rest w] HCI_PKT_ACL pkt p cap by simp
  next
    case HCI_PKT_SCO
    then obtain a b c rest where pkt: "pkt = a # b # c # rest" "unat c = length rest"
      using frame by (cases pkt; cases "tl pkt"; cases "tl (tl pkt)") auto
    let ?p = "p\<lparr>type := HCI_PKT_SCO, header_len := 3, packet_pos := 0, packet_len := 0,
      state := H4_READ_SCO_HEADER, header := [a, b, c, x3], header_pos := 3\<rparr>"
    have "h4_feed p (h4_encode t pkt) w =
        do { (_, q, v) \<leftarrow> h4_begin_payload ?p H4_READ_SCO_PAYLOAD (unat c) w; h4_feed q rest v }"
      using HCI_PKT_SCO pkt wait hdr by (simp add: h4_feed_header_simps)
    then show ?thesis
      using h4_begin_feed [of ?p H4_READ_SCO_PAYLOAD "unat c" rest w] HCI_PKT_SCO pkt p cap by simp
  qed (use frame in auto)
qed

section \<open>Only well-formed packets are delivered\<close>

definition h4_header_size :: "hci_packet_type \<Rightarrow> nat" where
  "h4_header_size t =
     (case t of HCI_PKT_EVENT \<Rightarrow> 2 | HCI_PKT_ACL \<Rightarrow> 4 | HCI_PKT_SCO \<Rightarrow> 3 | _ \<Rightarrow> 0)"

definition h4_length_field :: "hci_packet_type \<Rightarrow> bytes \<Rightarrow> nat" where
  "h4_length_field t h =
     (case t of HCI_PKT_EVENT \<Rightarrow> unat (h ! 1) | HCI_PKT_ACL \<Rightarrow> unat (le16 (h ! 2) (h ! 3))
      | HCI_PKT_SCO \<Rightarrow> unat (h ! 2) | _ \<Rightarrow> 0)"

lemma h4_frame_iff:
  "t \<in> {HCI_PKT_EVENT, HCI_PKT_ACL, HCI_PKT_SCO} \<Longrightarrow>
   h4_frame t pkt \<longleftrightarrow> h4_header_size t \<le> length pkt \<and>
     length pkt = h4_header_size t + h4_length_field t pkt"
  by (auto simp: h4_header_size_def h4_length_field_def)

lemma h4_length_field_take:
  "take (h4_header_size t) xs = take (h4_header_size t) h \<Longrightarrow>
   h4_length_field t xs = h4_length_field t h"
proof -
  assume eq: "take (h4_header_size t) xs = take (h4_header_size t) h"
  have "xs ! i = h ! i" if "i < h4_header_size t" for i
    using that eq by (metis nth_take)
  then show ?thesis by (auto simp: h4_length_field_def h4_header_size_def split: hci_packet_type.split)
qed

lemma h4_length_field_less: "h4_length_field t h < 65536"
  using unat_u16_less [of "le16 (h ! 2) (h ! 3)"] unat_u8_less [of "h ! 1"] unat_u8_less [of "h ! 2"]
  by (auto simp: h4_length_field_def split: hci_packet_type.split simp del: unat_u8_less)

text \<open>While a payload is read, the packet buffer starts with the header, and the total
  length is the one the header announces, reduced to 16 bits.\<close>

definition h4_framed :: "'w h4_parser \<Rightarrow> bool" where
  "h4_framed p \<longleftrightarrow>
     (state p \<in> {H4_READ_EVENT_PAYLOAD, H4_READ_ACL_PAYLOAD, H4_READ_SCO_PAYLOAD} \<longrightarrow>
        h4_header_size (type p) \<le> packet_pos p \<and>
        take (h4_header_size (type p)) (packet p) = take (h4_header_size (type p)) (header p) \<and>
        packet_len p = to_u16 (h4_header_size (type p) + h4_length_field (type p) (header p)))"

definition h4_delivers :: "'w h4_parser \<Rightarrow> 'w \<Rightarrow> 'w \<Rightarrow> bool" where
  "h4_delivers p w v \<longleftrightarrow> v = w \<or>
     (\<exists>t pkt. h4_frame t pkt \<and> length pkt \<le> packet_capacity p \<and> v = call_rx (callback p) t pkt w)"

lemma h4_delivers_none [simp]: "h4_delivers p w w"
  by (simp add: h4_delivers_def)

lemma h4_delivers_one:
  "h4_frame t pkt \<Longrightarrow> length pkt \<le> packet_capacity p \<Longrightarrow> v = call_rx (callback p) t pkt w \<Longrightarrow>
   h4_delivers p w v"
  by (auto simp: h4_delivers_def)

lemma h4_framed_wait [simp]: "state p = H4_WAIT_TYPE \<Longrightarrow> h4_framed p"
  by (simp add: h4_framed_def)

lemma h4_begin_payload_framed:
  assumes "length (header p) = 4" "length (packet p) = packet_capacity p"
    and "4 \<le> packet_capacity p" "packet_capacity p < 65536"
    and "(type p, st) \<in> {(HCI_PKT_EVENT, H4_READ_EVENT_PAYLOAD),
           (HCI_PKT_ACL, H4_READ_ACL_PAYLOAD), (HCI_PKT_SCO, H4_READ_SCO_PAYLOAD)}"
    and hl: "header_len p = h4_header_size (type p)"
    and n: "n = h4_length_field (type p) (header p)"
    and step: "h4_begin_payload p st n w = Some (r, q, v)"
  shows "h4_framed q \<and> h4_delivers p w v"
proof -
  let ?h = "h4_header_size (type p)"
  let ?buf = "take ?h (header p) @ drop ?h (packet p)"
  have h4: "?h \<le> 4" "?h \<le> length (header p)" "?h \<le> length ?buf"
    using assms(1-5) by (auto simp: h4_header_size_def)
  have "h4_frame (type p) (take ?h ?buf)" if "n = 0"
  proof -
    have "h4_length_field (type p) (take ?h ?buf) = 0"
      using n that h4 h4_length_field_take [of "type p" "take ?h ?buf" "header p"] by simp
    moreover have "type p \<in> {HCI_PKT_EVENT, HCI_PKT_ACL, HCI_PKT_SCO}" using assms(5) by auto
    ultimately show ?thesis using h4 by (subst h4_frame_iff) simp_all
  qed
  note frame = this
  show ?thesis
  proof (cases "packet_capacity p < to_u16 (?h + n) \<or> n = 0")
    case True
    then show ?thesis
      using step h4 hl assms(1-4) frame
      by (cases "n = 0") (auto simp: h4_begin_payload_def h4_parser_reset_def
          h4_deliver_def min_def intro: h4_delivers_one split: if_splits)
  next
    case False
    then have "q = p\<lparr>packet_len := to_u16 (?h + n), packet := ?buf, packet_pos := ?h, state := st\<rparr>"
      "v = w"
      using step h4 hl assms(1-4) by (auto simp: h4_begin_payload_def min_def)
    then show ?thesis using h4 n by (simp add: h4_framed_def)
  qed
qed

lemma h4_payload_byte_framed:
  assumes inv: "h4_inv p" and fr: "h4_framed p"
    and st: "state p \<in> {H4_READ_EVENT_PAYLOAD, H4_READ_ACL_PAYLOAD, H4_READ_SCO_PAYLOAD}"
    and step: "h4_payload_byte p b w = Some (r, q, v)"
  shows "h4_framed q \<and> h4_delivers p w v"
proof (cases "packet_pos p \<ge> packet_capacity p")
  case True
  with step show ?thesis
    by (auto simp: h4_payload_byte_def h4_framed_def h4_delivers_def h4_parser_reset_def)
next
  case False
  let ?t = "type p" and ?h = "h4_header_size (type p)"
  let ?buf = "(packet p)[packet_pos p := b]"
  have f: "?h \<le> packet_pos p" "take ?h (packet p) = take ?h (header p)"
    "packet_len p = to_u16 (?h + h4_length_field ?t (header p))"
    using fr st by (auto simp: h4_framed_def)
  have t: "?t \<in> {HCI_PKT_EVENT, HCI_PKT_ACL, HCI_PKT_SCO}" and cap: "packet_len p \<le> length ?buf"
    "length (packet p) = packet_capacity p"
    using inv st by (auto simp: h4_inv_defs)
  have pre: "take ?h ?buf = take ?h (header p)" using f by simp
  have "h4_frame ?t (take (packet_len p) ?buf)" if "packet_pos p + 1 = packet_len p"
  proof -
    have "?h + h4_length_field ?t (header p) < 65536"
    proof (rule ccontr)
      assume "\<not> ?thesis"
      moreover have "?h \<le> 4" by (auto simp: h4_header_size_def split: hci_packet_type.split)
      moreover have "to_u16 (?h + h4_length_field ?t (header p)) \<le>
          ?h + h4_length_field ?t (header p) - 65536" if "65536 \<le> ?h + h4_length_field ?t (header p)"
        using that by (simp add: to_u16_def le_mod_geq)
      ultimately have "to_u16 (?h + h4_length_field ?t (header p)) < ?h"
        using h4_length_field_less [of ?t "header p"] by linarith
      then show False using f that by simp
    qed
    then have "packet_len p = ?h + h4_length_field ?t (header p)" using f by simp
    moreover have "h4_length_field ?t (take (packet_len p) ?buf) = h4_length_field ?t (header p)"
      using pre f(1) that by (intro h4_length_field_take) (simp add: min_def)
    ultimately show ?thesis using t cap by (simp add: h4_frame_iff)
  qed
  note frame = this
  have r: "h4_payload_byte p b w =
     (if packet_pos p + 1 = packet_len p
      then Some (True, h4_parser_reset (p\<lparr>packet := ?buf, packet_pos := packet_pos p + 1\<rparr>),
             call_rx (callback p) ?t (take (packet_len p) ?buf) w)
      else Some (True, p\<lparr>packet := ?buf, packet_pos := packet_pos p + 1\<rparr>, w))"
    using False cap by (simp add: h4_payload_byte_def h4_deliver_def)
  show ?thesis
  proof (cases "packet_pos p + 1 = packet_len p")
    case True
    then have "state q = H4_WAIT_TYPE" "v = call_rx (callback p) ?t (take (packet_len p) ?buf) w"
      using step r by (auto simp: h4_parser_reset_def)
    moreover have "length (take (packet_len p) ?buf) \<le> packet_capacity p" using cap by simp
    ultimately show ?thesis
      using h4_delivers_one [OF frame [OF True], of p v w] h4_framed_wait by blast
  next
    case False
    then have "q = p\<lparr>packet := ?buf, packet_pos := packet_pos p + 1\<rparr>" "v = w"
      using step r by auto
    then show ?thesis using f pre by (simp add: h4_framed_def)
  qed
qed

lemma h4_header_byte_framed:
  assumes inv: "h4_inv p"
    and st: "(type p, st) \<in> {(HCI_PKT_EVENT, H4_READ_EVENT_PAYLOAD),
           (HCI_PKT_ACL, H4_READ_ACL_PAYLOAD), (HCI_PKT_SCO, H4_READ_SCO_PAYLOAD)}"
    and hd: "state p \<in> {H4_READ_EVENT_HEADER, H4_READ_ACL_HEADER, H4_READ_SCO_HEADER}"
    and hl: "header_len p = h4_header_size (type p)"
    and f: "\<And>h. length h = 4 \<Longrightarrow> f h = Some (h4_length_field (type p) h)"
    and step: "h4_header_byte p b st f w = Some (r, q, v)"
  shows "h4_framed q \<and> h4_delivers p w v"
proof -
  let ?q = "p\<lparr>header := (header p)[header_pos p := b], header_pos := header_pos p + 1\<rparr>"
  have len: "length (header p) = 4" using inv by (simp add: h4_inv_def)
  have f': "f (header ?q) = Some (h4_length_field (type p) (header ?q))"
    using f [of "header ?q"] len by simp
  show ?thesis
  proof (cases "header_pos p + 1 = header_len p")
    case True
    then have "h4_begin_payload ?q st (h4_length_field (type p) (header ?q)) w = Some (r, q, v)"
      using step f' by (auto simp: h4_header_byte_def wr_def split: if_splits)
    then have "h4_framed q \<and> h4_delivers ?q w v"
      by (rule h4_begin_payload_framed [rotated 7]) (use inv st hl in \<open>auto simp: h4_inv_def\<close>)
    then show ?thesis by (simp add: h4_delivers_def)
  next
    case False
    then show ?thesis
      using step hd by (auto simp: h4_header_byte_def wr_def h4_framed_def h4_delivers_def
          split: if_splits)
  qed
qed

lemma h4_feed_byte_framed:
  assumes inv: "h4_inv p" and fr: "h4_framed p"
    and step: "h4_parser_feed_byte p b w = Some (r, q, v)"
  shows "h4_framed q \<and> h4_delivers p w v"
proof (cases "state p")
  case H4_READ_EVENT_HEADER
  have "h4_header_byte p b H4_READ_EVENT_PAYLOAD
      (\<lambda>h. do { n \<leftarrow> rd h 1; Some (unat n) }) w = Some (r, q, v)"
    using step H4_READ_EVENT_HEADER by (simp add: h4_parser_feed_byte_def)
  then show ?thesis
    by (rule h4_header_byte_framed [rotated 5])
      (use inv H4_READ_EVENT_HEADER in
        \<open>auto simp: h4_inv_defs h4_header_size_def h4_length_field_def\<close>)
next
  case H4_READ_ACL_HEADER
  have "h4_header_byte p b H4_READ_ACL_PAYLOAD
      (\<lambda>h. do { lo \<leftarrow> rd h 2; hi \<leftarrow> rd h 3; Some (unat (le16 lo hi)) }) w = Some (r, q, v)"
    using step H4_READ_ACL_HEADER by (simp add: h4_parser_feed_byte_def)
  then show ?thesis
    by (rule h4_header_byte_framed [rotated 5])
      (use inv H4_READ_ACL_HEADER in
        \<open>auto simp: h4_inv_defs h4_header_size_def h4_length_field_def\<close>)
next
  case H4_READ_SCO_HEADER
  have "h4_header_byte p b H4_READ_SCO_PAYLOAD
      (\<lambda>h. do { n \<leftarrow> rd h 2; Some (unat n) }) w = Some (r, q, v)"
    using step H4_READ_SCO_HEADER by (simp add: h4_parser_feed_byte_def)
  then show ?thesis
    by (rule h4_header_byte_framed [rotated 5])
      (use inv H4_READ_SCO_HEADER in
        \<open>auto simp: h4_inv_defs h4_header_size_def h4_length_field_def\<close>)
next
  case H4_WAIT_TYPE
  with step show ?thesis
    by (auto simp: h4_parser_feed_byte_def h4_framed_def h4_delivers_def h4_start_header_def)
next
  case H4_ERROR_RECOVERY
  with step show ?thesis
    by (auto simp: h4_parser_feed_byte_def h4_framed_def h4_delivers_def h4_parser_reset_def)
qed (use step in \<open>auto simp: h4_parser_feed_byte_def intro!: h4_payload_byte_framed [OF inv fr]\<close>)

lemma h4_feed_framed:
  "h4_inv p \<Longrightarrow> h4_framed p \<Longrightarrow> h4_feed p bs w = Some (q, v) \<Longrightarrow>
   \<exists>pkts. (\<forall>(t, pkt) \<in> set pkts. h4_frame t pkt \<and> length pkt \<le> packet_capacity p) \<and>
     v = fold (\<lambda>(t, pkt). call_rx (callback p) t pkt) pkts w"
proof (induction bs arbitrary: p w)
  case Nil
  then have "v = fold (\<lambda>(t, pkt). call_rx (callback p) t pkt) [] w" by simp
  then show ?case by (intro exI [of _ "[]"]) simp
next
  case (Cons b bs)
  from Cons.prems(3) obtain r p' w' where
    step: "h4_parser_feed_byte p b w = Some (r, p', w')" and rest: "h4_feed p' bs w' = Some (q, v)"
    by (auto simp: bind_eq_Some_conv)
  have p': "h4_inv p'" "packet_capacity p' = packet_capacity p" "callback p' = callback p"
    using h4_feed_byte_ok [OF Cons.prems(1), of b w] step by simp_all
  have d: "h4_framed p'" "h4_delivers p w w'"
    using h4_feed_byte_framed [OF Cons.prems(1,2) step] by simp_all
  from Cons.IH [OF p'(1) d(1) rest] p' obtain pkts where
    pkts: "\<forall>(t, pkt) \<in> set pkts. h4_frame t pkt \<and> length pkt \<le> packet_capacity p"
      "v = fold (\<lambda>(t, pkt). call_rx (callback p) t pkt) pkts w'" by auto
  from d(2) consider "w' = w" | t pkt where "h4_frame t pkt" "length pkt \<le> packet_capacity p"
      "w' = call_rx (callback p) t pkt w"
    by (auto simp: h4_delivers_def)
  then show ?case
  proof cases
    case 1
    with pkts show ?thesis by blast
  next
    case (2 t pkt)
    with pkts show ?thesis by (intro exI [of _ "(t, pkt) # pkts"]) simp
  qed
qed

lemma h4_feed_stays_framed:
  "h4_inv p \<Longrightarrow> h4_framed p \<Longrightarrow> h4_feed p bs w = Some (q, v) \<Longrightarrow> h4_framed q"
proof (induction bs arbitrary: p w)
  case Nil
  then show ?case by simp
next
  case (Cons b bs)
  from Cons.prems(3) obtain r p' w' where
    step: "h4_parser_feed_byte p b w = Some (r, p', w')" and rest: "h4_feed p' bs w' = Some (q, v)"
    by (auto simp: bind_eq_Some_conv)
  have "h4_inv p'" using h4_feed_byte_ok [OF Cons.prems(1), of b w] step by simp
  then show ?case
    using Cons.IH [OF _ _ rest] h4_feed_byte_framed [OF Cons.prems(1,2) step] by blast
qed

section \<open>Streams, recovery and oversized lengths\<close>

definition h4_encode_all :: "(hci_packet_type \<times> bytes) list \<Rightarrow> bytes" where
  "h4_encode_all pkts = concat (map (\<lambda>(t, pkt). h4_encode t pkt) pkts)"

text \<open>A callback that records what it is given, for the witnesses.\<close>

definition log_rx :: "(hci_packet_type \<times> bytes) list hci_rx_cb" where
  "log_rx t pkt seen = seen @ [(t, pkt)]"

text \<open>A payload that runs past its announced total: only the buffer bound ends it.\<close>

lemma h4_feed_runaway:
  assumes "state p \<in> {H4_READ_EVENT_PAYLOAD, H4_READ_ACL_PAYLOAD, H4_READ_SCO_PAYLOAD}"
    and "length (packet p) = packet_capacity p" and "packet_len p \<le> packet_pos p"
    and "packet_pos p + length bs \<le> packet_capacity p"
  shows "\<exists>q. h4_feed p bs w = Some (q, w) \<and> state q = state p \<and>
     packet_pos q = packet_pos p + length bs \<and> packet_capacity q = packet_capacity p \<and>
     error_count q = error_count p"
  using assms
proof (induction bs arbitrary: p)
  case Nil
  then show ?case by simp
next
  case (Cons b bs)
  let ?q = "p\<lparr>packet := (packet p)[packet_pos p := b], packet_pos := packet_pos p + 1\<rparr>"
  have step: "h4_parser_feed_byte p b w = Some (True, ?q, w)"
    using Cons.prems by (auto simp: h4_parser_feed_byte_def h4_payload_byte_def)
  from Cons.IH [of ?q] Cons.prems
  obtain q where "h4_feed ?q bs w = Some (q, w)" "state q = state p"
    "packet_pos q = packet_pos p + length (b # bs)" "packet_capacity q = packet_capacity p"
    "error_count q = error_count p" by auto
  with step show ?case by auto
qed

text \<open>C8: Memory safety of the H4 parser. Started on a packet store of \<open>cap\<close> bytes
  (between 4 and 65535), the parser makes no out-of-bounds access to its header or packet
  store on any sequence of received bytes, and its positions stay inside the stores.\<close>

theorem h4_memory_safe:
  assumes "length store = cap" and "4 \<le> cap" and "cap < 65536"
  shows "\<exists>q v. h4_feed (h4_parser_init store cap cb) bs w = Some (q, v) \<and> h4_inv q"
  using h4_feed_inv [OF h4_inv_init [OF assms, of cb], of bs w] by auto

theorem h4_memory_safe_witness:
  "\<exists>q v. h4_feed (h4_parser_init (replicate 2056 0) 2056 (Some log_rx)) [4, 14, 1, 7, 9, 2] []
     = Some (q, v) \<and> h4_inv q"
  by (rule h4_memory_safe) simp_all

lemma h4_feed_frames:
  assumes "h4_inv p" and "state p = H4_WAIT_TYPE"
    and "\<forall>(t, pkt) \<in> set pkts. h4_frame t pkt \<and> length pkt \<le> packet_capacity p"
  shows "\<exists>q. h4_feed p (h4_encode_all pkts) w =
       Some (q, fold (\<lambda>(t, pkt). call_rx (callback p) t pkt) pkts w) \<and>
     h4_inv q \<and> state q = H4_WAIT_TYPE \<and> error_count q = error_count p"
  using assms
proof (induction pkts arbitrary: p w)
  case Nil
  then show ?case by (simp add: h4_encode_all_def)
next
  case (Cons x pkts)
  obtain t pkt where x: "x = (t, pkt)" by (cases x)
  have f: "h4_frame t pkt" "length pkt \<le> packet_capacity p" using Cons.prems(3) x by auto
  from h4_feed_frame [OF Cons.prems(1,2) f, of w] obtain q where
    q: "h4_feed p (h4_encode t pkt) w = Some (q, call_rx (callback p) t pkt w)"
      "h4_inv q" "state q = H4_WAIT_TYPE" "packet_capacity q = packet_capacity p"
      "callback q = callback p" "error_count q = error_count p" by blast
  from Cons.IH [OF q(2,3), of "call_rx (callback p) t pkt w"] Cons.prems(3) q x
  show ?case by (simp add: h4_encode_all_def h4_feed_append)
qed

text \<open>C7: Framing round trip. A stream of any number of well-formed event, ACL and SCO
  packets that fit the packet store, each preceded by its indicator byte, makes the parser
  call its callback once per packet, in order, with exactly the bytes of the packet; it
  ends waiting for the next indicator and counts no error.\<close>

theorem h4_stream_roundtrip:
  assumes "h4_inv p" and "state p = H4_WAIT_TYPE"
    and "\<forall>(t, pkt) \<in> set pkts. h4_frame t pkt \<and> length pkt \<le> packet_capacity p"
  shows "\<exists>q. h4_feed p (h4_encode_all pkts) w =
       Some (q, fold (\<lambda>(t, pkt). call_rx (callback p) t pkt) pkts w) \<and>
     h4_inv q \<and> state q = H4_WAIT_TYPE \<and> error_count q = error_count p"
  by (rule h4_feed_frames [OF assms])

theorem h4_stream_roundtrip_witness:
  "\<exists>q. h4_feed (h4_parser_init (replicate 16 0) 16 (Some log_rx))
       (h4_encode_all [(HCI_PKT_EVENT, [14, 1, 7]), (HCI_PKT_ACL, [1, 0, 2, 0, 5, 6])]) [] =
       Some (q, fold (\<lambda>(t, pkt). call_rx (Some log_rx) t pkt)
         [(HCI_PKT_EVENT, [14, 1, 7]), (HCI_PKT_ACL, [1, 0, 2, 0, 5, 6])] []) \<and>
     h4_inv q \<and> state q = H4_WAIT_TYPE \<and> error_count q = 0"
  using h4_stream_roundtrip [of "h4_parser_init (replicate 16 0) 16 (Some log_rx)"
      "[(HCI_PKT_EVENT, [14, 1, 7]), (HCI_PKT_ACL, [1, 0, 2, 0, 5, 6])]" "[]"]
  by (simp add: h4_inv_defs h4_parser_init_def unat_le16)

text \<open>Only well-formed packets are delivered. Whatever bytes arrive, garbage included,
  what the parser hands to its callback is a sequence of packets each of which has the
  length its own header announces and fits the packet store.\<close>

theorem h4_delivers_framed:
  assumes "length store = cap" and "4 \<le> cap" and "cap < 65536"
  shows "\<exists>q pkts. h4_feed (h4_parser_init store cap cb) bs w =
       Some (q, fold (\<lambda>(t, pkt). call_rx cb t pkt) pkts w) \<and>
     (\<forall>(t, pkt) \<in> set pkts. h4_frame t pkt \<and> length pkt \<le> cap)"
proof -
  let ?p = "h4_parser_init store cap cb"
  have inv: "h4_inv ?p" by (rule h4_inv_init [OF assms])
  have p: "state ?p = H4_WAIT_TYPE" "callback ?p = cb" "packet_capacity ?p = cap"
    by (simp_all add: h4_parser_init_def)
  obtain q v where feed: "h4_feed ?p bs w = Some (q, v)" using h4_feed_inv [OF inv] by blast
  with h4_feed_framed [OF inv h4_framed_wait [OF p(1)] feed] p show ?thesis by auto
qed

theorem h4_delivers_framed_witness:
  "\<exists>q pkts. h4_feed (h4_parser_init (replicate 16 0) 16 (Some log_rx)) [9, 9, 4, 14, 1, 7] [] =
       Some (q, fold (\<lambda>(t, pkt). call_rx (Some log_rx) t pkt) pkts []) \<and>
     (\<forall>(t, pkt) \<in> set pkts. h4_frame t pkt \<and> length pkt \<le> 16)"
  by (rule h4_delivers_framed) simp_all

text \<open>Recovery from an unknown indicator. A byte that is no indicator of a
  controller-to-host packet is counted as one error, and the byte after it is consumed
  without being looked at; then the parser waits again. Nothing is delivered.\<close>

theorem h4_unknown_indicator:
  assumes "state p = H4_WAIT_TYPE" and "b \<notin> {0x02, 0x03, 0x04}"
  shows "\<exists>q. h4_feed p [b, c] w = Some (q, w) \<and> state q = H4_WAIT_TYPE \<and>
     error_count q = error_count p + 1 \<and> callback q = callback p"
  using assms by (simp add: h4_parser_feed_byte_def h4_parser_reset_def)

theorem h4_unknown_indicator_witness:
  "\<exists>q. h4_feed (h4_parser_init (replicate 16 0) 16 (Some log_rx)) [1, 4] [] = Some (q, []) \<and>
     state q = H4_WAIT_TYPE \<and>
     error_count q = error_count (h4_parser_init (replicate 16 0) 16 (Some log_rx)) + 1 \<and>
     callback q = callback (h4_parser_init (replicate 16 0) 16 (Some log_rx))"
  by (rule h4_unknown_indicator) (simp_all add: h4_parser_init_def)

text \<open>The five bytes of an ACL indicator and header.\<close>

lemma h4_feed_Nil_bind:
  "(x \<bind> (\<lambda>(r :: bool, p, v). h4_feed p [] v)) = map_option snd x"
  by (cases x) auto

lemma h4_feed_acl_header:
  assumes "state p = H4_WAIT_TYPE" and "length (header p) = 4"
  shows "h4_feed p [0x02, a, b, lo, hi] w =
     map_option snd (h4_begin_payload
       (p\<lparr>type := HCI_PKT_ACL, header_len := 4, packet_pos := 0, packet_len := 0,
          state := H4_READ_ACL_HEADER, header := [a, b, lo, hi], header_pos := 4\<rparr>)
       H4_READ_ACL_PAYLOAD (unat (le16 lo hi)) w)"
proof -
  obtain x0 x1 x2 x3 where "header p = [x0, x1, x2, x3]"
    using assms(2) by (auto simp: length_Suc_conv numeral_eq_Suc)
  with assms(1) show ?thesis by (simp add: h4_feed_header_simps h4_feed_Nil_bind)
qed

text \<open>C33: Oversized ACL length. An ACL header whose total length exceeds the packet store
  is rejected as soon as the header is complete: one error is counted, nothing is delivered
  or stored, and the parser waits for the next indicator.\<close>

theorem h4_oversized_acl_rejected:
  assumes "h4_inv p" and "state p = H4_WAIT_TYPE"
    and "packet_capacity p < 4 + unat (le16 lo hi)" and "4 + unat (le16 lo hi) < 65536"
  shows "\<exists>q. h4_feed p [0x02, a, b, lo, hi] w = Some (q, w) \<and> state q = H4_WAIT_TYPE \<and>
     packet q = packet p \<and> error_count q = error_count p + 1"
  using assms h4_feed_acl_header [of p a b lo hi w]
  by (simp add: h4_inv_def h4_begin_payload_def h4_parser_reset_def)

theorem h4_oversized_acl_rejected_witness:
  "\<exists>q. h4_feed (h4_parser_init (replicate 16 0) 16 (Some log_rx)) [0x02, 1, 0, 13, 0] [] =
       Some (q, []) \<and> state q = H4_WAIT_TYPE \<and>
     packet q = packet (h4_parser_init (replicate 16 0) 16 (Some log_rx)) \<and>
     error_count q = error_count (h4_parser_init (replicate 16 0) 16 (Some log_rx)) + 1"
  by (rule h4_oversized_acl_rejected) (simp_all add: h4_parser_init_def h4_inv_defs unat_le16)



end
