(* ===== verification/Backend_Esp32.thy ===== *)
theory Backend_Esp32
  imports H4_Parser Fifo Platform
begin

text \<open>
  \<open>src/backend_esp32_uart.c\<close>: the HCI transport over the UART of an ESP32. The interrupt
  handler moves received bytes into a ring of 4096, dropping the newest when it is full; the
  task takes them out and feeds the H4 parser, which calls the firmware's receive callback.
  What the transport does to the hardware is a trace of operations.
\<close>

section \<open>The receive ring\<close>

abbreviation (input) UART_RX_RING_SIZE :: nat where "UART_RX_RING_SIZE \<equiv> 4096"
abbreviation (input) UART_RX_RING_MASK :: nat where "UART_RX_RING_MASK \<equiv> 4095"

record byte_ring =
  rx_ring :: bytes
  rx_head :: nat
  rx_tail :: nat

definition ring_next :: "nat \<Rightarrow> nat" where
  "ring_next i = (i + 1) AND UART_RX_RING_MASK"

lemma ring_next_mod: "ring_next i = (i + 1) mod 4096"
proof -
  have "(4095 :: nat) = mask 12" by (simp add: mask_eq_exp_minus_1)
  then show ?thesis
    unfolding ring_next_def by (simp only: take_bit_eq_mask [symmetric] take_bit_eq_mod) simp
qed

definition rx_ring_push :: "u8 \<Rightarrow> byte_ring \<Rightarrow> bool \<times> byte_ring" where
  "rx_ring_push b r =
     (let nxt = ring_next (rx_head r) in
      if nxt = rx_tail r then (False, r)
      else (True, r\<lparr>rx_ring := (rx_ring r)[rx_head r := b], rx_head := nxt\<rparr>))"

definition rx_ring_pop :: "byte_ring \<Rightarrow> (u8 \<times> byte_ring) option" where
  "rx_ring_pop r =
     (if rx_tail r \<noteq> rx_head r
      then Some (rx_ring r ! rx_tail r, r\<lparr>rx_tail := ring_next (rx_tail r)\<rparr>)
      else None)"

definition rx_contents :: "byte_ring \<Rightarrow> bytes" where
  "rx_contents r = ring_list (rx_ring r) (rx_head r) (rx_tail r)"

definition rx_ring_inv :: "byte_ring \<Rightarrow> bool" where
  "rx_ring_inv r \<longleftrightarrow> length (rx_ring r) = 4096 \<and> rx_head r < 4096 \<and> rx_tail r < 4096"

text \<open>The ring is a FIFO of bytes with 4095 places.\<close>

interpretation uart_ring: bounded_fifo rx_ring_inv rx_contents "\<lambda>_. True" 4095
  rx_ring_push rx_ring_pop
proof (unfold_locales, goal_cases)
  case (1 q)
  then show ?case using ring_len_less [of 4096 "rx_head q" "rx_tail q"]
    by (simp add: rx_ring_inv_def rx_contents_def)
next
  case (2 q x)
  then show ?case
    using ring_len_full [of "rx_head q" 4096 "rx_tail q"] ring_len_less [of 4096 "rx_head q" "rx_tail q"]
    by (auto simp: rx_ring_push_def ring_next_mod rx_ring_inv_def rx_contents_def)
next
  case (3 q x)
  then show ?case using ring_list_push [of "rx_head q" "rx_ring q" "rx_tail q" x]
    by (auto simp: rx_ring_push_def ring_next_mod rx_ring_inv_def rx_contents_def)
next
  case (4 q x)
  then show ?case by (auto simp: rx_ring_push_def ring_next_mod rx_ring_inv_def)
next
  case (5 q)
  then have "length (rx_contents q) = 0 \<longleftrightarrow> rx_head q = rx_tail q"
    using ring_len_zero [of "rx_head q" 4096 "rx_tail q"] by (simp add: rx_ring_inv_def rx_contents_def)
  then show ?case by (auto simp: rx_ring_pop_def)
next
  case (6 q x q')
  then show ?case using ring_list_pop [of "rx_head q" "rx_ring q" "rx_tail q"]
    by (auto simp: rx_ring_pop_def ring_next_mod rx_ring_inv_def rx_contents_def split: if_splits)
next
  case (7 q x q')
  then show ?case by (auto simp: rx_ring_pop_def ring_next_mod rx_ring_inv_def split: if_splits)
qed

section \<open>The transport\<close>

record 'w esp32 =
  rx :: byte_ring
  rx_overflows :: u32
  rx_cb :: "'w hci_rx_cb option"
  parser :: "'w h4_parser"

datatype esp32_op =
    Esp_uart_init nat
  | Esp_gpio_uart int
  | Esp_hw_flow bool bool
  | Esp_format_8n1
  | Esp_fifo_enabled bool
  | Esp_rx_irq
  | Esp_gpio gpio_op
  | Esp_sleep_ms nat
  | Esp_write bytes
  | Esp_tx_wait

text \<open>The static variables at boot: the zeroed parser has no store yet.\<close>

definition esp32_boot :: "'w esp32" where
  "esp32_boot =
     \<lparr>rx = \<lparr>rx_ring = replicate 4096 0, rx_head = 0, rx_tail = 0\<rparr>, rx_overflows = 0, rx_cb = None,
      parser = h4_parser_init [] 0 None\<rparr>"

text \<open>
  One interrupt: the words the UART's data register yields while it is readable;
  \<open>uart_dr_error\<close> tells whether one of its four error bits is set.
\<close>

definition esp32_irq_word :: "(u32 \<Rightarrow> bool) \<Rightarrow> u32 \<Rightarrow> 'w esp32 \<Rightarrow> 'w esp32" where
  "esp32_irq_word uart_dr_error value e =
     (if uart_dr_error value then e
      else let (ok, r) = rx_ring_push (ucast value) (rx e) in
        if ok then e\<lparr>rx := r\<rparr> else e\<lparr>rx_overflows := rx_overflows e + 1\<rparr>)"

definition esp32_uart_irq :: "(u32 \<Rightarrow> bool) \<Rightarrow> u32 list \<Rightarrow> 'w esp32 \<Rightarrow> 'w esp32" where
  "esp32_uart_irq uart_dr_error ws e = fold (esp32_irq_word uart_dr_error) ws e"

definition esp32_set_rx_callback :: "'w hci_rx_cb option \<Rightarrow> 'w esp32 \<Rightarrow> 'w esp32" where
  "esp32_set_rx_callback cb e = e\<lparr>rx_cb := cb, parser := h4_parser_set_callback (parser e) cb\<rparr>"

definition esp32_reset_controller :: "build_config \<Rightarrow> 'w esp32 \<Rightarrow> bool \<times> 'w esp32 \<times> esp32_op list" where
  "esp32_reset_controller cfg e =
     (True, e\<lparr>parser := h4_parser_reset (parser e), rx := (rx e)\<lparr>rx_head := 0, rx_tail := 0\<rparr>\<rparr>,
      if PIN_ESP32_RESET cfg \<ge> 0
      then [Esp_gpio (Gpio_init (PIN_ESP32_RESET cfg)), Esp_gpio (Gpio_set_dir (PIN_ESP32_RESET cfg) GPIO_OUT),
            Esp_gpio (Gpio_put (PIN_ESP32_RESET cfg) False), Esp_sleep_ms 100,
            Esp_gpio (Gpio_put (PIN_ESP32_RESET cfg) True), Esp_sleep_ms 700]
      else [Esp_sleep_ms 20])"

text \<open>The receive store \<open>parser_packet\<close> of \<open>HCI_ACL_MAX_LEN + 8\<close> bytes.\<close>

definition esp32_init :: "build_config \<Rightarrow> 'w esp32 \<Rightarrow> bool \<times> 'w esp32 \<times> esp32_op list" where
  "esp32_init cfg e =
     (let e = e\<lparr>parser := h4_parser_init (replicate (HCI_ACL_MAX_LEN + 8) 0) (HCI_ACL_MAX_LEN + 8) (rx_cb e)\<rparr>;
          flow = ENABLE_UART_FLOW_CONTROL cfg;
          (ok, e, ops) = esp32_reset_controller cfg e
      in (ok, e,
          [Esp_uart_init (ESP32_HCI_UART_BAUD cfg), Esp_gpio_uart (PIN_ESP32_UART_TX cfg),
           Esp_gpio_uart (PIN_ESP32_UART_RX cfg)] @
          (if flow then [Esp_gpio_uart (PIN_ESP32_UART_CTS cfg), Esp_gpio_uart (PIN_ESP32_UART_RTS cfg)]
           else []) @
          [Esp_hw_flow flow flow, Esp_format_8n1, Esp_fifo_enabled True, Esp_rx_irq] @ ops))"

definition esp32_send :: "hci_packet_type \<Rightarrow> bytes \<Rightarrow> bool \<times> esp32_op list" where
  "esp32_send t pkt =
     (True, [Esp_write [hci_packet_type_byte t]] @
        (if pkt \<noteq> [] then [Esp_write pkt] else []) @ [Esp_tx_wait])"

text \<open>
  The task. \<open>None\<close> is a run that does not end or a parser that leaves its store. The callback
  acts on the client's world only: no transport operation is called from it in this firmware.
\<close>

partial_function (option) esp32_task :: "'w esp32 \<Rightarrow> 'w \<Rightarrow> ('w esp32 \<times> 'w) option" where
  "esp32_task e w =
     (case rx_ring_pop (rx e) of
        None \<Rightarrow> Some (e, w)
      | Some (byte, r) \<Rightarrow>
          (case h4_parser_feed_byte (parser e) byte w of
             None \<Rightarrow> None
           | Some (_, p, w') \<Rightarrow> esp32_task (e\<lparr>rx := r, parser := p\<rparr>) w'))"

section \<open>Receiving\<close>

definition esp32_inv :: "'w esp32 \<Rightarrow> bool" where
  "esp32_inv e \<longleftrightarrow> rx_ring_inv (rx e) \<and> h4_inv (parser e) \<and>
     packet_capacity (parser e) = 2056 \<and> callback (parser e) = rx_cb e"

lemma esp32_boot_ring [simp]: "rx_ring_inv (rx esp32_boot)" "rx_contents (rx esp32_boot) = []"
  by (simp_all add: esp32_boot_def rx_ring_inv_def rx_contents_def)

lemma esp32_init_inv:
  "rx_ring_inv (rx e) \<Longrightarrow> esp32_init cfg e = (ok, e', ops) \<Longrightarrow>
   ok \<and> esp32_inv e' \<and> rx_contents (rx e') = [] \<and> state (parser e') = H4_WAIT_TYPE \<and> rx_cb e' = rx_cb e"
  by (auto simp: esp32_init_def esp32_reset_controller_def esp32_inv_def rx_ring_inv_def rx_contents_def
      h4_inv_defs h4_parser_init_def h4_parser_reset_def)

text \<open>The task feeds the parser everything that is in the ring, in order, and empties it.\<close>

lemma esp32_task_feeds:
  assumes "esp32_inv e"
  shows "\<exists>p w'. h4_feed (parser e) (rx_contents (rx e)) w = Some (p, w') \<and>
    (\<exists>r. esp32_task e w = Some (e\<lparr>rx := r, parser := p\<rparr>, w') \<and>
         rx_contents r = [] \<and> esp32_inv (e\<lparr>rx := r, parser := p\<rparr>))"
  using assms
proof (induction "rx_contents (rx e)" arbitrary: e w)
  case Nil
  then have "rx_ring_pop (rx e) = None"
    using uart_ring.pop_empty [of "rx e"] by (simp add: esp32_inv_def)
  then have "esp32_task e w = Some (e\<lparr>rx := rx e, parser := parser e\<rparr>, w)"
    by (subst esp32_task.simps) simp
  with Nil show ?case by (metis esp32.surjective esp32.update_convs(1,4) h4_feed.simps(1))
next
  case (Cons b bs)
  then have inv: "rx_ring_inv (rx e)" "h4_inv (parser e)" by (simp_all add: esp32_inv_def)
  obtain x r where pop: "rx_ring_pop (rx e) = Some (x, r)"
    using uart_ring.pop_empty [OF inv(1)] Cons.hyps(2) by fastforce
  with uart_ring.pop_contents [OF inv(1) pop] Cons.hyps(2) have x: "x = b" "rx_contents r = bs" by simp_all
  from h4_feed_byte_ok [OF inv(2), of b w] obtain ok p w1 where
    f: "h4_parser_feed_byte (parser e) b w = Some (ok, p, w1)" and p: "h4_inv p"
      "packet_capacity p = packet_capacity (parser e)" "callback p = callback (parser e)"
    by (auto simp: h4_step_ok_def split: option.splits)
  let ?e = "e\<lparr>rx := r, parser := p\<rparr>"
  have inv': "esp32_inv ?e"
    using Cons.prems p uart_ring.pop_inv [OF inv(1) pop] by (simp add: esp32_inv_def)
  have step: "esp32_task e w = esp32_task ?e w1"
    using pop f x by (subst esp32_task.simps) simp
  from Cons.hyps(1) [of ?e, OF _ inv', of w1] x(2) obtain q w2 r2 where
    "h4_feed p bs w1 = Some (q, w2)" "esp32_task ?e w1 = Some (?e\<lparr>rx := r2, parser := q\<rparr>, w2)"
    "rx_contents r2 = []" "esp32_inv (?e\<lparr>rx := r2, parser := q\<rparr>)"
    by auto
  with f step Cons.hyps(2) show ?case
    by (auto simp flip: Cons.hyps(2))
qed

text \<open>The bytes of the words that carry no error.\<close>

definition good_bytes :: "(u32 \<Rightarrow> bool) \<Rightarrow> u32 list \<Rightarrow> bytes" where
  "good_bytes uart_dr_error ws = map ucast (filter (\<lambda>v. \<not> uart_dr_error v) ws)"

lemma good_bytes_simps [simp]:
  "good_bytes err [] = []"
  "good_bytes err (v # vs) = (if err v then [] else [ucast v]) @ good_bytes err vs"
  by (simp_all add: good_bytes_def)

lemma esp32_uart_irq_simps [simp]:
  "esp32_uart_irq err [] e = e"
  "esp32_uart_irq err (v # vs) e = esp32_uart_irq err vs (esp32_irq_word err v e)"
  by (simp_all add: esp32_uart_irq_def)

text \<open>An interrupt keeps what fits, in order, counts what does not, and leaves the rest.\<close>

lemma esp32_irq_ring:
  assumes "rx_ring_inv (rx e)"
  shows "rx_ring_inv (rx (esp32_uart_irq err ws e)) \<and>
    rx_contents (rx (esp32_uart_irq err ws e)) =
      rx_contents (rx e) @ take (4095 - length (rx_contents (rx e))) (good_bytes err ws) \<and>
    rx_overflows (esp32_uart_irq err ws e) =
      rx_overflows e + of_nat (length (good_bytes err ws) - (4095 - length (rx_contents (rx e)))) \<and>
    parser (esp32_uart_irq err ws e) = parser e \<and> rx_cb (esp32_uart_irq err ws e) = rx_cb e"
  using assms
proof (induction ws arbitrary: e)
  case Nil
  then show ?case by simp
next
  case (Cons v vs)
  let ?n = "length (rx_contents (rx e))"
  show ?case
  proof (cases "err v")
    case True
    then show ?thesis using Cons by (simp add: esp32_irq_word_def)
  next
    case False
    obtain ok r where p: "rx_ring_push (ucast v) (rx e) = (ok, r)"
      by (cases "rx_ring_push (ucast v) (rx e)")
    have ok: "ok \<longleftrightarrow> ?n < 4095" and c: "rx_contents r = rx_contents (rx e) @ (if ok then [ucast v] else [])"
      and ri: "rx_ring_inv r"
      using uart_ring.push_flag [OF Cons.prems, of "ucast v"] uart_ring.push_contents [OF Cons.prems, of "ucast v"]
        uart_ring.push_inv [OF Cons.prems, of "ucast v"] p by simp_all
    show ?thesis
    proof (cases ok)
      case True
      have w: "esp32_irq_word err v e = e\<lparr>rx := r\<rparr>" using False p True by (simp add: esp32_irq_word_def)
      have m: "4095 - ?n = Suc (4095 - (?n + 1))" using ok True by simp
      show ?thesis
        using Cons.IH [of "e\<lparr>rx := r\<rparr>"] ri c True False m by (simp add: w)
    next
      case full: False
      have w: "esp32_irq_word err v e = e\<lparr>rx_overflows := rx_overflows e + 1\<rparr>"
        using False p full by (simp add: esp32_irq_word_def)
      have m: "4095 - ?n = 0" using ok full by simp
      show ?thesis
        using Cons.IH [of "e\<lparr>rx_overflows := rx_overflows e + 1\<rparr>"] Cons.prems m False by (simp add: w)
    qed
  qed
qed

text \<open>Rounds of the main loop: interrupts bring some words, then the task runs.\<close>

fun esp32_rounds :: "(u32 \<Rightarrow> bool) \<Rightarrow> u32 list list \<Rightarrow> 'w esp32 \<Rightarrow> 'w \<Rightarrow> ('w esp32 \<times> 'w) option" where
  "esp32_rounds err [] e w = Some (e, w)"
| "esp32_rounds err (vs # rounds) e w =
     (case esp32_task (esp32_uart_irq err vs e) w of
        None \<Rightarrow> None | Some (e', w') \<Rightarrow> esp32_rounds err rounds e' w')"

lemma esp32_rounds_feed:
  assumes "esp32_inv e" "rx_contents (rx e) = []"
    and "\<forall>vs \<in> set rounds. length (good_bytes err vs) \<le> 4095"
  shows "\<exists>p w' e'. h4_feed (parser e) (concat (map (good_bytes err) rounds)) w = Some (p, w') \<and>
    esp32_rounds err rounds e w = Some (e', w') \<and> parser e' = p \<and> rx_overflows e' = rx_overflows e \<and>
    esp32_inv e' \<and> rx_contents (rx e') = []"
  using assms
proof (induction rounds arbitrary: e w)
  case Nil
  then show ?case by simp
next
  case (Cons vs rounds)
  let ?e = "esp32_uart_irq err vs e"
  have ri: "rx_ring_inv (rx e)" using Cons.prems(1) by (simp add: esp32_inv_def)
  have irq: "rx_ring_inv (rx ?e)" "rx_contents (rx ?e) = good_bytes err vs"
      "rx_overflows ?e = rx_overflows e" "parser ?e = parser e" "rx_cb ?e = rx_cb e"
    using esp32_irq_ring [OF ri, of err vs] Cons.prems(2,3) by simp_all
  then have inv: "esp32_inv ?e" using Cons.prems(1) by (simp add: esp32_inv_def)
  from esp32_task_feeds [OF inv, of w] obtain p w1 r where
    f: "h4_feed (parser e) (good_bytes err vs) w = Some (p, w1)"
    and t: "esp32_task ?e w = Some (?e\<lparr>rx := r, parser := p\<rparr>, w1)"
    and r: "rx_contents r = []" "esp32_inv (?e\<lparr>rx := r, parser := p\<rparr>)"
    by (auto simp: irq)
  from Cons.IH [OF r(2), of w1] r(1) Cons.prems(3) obtain q w2 e2 where
    "h4_feed p (concat (map (good_bytes err) rounds)) w1 = Some (q, w2)"
    "esp32_rounds err rounds (?e\<lparr>rx := r, parser := p\<rparr>) w1 = Some (e2, w2)"
    "parser e2 = q" "rx_overflows e2 = rx_overflows e" "esp32_inv e2" "rx_contents (rx e2) = []"
    by (auto simp: irq)
  with f t show ?case by (simp add: h4_feed_append)
qed

section \<open>Properties\<close>

text \<open>The bytes an operation trace puts on the wire.\<close>

fun wire_bytes :: "esp32_op list \<Rightarrow> bytes" where
  "wire_bytes [] = []"
| "wire_bytes (Esp_write bs # ops) = bs @ wire_bytes ops"
| "wire_bytes (_ # ops) = wire_bytes ops"

lemma esp32_send_wire: "wire_bytes (snd (esp32_send t pkt)) = h4_encode t pkt"
  by (simp add: esp32_send_def h4_encode_def)

text \<open>
  C15: What one transport sends, another receives. When the words that arrive without a line
  error are the bytes one side's sends wrote for any list of well-formed event, ACL and SCO
  packets, cut anyhow into rounds of at most 4095, the receiving side calls its callback once
  per packet, in order, with exactly the packets, and counts no overflow.
\<close>

theorem esp32_send_receive:
  assumes "rx_ring_inv (rx e0)" "esp32_init cfg e0 = (ok, e, ops)"
    and "\<forall>(t, pkt) \<in> set pkts. h4_frame t pkt \<and> length pkt \<le> 2056"
    and "concat (map (good_bytes err) rounds) =
           concat (map (\<lambda>(t, pkt). wire_bytes (snd (esp32_send t pkt))) pkts)"
    and "\<forall>vs \<in> set rounds. length (good_bytes err vs) \<le> 4095"
  shows "\<exists>e'. esp32_rounds err rounds e w =
      Some (e', fold (\<lambda>(t, pkt). call_rx (rx_cb e0) t pkt) pkts w) \<and>
    rx_overflows e' = rx_overflows e"
proof -
  from esp32_init_inv [OF assms(1,2)] have e: "esp32_inv e" "rx_contents (rx e) = []"
    "state (parser e) = H4_WAIT_TYPE" "rx_cb e = rx_cb e0" by simp_all
  have cb: "callback (parser e) = rx_cb e0" "packet_capacity (parser e) = 2056" "h4_inv (parser e)"
    using e by (simp_all add: esp32_inv_def)
  have "concat (map (\<lambda>(t, pkt). wire_bytes (snd (esp32_send t pkt))) pkts) = h4_encode_all pkts"
    by (simp add: h4_encode_all_def esp32_send_wire)
  then have bytes: "concat (map (good_bytes err) rounds) = h4_encode_all pkts" using assms(4) by simp
  have fr: "\<forall>(t, pkt) \<in> set pkts. h4_frame t pkt \<and> length pkt \<le> packet_capacity (parser e)"
    using assms(3) cb by simp
  obtain q where "h4_feed (parser e) (h4_encode_all pkts) w =
      Some (q, fold (\<lambda>(t, pkt). call_rx (rx_cb e0) t pkt) pkts w)"
    using h4_feed_frames [OF cb(3) e(3) fr, of w] by (auto simp: cb)
  with esp32_rounds_feed [OF e(1,2) assms(5), of w] bytes show ?thesis by auto
qed

theorem esp32_send_receive_witness:
  "\<exists>e'. esp32_rounds (\<lambda>v. v AND 0xf00 \<noteq> 0) [[0x4, 0x80e], [0x10e, 0xe, 0x1], [0x7]]
      (fst (snd (esp32_init default_config (esp32_set_rx_callback (Some log_rx) esp32_boot)))) [] =
    Some (e', [(HCI_PKT_EVENT, [14, 1, 7])])"
proof -
  let ?e0 = "esp32_set_rx_callback (Some log_rx) esp32_boot :: (hci_packet_type \<times> bytes) list esp32"
  let ?err = "\<lambda>v :: u32. v AND 0xf00 \<noteq> 0"
  let ?rounds = "[[0x4, 0x80e], [0x10e, 0xe, 0x1], [0x7]] :: u32 list list"
  let ?pkts = "[(HCI_PKT_EVENT, [14, 1, 7])]"
  obtain ok e ops where i: "esp32_init default_config ?e0 = (ok, e, ops)" by (metis prod_cases3)
  have ri: "rx_ring_inv (rx ?e0)" and cb: "rx_cb ?e0 = Some log_rx"
    using esp32_boot_ring(1) by (simp_all add: esp32_set_rx_callback_def)
  have good: "map (good_bytes ?err) ?rounds = [[4], [14, 1], [7]]" by simp
  have len: "\<forall>vs \<in> set ?rounds. length (good_bytes ?err vs) \<le> 4095" by simp
  have bytes: "concat (map (good_bytes ?err) ?rounds) =
      concat (map (\<lambda>(t, pkt). wire_bytes (snd (esp32_send t pkt))) ?pkts)"
    unfolding good by (simp add: esp32_send_def)
  have "\<exists>e'. esp32_rounds ?err ?rounds e [] = Some (e', [(HCI_PKT_EVENT, [14, 1, 7])])"
    using esp32_send_receive [OF ri i _ bytes len, of "[]"] by (auto simp: cb log_rx_def)
  then show ?thesis unfolding i by simp
qed

text \<open>
  An interrupt never overwrites a byte waiting in the ring: it appends the bytes that
  arrive without a line error, in order, as far as they fit its 4095 places, counts every one
  that does not fit, and ignores words with an error.
\<close>

theorem esp32_uart_irq_keeps_order:
  assumes "rx_ring_inv (rx e)"
  shows "rx_contents (rx (esp32_uart_irq err ws e)) =
      rx_contents (rx e) @ take (4095 - length (rx_contents (rx e))) (good_bytes err ws) \<and>
    rx_overflows (esp32_uart_irq err ws e) =
      rx_overflows e + of_nat (length (good_bytes err ws) - (4095 - length (rx_contents (rx e))))"
  using esp32_irq_ring [OF assms, of err ws] by simp

theorem esp32_uart_irq_keeps_order_witness:
  "rx_contents (rx (esp32_uart_irq (\<lambda>v. v AND 0xf00 \<noteq> 0) [0x4, 0x80e, 0xe] (esp32_boot :: nat esp32))) = [4, 14]"
  using esp32_uart_irq_keeps_order [of "esp32_boot :: nat esp32" "\<lambda>v. v AND 0xf00 \<noteq> 0" "[0x4, 0x80e, 0xe]"]
  by simp

end
