(* ===== verification/Backend_Cyw43.thy ===== *)
theory Backend_Cyw43
  imports Platform
begin

text \<open>
  \<open>src/backend_cyw43.c\<close>: the HCI transport to the CYW43 chip of the Pico 2 W. The SDK's driver
  moves whole frames, each the HCI packet behind a header of four bytes whose last is the
  packet indicator; the driver is a parameter acting on an opaque world. The receive callback
  acts on the state \<open>'s\<close> of the rest of the firmware, and no driver call is made from it.
\<close>

section \<open>The driver\<close>

text \<open>
  \<open>cyw43_bluetooth_hci_read max\<close> gives an error code and the \<open>len\<close> bytes it put into the
  buffer; errors are codes other than 0.
\<close>

record 'w cyw43_driver =
  cyw43_arch_init :: "'w \<Rightarrow> int \<times> 'w"
  cyw43_bluetooth_hci_init :: "'w \<Rightarrow> int \<times> 'w"
  cyw43_bluetooth_hci_read :: "nat \<Rightarrow> 'w \<Rightarrow> int \<times> bytes \<times> 'w"
  cyw43_bluetooth_hci_write :: "bytes \<Rightarrow> 'w \<Rightarrow> int \<times> 'w"
  cyw43_arch_lwip_begin :: "'w \<Rightarrow> 'w"
  cyw43_arch_lwip_end :: "'w \<Rightarrow> 'w"
  cyw43_hal_get_mac :: "'w \<Rightarrow> bytes \<times> 'w"
  cyw43_sleep_ms :: "nat \<Rightarrow> 'w \<Rightarrow> 'w"
  cyw43_now :: "'w \<Rightarrow> nat"

abbreviation (input) CYW43_HCI_HEADER_SIZE :: nat where "CYW43_HCI_HEADER_SIZE \<equiv> 4"
abbreviation (input) CYW43_HCI_RX_BUF_SIZE :: nat where "CYW43_HCI_RX_BUF_SIZE \<equiv> 4 + HCI_ACL_MAX_LEN + 8"
abbreviation (input) CYW43_LOCAL_INIT_TIMEOUT_MS :: nat where "CYW43_LOCAL_INIT_TIMEOUT_MS \<equiv> 500"
abbreviation (input) CYW43_MAX_RX_PACKETS_PER_TASK :: nat where "CYW43_MAX_RX_PACKETS_PER_TASK \<equiv> 8"

definition HCI_OPCODE_BCM_SET_BD_ADDR :: u16 where
  "HCI_OPCODE_BCM_SET_BD_ADDR = HCI_OPCODE 0x3f 0x0001"

section \<open>State and operations\<close>

record 's cyw43_backend =
  cyw43_rx_cb :: "'s hci_rx_cb option"
  arch_ready :: bool

definition cyw43_boot :: "'s cyw43_backend" where
  "cyw43_boot = \<lparr>cyw43_rx_cb = None, arch_ready = False\<rparr>"

definition cyw43_backend_set_rx_callback :: "'s hci_rx_cb option \<Rightarrow> 's cyw43_backend \<Rightarrow> 's cyw43_backend" where
  "cyw43_backend_set_rx_callback cb b = b\<lparr>cyw43_rx_cb := cb\<rparr>"

definition cyw43_backend_send ::
    "'w cyw43_driver \<Rightarrow> hci_packet_type \<Rightarrow> bytes \<Rightarrow> 'w \<Rightarrow> bool \<times> 'w" where
  "cyw43_backend_send drv t packet w =
     (if length packet + CYW43_HCI_HEADER_SIZE > CYW43_HCI_RX_BUF_SIZE then (False, w)
      else let w = cyw43_arch_lwip_begin drv w;
               (err, w) = cyw43_bluetooth_hci_write drv ([0, 0, 0, hci_packet_type_byte t] @ packet) w;
               w = cyw43_arch_lwip_end drv w
           in (err = 0, w))"

text \<open>One frame read while waiting: the status of the completion it carries, if any.\<close>

definition cyw43_completion :: "u16 \<Rightarrow> bytes \<Rightarrow> u8 option" where
  "cyw43_completion opcode frame =
     (if length frame < CYW43_HCI_HEADER_SIZE + 2 then None
      else let t = hci_packet_type_of (frame ! 3); packet = drop CYW43_HCI_HEADER_SIZE frame in
        if t \<noteq> HCI_PKT_EVENT \<or> length packet < 2 then None
        else if packet ! 0 = HCI_EVENT_COMMAND_COMPLETE \<and> length packet \<ge> 6 \<and>
                le16 (packet ! 3) (packet ! 4) = opcode
        then Some (packet ! 5) else None)"

text \<open>The waiting loop; \<open>None\<close> is a loop that does not end.\<close>

partial_function (option) cyw43_backend_wait ::
    "'t pico_clock \<Rightarrow> 'w cyw43_driver \<Rightarrow> u16 \<Rightarrow> 't \<Rightarrow> 'w \<Rightarrow> (bool \<times> 'w) option" where
  "cyw43_backend_wait ck drv opcode deadline w =
     (if sdk_time_reached ck (cyw43_now drv w) deadline then Some (False, w)
      else case cyw43_bluetooth_hci_read drv CYW43_HCI_RX_BUF_SIZE w of (err, frame, w') \<Rightarrow>
        if err \<noteq> 0 \<or> frame = []
        then cyw43_backend_wait ck drv opcode deadline (cyw43_sleep_ms drv 1 w')
        else case cyw43_completion opcode frame of
            Some status \<Rightarrow> Some (status = 0, w')
          | None \<Rightarrow> cyw43_backend_wait ck drv opcode deadline w')"

definition cyw43_backend_wait_command_complete ::
    "'t pico_clock \<Rightarrow> 'w cyw43_driver \<Rightarrow> u16 \<Rightarrow> nat \<Rightarrow> 'w \<Rightarrow> (bool \<times> 'w) option" where
  "cyw43_backend_wait_command_complete ck drv opcode timeout_ms w =
     cyw43_backend_wait ck drv opcode (sdk_make_timeout_time_ms ck (cyw43_now drv w) timeout_ms) w"

definition cyw43_backend_send_command_sync ::
    "'t pico_clock \<Rightarrow> 'w cyw43_driver \<Rightarrow> bytes \<Rightarrow> u16 \<Rightarrow> 'w \<Rightarrow> (bool \<times> 'w) option" where
  "cyw43_backend_send_command_sync ck drv command opcode w =
     (case cyw43_backend_send drv HCI_PKT_COMMAND command w of (ok, w) \<Rightarrow>
        if \<not> ok then Some (False, w)
        else cyw43_backend_wait_command_complete ck drv opcode CYW43_LOCAL_INIT_TIMEOUT_MS w)"

definition hci_reset_command :: bytes where
  "hci_reset_command = [lo8 HCI_OPCODE_RESET, hi8 HCI_OPCODE_RESET, 0x00]"

definition cyw43_backend_reset_controller ::
    "'t pico_clock \<Rightarrow> 'w cyw43_driver \<Rightarrow> 'w \<Rightarrow> (bool \<times> 'w) option" where
  "cyw43_backend_reset_controller ck drv w =
     cyw43_backend_send_command_sync ck drv hci_reset_command HCI_OPCODE_RESET w"

definition set_bd_addr_command :: "bytes \<Rightarrow> bytes" where
  "set_bd_addr_command addr =
     [lo8 HCI_OPCODE_BCM_SET_BD_ADDR, hi8 HCI_OPCODE_BCM_SET_BD_ADDR, 0x06,
      addr ! 5, addr ! 4, addr ! 3, addr ! 2, addr ! 1, addr ! 0]"

definition cyw43_backend_local_init ::
    "'t pico_clock \<Rightarrow> 'w cyw43_driver \<Rightarrow> 'w \<Rightarrow> 'w option" where
  "cyw43_backend_local_init ck drv w =
     (case cyw43_hal_get_mac drv w of (mac, w) \<Rightarrow>
        let addr = mac[5 := mac ! 5 + 1] in do {
          (ok, w) \<leftarrow> cyw43_backend_send_command_sync ck drv hci_reset_command HCI_OPCODE_RESET w;
          if \<not> ok then Some w
          else map_option snd
            (cyw43_backend_send_command_sync ck drv (set_bd_addr_command addr) HCI_OPCODE_BCM_SET_BD_ADDR w)
        })"

definition cyw43_backend_init ::
    "'t pico_clock \<Rightarrow> 'w cyw43_driver \<Rightarrow> 's cyw43_backend \<Rightarrow> 'w
       \<Rightarrow> (bool \<times> 's cyw43_backend \<times> 'w) option" where
  "cyw43_backend_init ck drv b w =
     (let (err, b, w) =
        (if \<not> arch_ready b
         then let (err, w) = cyw43_arch_init drv w
              in (err, if err = 0 then b\<lparr>arch_ready := True\<rparr> else b, w)
         else (0, b, w))
      in if err \<noteq> 0 then Some (False, b, w)
         else let (err, w) = cyw43_bluetooth_hci_init drv w
              in if err \<noteq> 0 then Some (False, b, w)
                 else map_option (\<lambda>w. (True, b, w)) (cyw43_backend_local_init ck drv w))"

text \<open>The \<open>do\<close> loop of the task, with the number of packets read so far.\<close>

function cyw43_task_loop ::
    "'w cyw43_driver \<Rightarrow> 's hci_rx_cb option \<Rightarrow> nat \<Rightarrow> 's \<times> 'w \<Rightarrow> 's \<times> 'w" where
  "cyw43_task_loop drv cb packets_read (s, w) =
     (case cyw43_bluetooth_hci_read drv CYW43_HCI_RX_BUF_SIZE w of (err, frame, w') \<Rightarrow>
        if err \<noteq> 0 \<or> frame = [] then (s, w')
        else if length frame < CYW43_HCI_HEADER_SIZE then (s, w')
        else
          let s' = call_rx cb (hci_packet_type_of (frame ! 3)) (drop CYW43_HCI_HEADER_SIZE frame) s;
              packets_read = packets_read + 1
          in if packets_read < CYW43_MAX_RX_PACKETS_PER_TASK
             then cyw43_task_loop drv cb packets_read (s', w') else (s', w'))"
  by pat_completeness auto
termination by (relation "measure (\<lambda>(_, _, k, _). 8 - k)") auto

definition cyw43_backend_task :: "'w cyw43_driver \<Rightarrow> 's cyw43_backend \<Rightarrow> 's \<times> 'w \<Rightarrow> 's \<times> 'w" where
  "cyw43_backend_task drv b sw =
     (if \<not> arch_ready b then sw else cyw43_task_loop drv (cyw43_rx_cb b) 0 sw)"

declare cyw43_task_loop.simps [simp del]

section \<open>The contract of the driver\<close>

text \<open>
  \<open>reads w\<close> lists what every read so far gave, \<open>None\<close> for an error or nothing, and \<open>writes w\<close>
  the frames accepted. A read gives at most the size of the buffer and takes time; the other
  calls neither read nor write, and the timer does not go back.
\<close>

definition read_result :: "int \<times> bytes \<times> 'w \<Rightarrow> bytes option" where
  "read_result r = (if fst r = 0 \<and> fst (snd r) \<noteq> [] then Some (fst (snd r)) else None)"

definition cyw43_driver_ok ::
    "'w cyw43_driver \<Rightarrow> ('w \<Rightarrow> bytes option list) \<Rightarrow> ('w \<Rightarrow> bytes list) \<Rightarrow> bool" where
  "cyw43_driver_ok drv reads writes \<longleftrightarrow>
     (\<forall>w mx. let r = cyw43_bluetooth_hci_read drv mx w; w' = snd (snd r) in
        length (fst (snd r)) \<le> mx \<and> reads w' = reads w @ [read_result r] \<and> writes w' = writes w \<and>
        cyw43_now drv w < cyw43_now drv w') \<and>
     (\<forall>w frame. let r = cyw43_bluetooth_hci_write drv frame w; w' = snd r in
        writes w' = writes w @ (if fst r = 0 then [frame] else []) \<and> reads w' = reads w \<and>
        cyw43_now drv w \<le> cyw43_now drv w') \<and>
     (\<forall>w w'. w' \<in> {cyw43_arch_lwip_begin drv w, cyw43_arch_lwip_end drv w, snd (cyw43_hal_get_mac drv w)} \<union>
        {cyw43_sleep_ms drv ms w | ms. True} \<longrightarrow>
        reads w' = reads w \<and> writes w' = writes w \<and> cyw43_now drv w \<le> cyw43_now drv w')"

lemma driver_read:
  assumes "cyw43_driver_ok drv reads writes" "cyw43_bluetooth_hci_read drv mx w = (err, frame, w')"
  shows "reads w' = reads w @ [if err = 0 \<and> frame \<noteq> [] then Some frame else None]"
    "writes w' = writes w" "cyw43_now drv w < cyw43_now drv w'" "length frame \<le> mx"
proof -
  have "let r = cyw43_bluetooth_hci_read drv mx w; w' = snd (snd r) in
        length (fst (snd r)) \<le> mx \<and> reads w' = reads w @ [read_result r] \<and> writes w' = writes w \<and>
        cyw43_now drv w < cyw43_now drv w'"
    using assms(1) unfolding cyw43_driver_ok_def by blast
  then show "reads w' = reads w @ [if err = 0 \<and> frame \<noteq> [] then Some frame else None]"
    "writes w' = writes w" "cyw43_now drv w < cyw43_now drv w'" "length frame \<le> mx"
    by (simp_all add: assms(2) read_result_def)
qed

lemma driver_write:
  assumes "cyw43_driver_ok drv reads writes" "cyw43_bluetooth_hci_write drv frame w = (err, w')"
  shows "writes w' = writes w @ (if err = 0 then [frame] else [])" "reads w' = reads w"
    "cyw43_now drv w \<le> cyw43_now drv w'"
proof -
  have "let r = cyw43_bluetooth_hci_write drv frame w; w' = snd r in
        writes w' = writes w @ (if fst r = 0 then [frame] else []) \<and> reads w' = reads w \<and>
        cyw43_now drv w \<le> cyw43_now drv w'"
    using assms(1) unfolding cyw43_driver_ok_def by blast
  then show "writes w' = writes w @ (if err = 0 then [frame] else [])" "reads w' = reads w"
    "cyw43_now drv w \<le> cyw43_now drv w'"
    by (simp_all add: assms(2))
qed

lemma driver_quiet:
  assumes "cyw43_driver_ok drv reads writes"
    and "w' \<in> {cyw43_arch_lwip_begin drv w, cyw43_arch_lwip_end drv w, snd (cyw43_hal_get_mac drv w)} \<union>
        {cyw43_sleep_ms drv ms w | ms. True}"
  shows "reads w' = reads w" "writes w' = writes w" "cyw43_now drv w \<le> cyw43_now drv w'"
  using assms unfolding cyw43_driver_ok_def by blast+

section \<open>Reading\<close>

text \<open>What the task makes of the reads: frames of at least a header, then at most one read
  that is no such frame.\<close>

definition frame_ok :: "bytes option \<Rightarrow> bool" where
  "frame_ok r = (case r of Some f \<Rightarrow> 4 \<le> length f | None \<Rightarrow> False)"

definition deliver_frame :: "'s hci_rx_cb option \<Rightarrow> bytes \<Rightarrow> 's \<Rightarrow> 's" where
  "deliver_frame cb f s = call_rx cb (hci_packet_type_of (f ! 3)) (drop 4 f) s"

lemma cyw43_task_loop_reads:
  assumes ok: "cyw43_driver_ok drv reads writes"
  shows "k < 8 \<Longrightarrow> \<exists>fs rest s' w'. cyw43_task_loop drv cb k (s, w) = (fold (deliver_frame cb) fs s, w') \<and>
    reads w' = reads w @ map Some fs @ rest \<and> writes w' = writes w \<and> (\<forall>f \<in> set fs. 4 \<le> length f) \<and>
    (if k + length fs < 8 then \<exists>r. rest = [r] \<and> \<not> frame_ok r else k + length fs = 8 \<and> rest = [])"
proof (induction "8 - k" arbitrary: k s w)
  case 0
  then show ?case by simp
next
  case (Suc d)
  obtain err frame w1 where r: "cyw43_bluetooth_hci_read drv 2060 w = (err, frame, w1)" by (metis prod_cases3)
  note dr = driver_read [OF ok r]
  show ?case
  proof (cases "err \<noteq> 0 \<or> length frame < 4")
    case True
    then have "cyw43_task_loop drv cb k (s, w) = (s, w1)"
      by (subst cyw43_task_loop.simps) (auto simp: r)
    moreover have "\<not> frame_ok (if err = 0 \<and> frame \<noteq> [] then Some frame else None)"
      using True by (auto simp: frame_ok_def)
    ultimately show ?thesis
      using dr Suc.prems
      by (intro exI [of _ "[]"] exI [of _ "[if err = 0 \<and> frame \<noteq> [] then Some frame else None]"]
            exI [of _ s] exI [of _ w1]) (simp del: split_paired_All)
  next
    case False
    let ?s = "deliver_frame cb frame s"
    have f: "err = 0" "frame \<noteq> []" "4 \<le> length frame" using False by auto
    have step: "cyw43_task_loop drv cb k (s, w) =
        (if k + 1 < 8 then cyw43_task_loop drv cb (k + 1) (?s, w1) else (?s, w1))"
      using f by (subst cyw43_task_loop.simps) (simp add: r deliver_frame_def)
    show ?thesis
    proof (cases "k + 1 < 8")
      case True
      have d: "d = 8 - (k + 1)" using Suc.hyps(2) by simp
      from Suc.hyps(1) [OF d True, of ?s w1] obtain fs rest w' where
        "cyw43_task_loop drv cb (k + 1) (?s, w1) = (fold (deliver_frame cb) fs ?s, w')"
        "reads w' = reads w1 @ map Some fs @ rest" "writes w' = writes w1" "\<forall>f \<in> set fs. 4 \<le> length f"
        "if k + 1 + length fs < 8 then \<exists>r. rest = [r] \<and> \<not> frame_ok r else k + 1 + length fs = 8 \<and> rest = []"
        by blast
      then show ?thesis
        using step True dr f by (intro exI [of _ "frame # fs"] exI [of _ rest]) (auto split: if_splits)
    next
      case False
      then have "k = 7" using Suc.prems by simp
      then show ?thesis
        using step dr f by (intro exI [of _ "[frame]"] exI [of _ "[]"]) auto
    qed
  qed
qed

text \<open>
  C12: One task takes frames from the driver until a read gives no frame of at least a header,
  eight at the most, and hands exactly these to the callback, in order, each as the packet
  behind its header with the type its header names; it writes nothing.
\<close>

theorem cyw43_backend_task_delivers:
  assumes "cyw43_driver_ok drv reads writes" "arch_ready b"
  shows "\<exists>fs rest w'. cyw43_backend_task drv b (s, w) = (fold (deliver_frame (cyw43_rx_cb b)) fs s, w') \<and>
    reads w' = reads w @ map Some fs @ rest \<and> writes w' = writes w \<and> (\<forall>f \<in> set fs. 4 \<le> length f) \<and>
    (if length fs < 8 then \<exists>r. rest = [r] \<and> \<not> frame_ok r else length fs = 8 \<and> rest = [])"
proof -
  have "cyw43_backend_task drv b (s, w) = cyw43_task_loop drv (cyw43_rx_cb b) 0 (s, w)"
    using assms(2) by (simp add: cyw43_backend_task_def)
  then show ?thesis
    using cyw43_task_loop_reads [OF assms(1), of 0 "cyw43_rx_cb b" s w] by (simp only: add_0) simp
qed

text \<open>A driver for the witnesses: the world is the timer, the frames to be read, the reads and the
  writes; every write is accepted.\<close>

type_synonym frame_world = "nat \<times> bytes list \<times> bytes option list \<times> bytes list"

definition frame_driver :: "frame_world cyw43_driver" where
  "frame_driver =
     \<lparr>cyw43_arch_init = (\<lambda>w. (0, w)), cyw43_bluetooth_hci_init = (\<lambda>w. (0, w)),
      cyw43_bluetooth_hci_read = (\<lambda>mx (n, fs, rs, ws).
        case fs of f # fs' \<Rightarrow>
          if f \<noteq> [] \<and> length f \<le> mx then (0, f, n + 1, fs', rs @ [Some f], ws)
          else (- 1, [], n + 1, fs', rs @ [None], ws)
        | [] \<Rightarrow> (0, [], n + 1, [], rs @ [None], ws)),
      cyw43_bluetooth_hci_write = (\<lambda>f (n, fs, rs, ws). (0, n, fs, rs, ws @ [f])),
      cyw43_arch_lwip_begin = id, cyw43_arch_lwip_end = id,
      cyw43_hal_get_mac = (\<lambda>w. ([1, 2, 3, 4, 5, 255], w)),
      cyw43_sleep_ms = (\<lambda>ms (n, w). (n + 1000 * ms, w)), cyw43_now = fst\<rparr>"

lemma frame_driver_ok:
  "cyw43_driver_ok frame_driver (\<lambda>(n, fs, rs, ws). rs) (\<lambda>(n, fs, rs, ws). ws)"
  by (auto simp: cyw43_driver_ok_def frame_driver_def read_result_def split: list.splits)

theorem cyw43_backend_task_delivers_witness:
  "\<exists>w'. cyw43_backend_task frame_driver \<lparr>cyw43_rx_cb = Some (\<lambda>t p s. s @ [(t, p)]), arch_ready = True\<rparr>
      ([], 0, [[0, 0, 0, 4, 14, 1, 7]], [], []) = ([(HCI_PKT_EVENT, [14, 1, 7])], w')"
proof -
  let ?b = "\<lparr>cyw43_rx_cb = Some (\<lambda>t p s. s @ [(t, p)]), arch_ready = True\<rparr>"
  let ?w = "(0, [[0, 0, 0, 4, 14, 1, 7]], [], []) :: frame_world"
  obtain fs rest w' where r: "cyw43_backend_task frame_driver ?b ([], ?w) =
      (fold (deliver_frame (cyw43_rx_cb ?b)) fs [], w')"
    and f: "(\<lambda>(n, fs, rs, ws). rs) w' = (\<lambda>(n, fs, rs, ws). rs) ?w @ map Some fs @ rest"
    using cyw43_backend_task_delivers [OF frame_driver_ok, of ?b "[]" ?w] by auto
  have t: "cyw43_backend_task frame_driver ?b ([], ?w) =
      ([(HCI_PKT_EVENT, [14, 1, 7])], 2, [], [Some [0, 0, 0, 4, 14, 1, 7], None], [])"
    by (simp add: cyw43_backend_task_def cyw43_task_loop.simps frame_driver_def hci_packet_type_of_def)
  then show ?thesis using r by auto
qed

section \<open>Commands\<close>

text \<open>The status of the first completion of an opcode among reads.\<close>

fun first_completion :: "u16 \<Rightarrow> bytes option list \<Rightarrow> u8 option" where
  "first_completion opcode [] = None"
| "first_completion opcode (r # rs) =
     (case Option.bind r (cyw43_completion opcode) of
        Some st \<Rightarrow> Some st | None \<Rightarrow> first_completion opcode rs)"

definition wait_ends ::
    "'w cyw43_driver \<Rightarrow> ('w \<Rightarrow> bytes option list) \<Rightarrow> u16 \<Rightarrow> nat \<Rightarrow> 'w \<Rightarrow> bool \<Rightarrow> 'w \<Rightarrow> bool" where
  "wait_ends drv reads opcode due w ok w' \<longleftrightarrow>
     (\<exists>rs. reads w' = reads w @ rs \<and>
       (case first_completion opcode rs of
          Some st \<Rightarrow> ok = (st = 0) | None \<Rightarrow> \<not> ok \<and> due \<le> cyw43_now drv w'))"

lemma wait_ends_step:
  assumes "wait_ends drv reads opcode due w1 ok w'" "reads w1 = reads w @ [r]"
    and "Option.bind r (cyw43_completion opcode) = None"
  shows "wait_ends drv reads opcode due w ok w'"
proof -
  from assms(1) obtain rs where "reads w' = reads w1 @ rs"
    "case first_completion opcode rs of Some st \<Rightarrow> ok = (st = 0) | None \<Rightarrow> \<not> ok \<and> due \<le> cyw43_now drv w'"
    unfolding wait_ends_def by blast
  then show ?thesis
    unfolding wait_ends_def by (intro exI [of _ "r # rs"]) (simp add: assms(2,3))
qed

lemma cyw43_wait_ends:
  assumes ck: "pico_clock_ok ck" and ok: "cyw43_driver_ok drv reads writes"
  shows "\<exists>res w'. cyw43_backend_wait ck drv opcode (sdk_make_timeout_time_ms ck n ms) w = Some (res, w') \<and>
    wait_ends drv reads opcode (n + 1000 * ms) w res w' \<and> writes w' = writes w"
proof (induction "n + 1000 * ms - cyw43_now drv w" arbitrary: w rule: less_induct)
  case less
  let ?due = "n + 1000 * ms" and ?dl = "sdk_make_timeout_time_ms ck n ms"
  show ?case
  proof (cases "?due \<le> cyw43_now drv w")
    case True
    then show ?thesis
      using ck by (subst cyw43_backend_wait.simps) (auto simp: clock_simps wait_ends_def)
  next
    case False
    obtain err frame w1 where r: "cyw43_bluetooth_hci_read drv 2060 w = (err, frame, w1)" by (metis prod_cases3)
    note dr = driver_read [OF ok r]
    show ?thesis
    proof (cases "err \<noteq> 0 \<or> frame = []")
      case True
      let ?w = "cyw43_sleep_ms drv 1 w1"
      have q: "reads ?w = reads w1" "writes ?w = writes w1" "cyw43_now drv w1 \<le> cyw43_now drv ?w"
        by (rule driver_quiet [OF ok], blast)+
      have "?due - cyw43_now drv ?w < ?due - cyw43_now drv w" using dr(3) q(3) False by linarith
      from less.hyps [OF this] obtain res w' where
        w': "cyw43_backend_wait ck drv opcode ?dl ?w = Some (res, w')"
          "wait_ends drv reads opcode ?due ?w res w'" "writes w' = writes ?w" by blast
      have "wait_ends drv reads opcode ?due w res w'"
        using wait_ends_step [OF w'(2), of w None] q(1) dr(1) True by auto
      with w' True r ck False q dr show ?thesis
        by (subst cyw43_backend_wait.simps) (auto simp: clock_simps)
    next
      case good: False
      show ?thesis
      proof (cases "cyw43_completion opcode frame")
        case (Some st)
        have "wait_ends drv reads opcode ?due w (st = 0) w1"
          unfolding wait_ends_def using dr(1) good Some by (intro exI [of _ "[Some frame]"]) simp
        with good r ck False dr Some show ?thesis
          by (subst cyw43_backend_wait.simps) (auto simp: clock_simps)
      next
        case None
        have "?due - cyw43_now drv w1 < ?due - cyw43_now drv w" using dr(3) False by linarith
        from less.hyps [OF this] obtain res w' where
          w': "cyw43_backend_wait ck drv opcode ?dl w1 = Some (res, w')"
            "wait_ends drv reads opcode ?due w1 res w'" "writes w' = writes w1" by blast
        have "wait_ends drv reads opcode ?due w res w'"
          using wait_ends_step [OF w'(2), of w "Some frame"] dr(1) good None by auto
        with w' good r ck False dr None show ?thesis
          by (subst cyw43_backend_wait.simps) (auto simp: clock_simps)
      qed
    qed
  qed
qed

lemma cyw43_send_effect:
  assumes ok: "cyw43_driver_ok drv reads writes" and s: "cyw43_backend_send drv t packet w = (sent, w')"
  shows "reads w' = reads w" "cyw43_now drv w \<le> cyw43_now drv w'"
    "writes w' = writes w @ (if sent then [[0, 0, 0, hci_packet_type_byte t] @ packet] else [])"
    "2056 < length packet \<Longrightarrow> \<not> sent"
proof -
  let ?frame = "[0, 0, 0, hci_packet_type_byte t] @ packet"
  let ?w0 = "cyw43_arch_lwip_begin drv w"
  obtain err w1 where wr: "cyw43_bluetooth_hci_write drv ?frame ?w0 = (err, w1)"
    by (cases "cyw43_bluetooth_hci_write drv ?frame ?w0")
  have q0: "reads ?w0 = reads w" "writes ?w0 = writes w" "cyw43_now drv w \<le> cyw43_now drv ?w0"
    by (rule driver_quiet [OF ok], blast)+
  have q1: "reads (cyw43_arch_lwip_end drv w1) = reads w1" "writes (cyw43_arch_lwip_end drv w1) = writes w1"
    "cyw43_now drv w1 \<le> cyw43_now drv (cyw43_arch_lwip_end drv w1)"
    by (rule driver_quiet [OF ok], blast)+
  note dw = driver_write [OF ok wr]
  have eq: "cyw43_backend_send drv t packet w =
      (if 2056 < length packet then (False, w) else (err = 0, cyw43_arch_lwip_end drv w1))"
    using wr by (simp add: cyw43_backend_send_def)
  show "reads w' = reads w" "cyw43_now drv w \<le> cyw43_now drv w'" "2056 < length packet \<Longrightarrow> \<not> sent"
    "writes w' = writes w @ (if sent then [?frame] else [])"
    using s eq q0 q1 dw by (auto split: if_splits)
qed

lemma cyw43_command_sync_ends:
  assumes ck: "pico_clock_ok ck" and ok: "cyw43_driver_ok drv reads writes" and len: "length command \<le> 2056"
  shows "\<exists>res w' sent. cyw43_backend_send_command_sync ck drv command opcode w = Some (res, w') \<and>
    writes w' = writes w @ (if sent then [[0, 0, 0, 1] @ command] else []) \<and>
    (if sent then wait_ends drv reads opcode (cyw43_now drv w + 500000) w res w' else \<not> res)"
proof -
  obtain sent w1 where s: "cyw43_backend_send drv HCI_PKT_COMMAND command w = (sent, w1)"
    by (cases "cyw43_backend_send drv HCI_PKT_COMMAND command w")
  note se = cyw43_send_effect [OF ok s]
  show ?thesis
  proof (cases sent)
    case False
    then show ?thesis using s se
      by (intro exI [of _ False] exI [of _ w1]) (simp add: cyw43_backend_send_command_sync_def)
  next
    case True
    obtain res w' where w: "cyw43_backend_wait ck drv opcode
          (sdk_make_timeout_time_ms ck (cyw43_now drv w1) 500) w1 = Some (res, w')"
      and e: "wait_ends drv reads opcode (cyw43_now drv w1 + 1000 * 500) w1 res w'" and wr: "writes w' = writes w1"
      using cyw43_wait_ends [OF ck ok, of opcode "cyw43_now drv w1" 500 w1] by blast
    have "wait_ends drv reads opcode (cyw43_now drv w + 500000) w res w'"
      using e se(1,2) unfolding wait_ends_def by (fastforce split: option.splits)
    with True s se w wr show ?thesis
      by (intro exI [of _ res] exI [of _ w'] exI [of _ True])
         (simp add: cyw43_backend_send_command_sync_def cyw43_backend_wait_command_complete_def)
  qed
qed

text \<open>
  C11: Resetting the controller over the CYW43 always returns. It writes one frame, the HCI reset
  command behind its header, and succeeds exactly when the driver took it and the first
  completion event for the reset read while waiting reports status 0; without such an event
  it fails, after 500 ms at the earliest.
\<close>

theorem cyw43_reset_controller_result:
  assumes "pico_clock_ok ck" "cyw43_driver_ok drv reads writes"
  shows "\<exists>res w' sent rs. cyw43_backend_reset_controller ck drv w = Some (res, w') \<and>
    writes w' = writes w @ (if sent then [[0, 0, 0, 1, 0x03, 0x0c, 0]] else []) \<and>
    (if sent then reads w' = reads w @ rs \<and>
       (case first_completion HCI_OPCODE_RESET rs of
          Some st \<Rightarrow> res = (st = 0)
        | None \<Rightarrow> \<not> res \<and> cyw43_now drv w + 500000 \<le> cyw43_now drv w')
     else \<not> res)"
proof -
  have cmd: "hci_reset_command = [0x03, 0x0c, 0]" by (simp add: hci_reset_command_def lo8_def hi8_def)
  show ?thesis
    using cyw43_command_sync_ends [OF assms, of hci_reset_command HCI_OPCODE_RESET w]
    unfolding cyw43_backend_reset_controller_def wait_ends_def cmd by (auto split: if_splits)
qed

theorem cyw43_reset_controller_result_witness:
  "\<exists>w'. cyw43_backend_reset_controller us_clock frame_driver
      (0, [[0, 0, 0, 4, 14, 4, 1, 3, 12, 0]], [], []) = Some (True, w')"
proof -
  let ?w = "(0, [[0, 0, 0, 4, 14, 4, 1, 3, 12, 0]], [], []) :: frame_world"
  obtain res w' where r: "cyw43_backend_reset_controller us_clock frame_driver ?w = Some (res, w')"
    using cyw43_reset_controller_result [OF us_clock_ok frame_driver_ok, of ?w] by blast
  have "cyw43_backend_reset_controller us_clock frame_driver ?w =
      Some (True, 1, [], [Some [0, 0, 0, 4, 14, 4, 1, 3, 12, 0]], [[0, 0, 0, 1, 3, 12, 0]])"
    by (simp add: cyw43_backend_reset_controller_def cyw43_backend_send_command_sync_def
        cyw43_backend_send_def cyw43_backend_wait_command_complete_def cyw43_backend_wait.simps
        cyw43_completion_def frame_driver_def us_clock_def hci_reset_command_def lo8_def hi8_def
        hci_packet_type_of_def le16_def)
  with r show ?thesis by auto
qed

end
