(* ===== verification/Firmware_Transports.thy ===== *)
theory Firmware_Transports
  imports Firmware_Properties Backend_Esp32 Backend_Cyw43
begin

text \<open>
  The transports main can be built with, as transports of the firmware: the ESP32 over its
  UART and the CYW43 chip, each with main's receive callback (the stub is in
  theory Firmware_Safety). Each meets the contract the main loop is proved against, so what
  is proved of the main loop holds with any of them.
\<close>

section \<open>The callback and the time\<close>

text \<open>\<open>backend_rx\<close> as the callback of a transport whose own state it cannot reach.\<close>

definition main_rx ::
    "build_config \<Rightarrow> ('t, 'u, 'f, 'b) board \<Rightarrow> (host \<times> ('t, 'u, 'f, 'b) firmware) hci_rx_cb" where
  "main_rx cfg bd t pkt s = (case backend_rx cfg bd t pkt s of Some s' \<Rightarrow> s' | None \<Rightarrow> s)"

lemma main_rx_ok:
  "rx_good (snd s) \<Longrightarrow> rx_frame (snd s) (snd (main_rx cfg bd t pkt s))"
  using backend_rx_ok [of "snd s" cfg bd t pkt "fst s"] by (auto simp: main_rx_def)

lemma call_main_rx_ok:
  "rx_good (snd s) \<Longrightarrow> rx_frame (snd s) (snd (call_rx (Some (main_rx cfg bd)) t pkt s))"
  by (simp add: call_rx_def main_rx_ok)

lemma fold_main_rx_ok:
  "rx_good (snd s) \<Longrightarrow>
   rx_frame (snd s) (snd (fold (\<lambda>(t, pkt). call_rx (Some (main_rx cfg bd)) t pkt) pkts s))"
proof (induction pkts arbitrary: s)
  case Nil
  then show ?case by (simp add: rx_frame_refl)
next
  case (Cons p pkts)
  obtain t pkt where p: "p = (t, pkt)" by (cases p)
  let ?s = "call_rx (Some (main_rx cfg bd)) t pkt s"
  have f: "rx_frame (snd s) (snd ?s)" by (rule call_main_rx_ok [OF Cons.prems])
  from rx_frame_trans [OF f Cons.IH [OF rx_frame_good [OF f]]] show ?case by (simp add: p)
qed

text \<open>A transport that waits moves the timer on.\<close>

definition at_time :: "nat \<Rightarrow> ('t, 'u, 'f, 'b) firmware \<Rightarrow> ('t, 'u, 'f, 'b) firmware" where
  "at_time n fw = fw\<lparr>fw_io := (fw_io fw)\<lparr>io_now := max (fw_now fw) n\<rparr>\<rparr>"

lemma at_time_frame:
  assumes "rx_frame a fw"
  shows "rx_frame a (at_time n fw)"
proof -
  have "fw_now a \<le> fw_now fw" using assms by (simp add: rx_frame_def fw_frame_def)
  then have "fw_now a \<le> max (fw_now fw) n" by (rule max.coboundedI1)
  with assms show ?thesis unfolding at_time_def by (simp add: rx_frame_def fw_frame_def)
qed

section \<open>The CYW43 chip\<close>

definition cyw43_transport ::
    "'t pico_clock \<Rightarrow> 'w cyw43_driver
       \<Rightarrow> (('t, 'u, 'f, 'b) firmware \<times> (host \<times> ('t, 'u, 'f, 'b) firmware) cyw43_backend \<times> 'w) host_transport" where
  "cyw43_transport ck drv =
     \<lparr>tr_reset_controller = (\<lambda>(h, fw, b, w).
        case cyw43_backend_reset_controller ck drv w of
          Some (ok, w') \<Rightarrow> (ok, h, at_time (cyw43_now drv w') fw, b, w')
        | None \<Rightarrow> (False, h, fw, b, w)),
      tr_send = (\<lambda>t pkt (h, fw, b, w).
        case cyw43_backend_send drv t pkt w of (ok, w') \<Rightarrow> (ok, h, at_time (cyw43_now drv w') fw, b, w')),
      tr_task = (\<lambda>(h, fw, b, w).
        case cyw43_backend_task drv b ((h, fw), w) of
          ((h', fw'), w') \<Rightarrow> (h', at_time (cyw43_now drv w') fw', b, w'))\<rparr>"

lemma cyw43_loop_frame:
  "rx_good (snd s) \<Longrightarrow> cyw43_task_loop drv (Some (main_rx cfg bd)) k (s, w) = (s', w') \<Longrightarrow>
   rx_frame (snd s) (snd s')"
proof (induction "8 - k" arbitrary: k s w)
  case (Suc d)
  obtain err frame w1 where r: "cyw43_bluetooth_hci_read drv 2060 w = (err, frame, w1)" by (metis prod_cases3)
  let ?s = "call_rx (Some (main_rx cfg bd)) (hci_packet_type_of (frame ! 3)) (drop 4 frame) s"
  have f: "rx_frame (snd s) (snd ?s)" by (rule call_main_rx_ok [OF Suc.prems(1)])
  have step: "cyw43_task_loop drv (Some (main_rx cfg bd)) k (s, w) =
      (if err \<noteq> 0 \<or> frame = [] \<or> length frame < 4 then (s, w1)
       else if k + 1 < 8 then cyw43_task_loop drv (Some (main_rx cfg bd)) (k + 1) (?s, w1) else (?s, w1))"
    by (subst cyw43_task_loop.simps) (simp add: r)
  show ?case
  proof (cases "err \<noteq> 0 \<or> frame = [] \<or> length frame < 4")
    case True
    with step Suc.prems show ?thesis by (auto simp: rx_frame_refl)
  next
    case False
    have d: "d = 8 - (k + 1)" using Suc.hyps(2) by simp
    show ?thesis
    proof (cases "k + 1 < 8")
      case True
      with step False Suc.prems(2) have "cyw43_task_loop drv (Some (main_rx cfg bd)) (k + 1) (?s, w1) = (s', w')"
        by simp
      from Suc.hyps(1) [OF d rx_frame_good [OF f] this] show ?thesis by (rule rx_frame_trans [OF f])
    next
      case last: False
      with step False Suc.prems(2) have "s' = ?s" by simp
      with f show ?thesis by simp
    qed
  qed
next
  case 0
  obtain err frame w1 where r: "cyw43_bluetooth_hci_read drv 2060 w = (err, frame, w1)" by (metis prod_cases3)
  with 0 call_main_rx_ok [OF 0(2), of cfg bd] show ?case
    by (subst (asm) cyw43_task_loop.simps) (auto simp: rx_frame_refl split: if_splits)
qed

interpretation cyw43: hci_transport "cyw43_transport ck drv"
  "\<lambda>(fw, x). rx_good fw \<and> (\<lambda>(b, w). cyw43_rx_cb b = Some (main_rx cfg bd)) x"
  "\<lambda>(fw, x) (fw', x'). rx_frame fw fw'" "\<lambda>(fw, x). fw_now fw"
  for ck drv cfg and bd :: "('t, 'u, 'f, 'b) board"
proof (unfold_locales, goal_cases)
  case (1 w t p h)
  then show ?case
    by (auto simp: cyw43_transport_def rx_frame_good at_time_frame rx_frame_refl
        intro: rx_frame_good [OF at_time_frame [OF rx_frame_refl]] split: prod.splits)
next
  case (2 w h)
  obtain fw b w1 where w: "w = (fw, b, w1)" by (metis prod_cases3)
  have g: "rx_good fw" "cyw43_rx_cb b = Some (main_rx cfg bd)" using 2 by (simp_all add: w)
  obtain h' fw' w' where t: "cyw43_backend_task drv b ((h, fw), w1) = ((h', fw'), w')" by (metis prod.collapse)
  have f: "rx_frame fw fw'"
  proof (cases "arch_ready b")
    case True
    with t g(2) have "cyw43_task_loop drv (Some (main_rx cfg bd)) 0 ((h, fw), w1) = ((h', fw'), w')"
      by (simp add: cyw43_backend_task_def)
    from cyw43_loop_frame [OF _ this] g(1) show ?thesis by simp
  next
    case False
    with t g(1) show ?thesis by (simp add: cyw43_backend_task_def rx_frame_refl)
  qed
  with at_time_frame [OF f] rx_frame_good [OF at_time_frame [OF f]] g t w show ?case
    by (simp add: cyw43_transport_def)
next
  case (3 w h)
  then show ?case
    by (auto simp: cyw43_transport_def rx_frame_refl
        intro: at_time_frame rx_frame_good [OF at_time_frame [OF rx_frame_refl]]
        split: prod.splits option.splits)
next
  case (5 a b c)
  then show ?case using rx_frame_trans by (auto split: prod.splits)
next
  case (6 a b)
  then show ?case by (auto simp: rx_frame_def fw_frame_def split: prod.splits)
qed (auto simp: rx_frame_refl)

section \<open>The ESP32\<close>

text \<open>
  The transport's own state is its variables, the words the UART will have received by each
  of the coming polls, and the trace of its operations on the hardware.
\<close>

type_synonym ('t, 'u, 'f, 'b) esp32_world =
  "(host \<times> ('t, 'u, 'f, 'b) firmware) esp32 \<times> u32 list list \<times> esp32_op list"

definition slept :: "'t pico_clock \<Rightarrow> esp32_op list \<Rightarrow> nat \<Rightarrow> nat" where
  "slept ck ops n = fold (\<lambda>op n. case op of Esp_sleep_ms ms \<Rightarrow> sdk_sleep_ms ck n ms | _ \<Rightarrow> n) ops n"

definition esp32_transport ::
    "build_config \<Rightarrow> 't pico_clock \<Rightarrow> (u32 \<Rightarrow> bool)
       \<Rightarrow> (('t, 'u, 'f, 'b) firmware \<times> ('t, 'u, 'f, 'b) esp32_world) host_transport" where
  "esp32_transport cfg ck uart_dr_error =
     \<lparr>tr_reset_controller = (\<lambda>(h, fw, e, incoming, trace).
        case esp32_reset_controller cfg e of
          (ok, e', ops) \<Rightarrow> (ok, h, at_time (slept ck ops (fw_now fw)) fw, e', incoming, trace @ ops)),
      tr_send = (\<lambda>t pkt (h, fw, e, incoming, trace).
        case esp32_send t pkt of (ok, ops) \<Rightarrow> (ok, h, fw, e, incoming, trace @ ops)),
      tr_task = (\<lambda>(h, fw, e, incoming, trace).
        case (case incoming of [] \<Rightarrow> ([], []) | ws # rest \<Rightarrow> (ws, rest)) of (ws, incoming) \<Rightarrow>
          (case esp32_task (esp32_uart_irq uart_dr_error ws e) (h, fw) of
             Some (e', h', fw') \<Rightarrow> (h', fw', e', incoming, trace)
           | None \<Rightarrow> (h, fw, e, incoming, trace)))\<rparr>"

definition esp32_ready ::
    "build_config \<Rightarrow> ('t, 'u, 'f, 'b) board \<Rightarrow> ('t, 'u, 'f, 'b) esp32_world \<Rightarrow> bool" where
  "esp32_ready cfg bd x \<longleftrightarrow>
     (case x of (e, _) \<Rightarrow> esp32_inv e \<and> h4_framed (parser e) \<and> rx_cb e = Some (main_rx cfg bd))"

lemma esp32_task_frame:
  assumes "esp32_inv e" "h4_framed (parser e)" "rx_cb e = Some (main_rx cfg bd)" "rx_good fw"
  shows "\<exists>e' h' fw'. esp32_task e (h, fw) = Some (e', h', fw') \<and> rx_frame fw fw' \<and>
    esp32_ready cfg bd (e', x)"
proof -
  from esp32_task_feeds [OF assms(1), of "(h, fw)"] obtain p w' r where
    f: "h4_feed (parser e) (rx_contents (rx e)) (h, fw) = Some (p, w')"
    and t: "esp32_task e (h, fw) = Some (e\<lparr>rx := r, parser := p\<rparr>, w')" "esp32_inv (e\<lparr>rx := r, parser := p\<rparr>)"
    by blast
  have inv: "h4_inv (parser e)" and cb: "callback (parser e) = Some (main_rx cfg bd)"
    using assms(1,3) by (simp_all add: esp32_inv_def)
  have fr: "h4_framed p" by (rule h4_feed_stays_framed [OF inv assms(2) f])
  obtain pkts where "w' = fold (\<lambda>(t, pkt). call_rx (Some (main_rx cfg bd)) t pkt) pkts (h, fw)"
    using h4_feed_framed [OF inv assms(2) f] cb by auto
  then have "rx_frame fw (snd w')" using fold_main_rx_ok [of "(h, fw)" cfg bd pkts] assms(4) by simp
  with t fr assms(3) show ?thesis by (cases w') (auto simp: esp32_ready_def)
qed

lemma esp32_irq_ready:
  "esp32_ready cfg bd (e, x) \<Longrightarrow> esp32_ready cfg bd (esp32_uart_irq err ws e, y)"
  using esp32_irq_ring [of e err ws] by (auto simp: esp32_ready_def esp32_inv_def)

lemma esp32_reset_ready:
  "esp32_ready cfg bd (e, x) \<Longrightarrow> esp32_reset_controller cfg' e = (ok, e', ops) \<Longrightarrow> esp32_ready cfg bd (e', y)"
  by (auto simp: esp32_ready_def esp32_reset_controller_def esp32_inv_def h4_inv_defs h4_parser_reset_def
      rx_ring_inv_def)

interpretation esp32: hci_transport "esp32_transport cfg' ck err"
  "\<lambda>(fw, x). rx_good fw \<and> esp32_ready cfg bd x"
  "\<lambda>(fw, x) (fw', x'). rx_frame fw fw'" "\<lambda>(fw, x). fw_now fw"
  for cfg' ck err cfg and bd :: "('t, 'u, 'f, 'b) board"
proof (unfold_locales, goal_cases)
  case (1 w t p h)
  then show ?case
    by (auto simp: esp32_transport_def esp32_send_def esp32_ready_def rx_frame_refl)
next
  case (2 w h)
  obtain fw e incoming trace where w: "w = (fw, e, incoming, trace)" by (metis prod_cases4)
  obtain ws rest where i: "(case incoming of [] \<Rightarrow> ([], []) | ws # rest \<Rightarrow> (ws, rest)) = (ws, rest)"
    by (cases incoming) auto
  let ?e = "esp32_uart_irq err ws e"
  have g: "rx_good fw" "esp32_ready cfg bd (?e, rest, trace)"
    using 2 esp32_irq_ready [of cfg bd e "(incoming, trace)" err ws "(rest, trace)"] by (simp_all add: w)
  from esp32_task_frame [of ?e cfg bd fw h "(rest, trace)"] g obtain e' h' fw' where
    "esp32_task ?e (h, fw) = Some (e', h', fw')" "rx_frame fw fw'" "esp32_ready cfg bd (e', rest, trace)"
    by (auto simp: esp32_ready_def)
  with i w rx_frame_good show ?case by (simp add: esp32_transport_def)
next
  case (3 w h)
  obtain fw e incoming trace where w: "w = (fw, e, incoming, trace)" by (metis prod_cases4)
  obtain ok e' ops where r: "esp32_reset_controller cfg' e = (ok, e', ops)" by (metis prod_cases3)
  let ?fw = "at_time (slept ck ops (fw_now fw)) fw"
  have "rx_frame fw ?fw" using 3 by (simp add: w at_time_frame rx_frame_refl)
  with 3 r esp32_reset_ready [OF _ r, of cfg bd "(incoming, trace)"] rx_frame_good [of fw ?fw] show ?case
    by (simp add: w esp32_transport_def)
next
  case (5 a b c)
  then show ?case using rx_frame_trans by (auto split: prod.splits)
next
  case (6 a b)
  then show ?case by (auto simp: rx_frame_def fw_frame_def split: prod.splits)
qed (auto simp: rx_frame_refl)

section \<open>Starting the transports\<close>

text \<open>What \<open>main\<close> does with its transport before the loop: the callback is set, then \<open>init\<close>.\<close>

definition esp32_start ::
    "build_config \<Rightarrow> ('t, 'u, 'f, 'b) board
       \<Rightarrow> host \<times> ('t, 'u, 'f, 'b) firmware \<times> ('t, 'u, 'f, 'b) esp32_world
       \<Rightarrow> bool \<times> host \<times> ('t, 'u, 'f, 'b) firmware \<times> ('t, 'u, 'f, 'b) esp32_world" where
  "esp32_start cfg bd s =
     (case s of (h, fw, e, incoming, trace) \<Rightarrow>
        (case esp32_init cfg (esp32_set_rx_callback (Some (main_rx cfg bd)) e) of
           (ok, e', ops) \<Rightarrow>
             (ok, h, at_time (slept (board_clock bd) ops (fw_now fw)) fw, e', incoming, trace @ ops)))"

definition cyw43_start ::
    "build_config \<Rightarrow> ('t, 'u, 'f, 'b) board \<Rightarrow> 'w cyw43_driver
       \<Rightarrow> host \<times> ('t, 'u, 'f, 'b) firmware \<times> (host \<times> ('t, 'u, 'f, 'b) firmware) cyw43_backend \<times> 'w
       \<Rightarrow> bool \<times> host \<times> ('t, 'u, 'f, 'b) firmware \<times> (host \<times> ('t, 'u, 'f, 'b) firmware) cyw43_backend \<times> 'w" where
  "cyw43_start cfg bd drv s =
     (case s of (h, fw, b, w) \<Rightarrow>
        let b = cyw43_backend_set_rx_callback (Some (main_rx cfg bd)) b in
        (case cyw43_backend_init (board_clock bd) drv b w of
           Some (ok, b', w') \<Rightarrow> (ok, h, at_time (cyw43_now drv w') fw, b', w')
         | None \<Rightarrow> (False, h, fw, b, w)))"

lemma esp32_start_ok:
  "transport_init_ok (esp32_start cfg bd) (esp32_ready cfg bd) (esp32_boot, incoming, trace)"
proof -
  obtain ok e' ops where i: "esp32_init cfg (esp32_set_rx_callback (Some (main_rx cfg bd)) esp32_boot) = (ok, e', ops)"
    by (metis prod_cases3)
  have "rx_ring_inv (rx (esp32_set_rx_callback (Some (main_rx cfg bd)) esp32_boot))"
    by (simp add: esp32_set_rx_callback_def)
  from esp32_init_inv [OF this i] have "esp32_ready cfg bd (e', y)" for y
    by (simp add: esp32_ready_def esp32_set_rx_callback_def)
  then show ?thesis
    using i by (simp add: transport_init_ok_def esp32_start_def at_time_frame rx_frame_refl)
qed

lemma cyw43_init_cb:
  "cyw43_backend_init ck drv b w = Some (ok, b', w') \<Longrightarrow> cyw43_rx_cb b' = cyw43_rx_cb b"
  by (auto simp: cyw43_backend_init_def split: if_splits prod.splits)

lemma cyw43_start_ok:
  "transport_init_ok (cyw43_start cfg bd drv) (\<lambda>(b, w). cyw43_rx_cb b = Some (main_rx cfg bd)) (b, w)"
  using cyw43_init_cb [of "board_clock bd" drv "cyw43_backend_set_rx_callback (Some (main_rx cfg bd)) b" w]
  by (auto simp: transport_init_ok_def cyw43_start_def at_time_frame rx_frame_refl
      cyw43_backend_set_rx_callback_def split: option.splits)

text \<open>The CYW43's start returns: no wait for an answer is endless.\<close>

lemma cyw43_init_returns:
  assumes "pico_clock_ok ck" "cyw43_driver_ok drv reads writes"
  shows "\<exists>r. cyw43_backend_init ck drv b w = Some r"
proof -
  have cmd: "\<exists>res w'. cyw43_backend_send_command_sync ck drv c opcode w = Some (res, w')"
    if "length c \<le> 2056" for c opcode w
    using cyw43_command_sync_ends [OF assms that, of opcode w] by blast
  have "\<exists>w'. cyw43_backend_local_init ck drv w = Some w'" for w
  proof -
    obtain mac w1 where m: "cyw43_hal_get_mac drv w = (mac, w1)" by (cases "cyw43_hal_get_mac drv w")
    obtain res w2 where r: "cyw43_backend_send_command_sync ck drv hci_reset_command HCI_OPCODE_RESET w1 = Some (res, w2)"
      using cmd [of hci_reset_command HCI_OPCODE_RESET w1] by (auto simp: hci_reset_command_def)
    obtain res' w3 where "cyw43_backend_send_command_sync ck drv
        (set_bd_addr_command (mac[5 := mac ! 5 + 1])) HCI_OPCODE_BCM_SET_BD_ADDR w2 = Some (res', w3)"
      using cmd [of "set_bd_addr_command (mac[5 := mac ! 5 + 1])" HCI_OPCODE_BCM_SET_BD_ADDR w2]
      by (auto simp: set_bd_addr_command_def)
    with m r show ?thesis by (simp add: cyw43_backend_local_init_def)
  qed
  then have l: "cyw43_backend_local_init ck drv w \<noteq> None" for w by (metis option.distinct(1))
  show ?thesis
    using l by (auto simp: cyw43_backend_init_def split: if_splits prod.splits)
qed

section \<open>Property\<close>



end
