(* ===== verification/Firmware_Keyboard.thy ===== *)
theory Firmware_Keyboard
  imports Firmware_Properties
begin

text \<open>
  The standby keyboard in the main loop (\<open>src/main.c\<close>, \<open>src/usb_hid_wake.c\<close>). While the PC is on
  the loop does not run the keyboard's task, so a key pressed just before the PC came on is
  not released, and a keypress not sent by then is sent when the PC goes off.
\<close>

section \<open>A pass with the PC on\<close>

definition key_same :: "'t hid_wake \<Rightarrow> 't hid_wake \<Rightarrow> bool" where
  "key_same a b \<longleftrightarrow> key_pending b = key_pending a \<and> key_down b = key_down a \<and> release_at b = release_at a"

abbreviation fw_hid :: "('t, 'u, 'f, 'b) firmware \<Rightarrow> 't hid_wake" where
  "fw_hid fw \<equiv> io_hid (fw_io fw)"

lemma key_same_refl [simp]: "key_same a a"
  by (simp add: key_same_def)

lemma key_same_trans: "key_same a b \<Longrightarrow> key_same b c \<Longrightarrow> key_same a c"
  by (simp add: key_same_def)

text \<open>Only the pulse requests a keypress, and it does not end in the PC-on state.\<close>

lemma power_task_on_hid:
  assumes "power_state (fst (power_supervisor_task cfg hw p io)) = POWER_STATE_HOST_ON_USB_HCI"
  shows "io_hid (snd (power_supervisor_task cfg hw p io)) = io_hid io"
  using assms
  by (cases "power_state p")
     (simp_all add: power_task_split update_status_led_def power_switch_def power_wake_pulse_def
        power_fault_led_def set_state_def split_beta)

lemma work_on:
  assumes tr: "fw_transport tr X" and g: "rx_good fw" and x: "X x"
  shows "\<exists>h' fw' x'. main_state_work cfg bd tr POWER_STATE_HOST_ON_USB_HCI (h, fw, x) = Some (h', fw', x') \<and>
    fw_frame fw fw'"
proof -
  obtain fw1 where 1: "main_tud_task cfg bd fw = Some fw1" "fw_frame fw fw1" "rx_good fw1"
    using main_tud_task_ok [OF g] by blast
  obtain h2 fw2 x2 where 2: "main_bridge_task cfg bd tr (h, fw1, x) = Some (h2, fw2, x2)"
    "fw_frame fw1 fw2" "rx_good fw2" "X x2" using main_bridge_task_ok [OF tr 1(3) x] by blast
  obtain h3 fw3 x3 where 3: "tr_task (timed tr) (h2, fw2, x2) = (h3, fw3, x3)" "rx_frame fw2 fw3" "X x3"
    by (rule timed_task [OF tr 2(3,4)])
  have g3: "fw_frame fw2 fw3" "rx_good fw3" using 3(2) rx_frame_good by (auto simp: rx_frame_def)
  obtain h4 fw4 x4 where 4: "main_bridge_task cfg bd tr (h3, fw3, x3) = Some (h4, fw4, x4)"
    "fw_frame fw3 fw4" "rx_good fw4" using main_bridge_task_ok [OF tr g3(2) 3(3)] by blast
  obtain fw5 where 5: "main_tud_task cfg bd fw4 = Some fw5" "fw_frame fw4 fw5"
    using main_tud_task_ok [OF 4(3)] by blast
  have "fw_frame fw fw5"
    using 1(2) 2(2) g3(1) 4(2) 5(2) by (blast intro: fw_frame_trans)
  with 1(1) 2(1) 3(1) 4(1) 5(1) show ?thesis
    by (simp add: main_state_work_def on_firmware_def)
qed

lemma mode_change_on [simp]:
  "main_mode_change cfg bd tr POWER_STATE_HOST_ON_USB_HCI (h, fw, x) = Some (h, enter_host_usb_mode bd fw, x)"
  by (simp add: main_mode_change_def)

lemma enter_host_hid [simp]:
  "key_same (fw_hid fw) (fw_hid (enter_host_usb_mode bd fw))"
  by (simp add: enter_host_usb_mode_def set_standby_keyboard_def usb_hid_wake_set_standby_def key_same_def)

lemma main_debug_hid: "main_debug cfg bd fw = Some fw' \<Longrightarrow> fw_hid fw' = fw_hid fw"
  by (auto simp: main_debug_def split: prod.splits)

lemma pass_on_hid:
  assumes "pico_clock_ok (board_clock bd)" and tr: "fw_transport tr X" and inv: "fw_inv fw" and x: "X x"
    and r: "main_iteration cfg bd tr (h, fw, x) = Some (h', fw', x')"
    and on: "fw_state fw' = POWER_STATE_HOST_ON_USB_HCI"
  shows "key_same (fw_hid fw) (fw_hid fw')"
proof -
  let ?on = POWER_STATE_HOST_ON_USB_HCI
  obtain fw1 where fw1: "fw1 = main_power cfg bd fw" by blast
  have "fw_mode (fw_state fw1) fw'"
    using main_iteration_returns [OF assms(1-4), of cfg h] r by (auto simp: fw1)
  then have s1: "fw_state fw1 = ?on" using on by (simp add: fw_mode_def)
  then have k1: "fw_hid fw1 = fw_hid fw" unfolding fw1 main_power_fields by (rule power_task_on_hid)
  obtain fw2 where fw2: "(if ?on \<noteq> last_state fw1
      then map_option (\<lambda>(h, fw, x). (h, fw\<lparr>last_state := ?on\<rparr>, x)) (main_mode_change cfg bd tr ?on (h, fw1, x))
      else Some (h, fw1, x)) = Some (h, fw2, x)" "key_same (fw_hid fw1) (fw_hid fw2)" "rx_good fw2"
  proof (cases "?on = last_state fw1")
    case False
    have "mode_before ?on fw1" using main_power_ok [OF inv, of cfg bd] s1 False by (auto simp: fw1)
    then have "rx_good ((enter_host_usb_mode bd fw1)\<lparr>last_state := ?on\<rparr>)"
      by (simp add: mode_before_def rx_good_def set_enabled_inv)
    with False that [of "(enter_host_usb_mode bd fw1)\<lparr>last_state := ?on\<rparr>"] show thesis by simp
  next
    case True
    have "rx_good fw1" using inv by (auto simp: fw1 fw_inv_def fw_mode_def rx_good_def)
    with True that [of fw1] show thesis by simp
  qed
  from work_on [OF tr fw2(3) x, of cfg bd h] obtain h3 fw3 x3 where
    3: "main_state_work cfg bd tr ?on (h, fw2, x) = Some (h3, fw3, x3)" "fw_frame fw2 fw3" by blast
  have "main_pass cfg bd tr ?on (h, fw2, x) = Some (h3, main_policy cfg bd fw3, x3)"
    using 3(1) by (simp add: main_pass_def on_firmware_def main_keyboard_def)
  moreover have "main_iteration cfg bd tr (h, fw, x) =
      Option.bind (main_pass cfg bd tr ?on (h, fw2, x)) (on_firmware (main_debug cfg bd))"
    by (simp only: main_iteration_pass Let_def fw1 [symmetric] s1 fw2(1) Option.bind.bind_lunit)
  ultimately have "map_option (\<lambda>fw. (h3, fw, x3)) (main_debug cfg bd (main_policy cfg bd fw3)) = Some (h', fw', x')"
    using r by (simp add: on_firmware_def)
  then have "fw_hid fw' = fw_hid fw3" using main_debug_hid by fastforce
  with k1 fw2(2) fw_frameD(5) [OF 3(2)] show ?thesis by simp
qed

section \<open>The property\<close>

text \<open>A step of the firmware that ends with the PC on.\<close>

definition pc_on_step ::
    "build_config \<Rightarrow> ('t, 'u, 'f, 'b) board \<Rightarrow> (('t, 'u, 'f, 'b) firmware \<times> 'x) host_transport
       \<Rightarrow> ('x \<Rightarrow> bool) \<Rightarrow> host \<times> ('t, 'u, 'f, 'b) firmware \<times> 'x
       \<Rightarrow> host \<times> ('t, 'u, 'f, 'b) firmware \<times> 'x \<Rightarrow> bool" where
  "pc_on_step cfg bd tr X s s' \<longleftrightarrow>
     firmware_step cfg bd tr X s s' \<and> fw_state (fst (snd s')) = POWER_STATE_HOST_ON_USB_HCI"

lemma pc_on_step_hid:
  assumes "pc_on_step cfg bd tr X (h, fw, x) (h', fw', x')"
    and "pico_clock_ok (board_clock bd)" "fw_transport tr X" "fw_inv fw" "X x"
  shows "key_same (fw_hid fw) (fw_hid fw')"
proof -
  have "firmware_step cfg bd tr X (h, fw, x) (h', fw', x')" and on: "fw_state fw' = POWER_STATE_HOST_ON_USB_HCI"
    using assms(1) by (simp_all add: pc_on_step_def)
  then show ?thesis
  proof cases
    case fw_pass
    then show ?thesis using pass_on_hid [OF assms(2-5) _ on] by blast
  qed simp
qed

lemma pc_on_run_hid:
  assumes "(pc_on_step cfg bd tr X)\<^sup>*\<^sup>* s s'" and ck: "pico_clock_ok (board_clock bd)" and tr: "fw_transport tr X"
  shows "fw_inv (fst (snd s)) \<Longrightarrow> X (snd (snd s)) \<Longrightarrow>
    key_same (fw_hid (fst (snd s))) (fw_hid (fst (snd s')))"
  using assms(1)
proof (induction rule: rtranclp_induct)
  case (step s1 s2)
  obtain h fw x h' fw' x' where s: "s1 = (h, fw, x)" "s2 = (h', fw', x')" by (metis prod_cases3)
  have "(firmware_step cfg bd tr X)\<^sup>*\<^sup>* s s1"
    using step.hyps(1) by (rule mono_rtranclp [rule_format, rotated]) (simp add: pc_on_step_def)
  then have "fw_inv fw" "X x" using firmware_run_inv [OF _ ck tr] step.prems s by fastforce+
  with pc_on_step_hid [OF step.hyps(2) [unfolded s] ck tr] step s show ?case
    by (auto intro: key_same_trans)
qed simp

text \<open>
  C29: While the PC is on the standby keyboard does nothing. Over every run of the main loop in
  which the PC comes on and stays on, a keypress that was requested and not sent stays
  pending, a key that was pressed stays pressed, whatever the time its release was due, and
  nothing else of the keyboard's variables changes but the mode.
\<close>

theorem keyboard_frozen_while_pc_on:
  assumes "pico_clock_ok (board_clock bd)" "fw_transport tr X" "fw_inv fw" "X x"
    and "(pc_on_step cfg bd tr X)\<^sup>*\<^sup>* (h, fw, x) (h', fw', x')"
  shows "key_pending (io_hid (fw_io fw')) = key_pending (io_hid (fw_io fw)) \<and>
    key_down (io_hid (fw_io fw')) = key_down (io_hid (fw_io fw)) \<and>
    release_at (io_hid (fw_io fw')) = release_at (io_hid (fw_io fw))"
  using pc_on_run_hid [OF assms(5,1,2)] assms(3,4) by (simp add: key_same_def)

text \<open>The key was pressed, its release is due, and the PC comes on.\<close>

definition held_fw :: "(nat, (nat \<times> bytes option) list, nat \<Rightarrow> u8, bool) firmware" where
  "held_fw = standby_fw
     \<lparr>fw_power := (power_in POWER_STATE_WAIT_WAKE_SENSE_SETTLE 0)
        \<lparr>pwr_ok_filtered := True, usb_vbus_filtered := True, pwr_ok_changed_at := 10000\<rparr>,
      fw_io := (io_at 5000)\<lparr>io_hid := \<lparr>standby_mode = True, key_pending = False, key_down = True, release_at = 80\<rparr>\<rparr>,
      last_state := POWER_STATE_WAIT_WAKE_SENSE_SETTLE\<rparr>"

lemma held_fw_inv: "fw_inv held_fw"
proof -
  have "\<not> standby_configured standby_fw" by (simp add: standby_fw_def firmware_boot_def)
  then show ?thesis
    using standby_fw_fields(1,4)
    by (auto simp: held_fw_def fw_inv_def fw_mode_def rx_good_def modes_ok_def live_state_def)
qed

lemma held_fw_on: "fw_state (main_power pico2w_config demo_board held_fw) = POWER_STATE_HOST_ON_USB_HCI"
  by (simp add: held_fw_def power_task_split update_status_led_def power_switch_def power_inputs_on_def
      power_input_defs update_power_inputs_def debounce_bool_def pin_read_or_default_def set_state_def
      power_in_defs split_beta)

theorem keyboard_frozen_while_pc_on_witness:
  "\<exists>s'. pc_on_step pico2w_config demo_board demo_stub (\<lambda>_. True) (host_boot, held_fw, ()) s' \<and>
     key_down (io_hid (fw_io (fst (snd s')))) \<and> release_at (io_hid (fw_io (fst (snd s')))) = 80"
proof -
  have tr: "fw_transport demo_stub (\<lambda>_ :: unit. True)"
    by (rule stub.hci_transport_axioms)
  have ck: "pico_clock_ok (board_clock demo_board)" by simp
  obtain h fw x where r: "main_iteration pico2w_config demo_board demo_stub (host_boot, held_fw, ()) = Some (h, fw, x)"
    "fw_mode (fw_state (main_power pico2w_config demo_board held_fw)) fw"
    using main_iteration_returns [OF ck tr held_fw_inv TrueI] by blast
  then have s: "pc_on_step pico2w_config demo_board demo_stub (\<lambda>_. True) (host_boot, held_fw, ()) (h, fw, x)"
    unfolding held_fw_on by (simp add: pc_on_step_def fw_pass fw_mode_def)
  from keyboard_frozen_while_pc_on [OF ck tr held_fw_inv TrueI r_into_rtranclp [of "pc_on_step pico2w_config demo_board demo_stub (\<lambda>_. True)", OF s]]
  have "key_down (io_hid (fw_io fw))" "release_at (io_hid (fw_io fw)) = 80"
    by (simp_all add: held_fw_def)
  with s show ?thesis by auto
qed

end
