(* ===== verification/Bridge_Quirk.thy ===== *)
theory Bridge_Quirk
  imports Usb_Bridge
begin

text \<open>
  The workaround for the CYW43 in \<open>src/usb_bth_bridge.c\<close>: four commands get a completion of the
  bridge's own when they are sent, and the controller's, should it still come, is dropped. What the
  PC sees of such a command is one completion, or none.
\<close>

section \<open>The four commands and their counters\<close>

definition quirk_opcodes :: "u16 list" where
  "quirk_opcodes =
     [HCI_OPCODE_WRITE_SIMPLE_PAIRING_MODE, HCI_OPCODE_LE_SET_RANDOM_ADDRESS,
      HCI_OPCODE_LE_SET_SCAN_PARAMETERS, HCI_OPCODE_LE_SET_SCAN_ENABLE]"

definition quirk_count :: "u16 \<Rightarrow> bridge \<Rightarrow> u8" where
  "quirk_count op br =
     (if op = HCI_OPCODE_WRITE_SIMPLE_PAIRING_MODE then suppress_write_simple_pairing_mode_complete br
      else if op = HCI_OPCODE_LE_SET_RANDOM_ADDRESS then suppress_le_set_random_address_complete br
      else if op = HCI_OPCODE_LE_SET_SCAN_PARAMETERS then suppress_le_set_scan_parameters_complete br
      else suppress_le_set_scan_enable_complete br)"

definition set_quirk_count :: "u16 \<Rightarrow> u8 \<Rightarrow> bridge \<Rightarrow> bridge" where
  "set_quirk_count op c br =
     (if op = HCI_OPCODE_WRITE_SIMPLE_PAIRING_MODE
      then br\<lparr>suppress_write_simple_pairing_mode_complete := c\<rparr>
      else if op = HCI_OPCODE_LE_SET_RANDOM_ADDRESS
      then br\<lparr>suppress_le_set_random_address_complete := c\<rparr>
      else if op = HCI_OPCODE_LE_SET_SCAN_PARAMETERS
      then br\<lparr>suppress_le_set_scan_parameters_complete := c\<rparr>
      else br\<lparr>suppress_le_set_scan_enable_complete := c\<rparr>)"

lemma quirk_opcodes_cases:
  assumes "op \<in> set quirk_opcodes"
  obtains "op = HCI_OPCODE_WRITE_SIMPLE_PAIRING_MODE" | "op = HCI_OPCODE_LE_SET_RANDOM_ADDRESS"
    | "op = HCI_OPCODE_LE_SET_SCAN_PARAMETERS" | "op = HCI_OPCODE_LE_SET_SCAN_ENABLE"
  using assms by (auto simp: quirk_opcodes_def)

lemma quirk_count_set [simp]:
  "op \<in> set quirk_opcodes \<Longrightarrow> quirk_count op (set_quirk_count op c br) = c"
  by (simp add: quirk_count_def set_quirk_count_def)

lemma set_quirk_count_same: "set_quirk_count op (quirk_count op br) br = br"
  by (simp add: quirk_count_def set_quirk_count_def)

lemma set_quirk_count_twice [simp]:
  "set_quirk_count op c (set_quirk_count op d br) = set_quirk_count op c br"
  by (simp add: set_quirk_count_def)

lemma set_quirk_count_fields [simp]:
  "bridge_enabled (set_quirk_count op c br) = bridge_enabled br"
  "backend_queue (set_quirk_count op c br) = backend_queue br"
  "bridge_pending (set_quirk_count op c br) = bridge_pending br"
  "bridge_inv (set_quirk_count op c br) = bridge_inv br"
  by (simp_all add: set_quirk_count_def bridge_pending_def bridge_inv_def)

lemma quirk_count_push [simp]: "quirk_count op (snd (push_backend br t pkt)) = quirk_count op br"
  by (simp add: quirk_count_def push_backend_def split: prod.split)

section \<open>The two sides of the workaround\<close>

lemma after_quirk_eq:
  assumes "backend_is_cyw43 cfg" "op \<in> set quirk_opcodes" "hci_command_opcode_is pkt op"
  shows "usb_bth_bridge_after_controller_send_quirk cfg br pkt =
     set_quirk_count op (saturating_inc (quirk_count op br))
       (snd (push_backend br HCI_PKT_EVENT (command_complete_event op 0)))"
  using assms(2)
  by (cases rule: quirk_opcodes_cases)
     (use assms in \<open>simp_all add: usb_bth_bridge_after_controller_send_quirk_def split_beta
        queue_command_complete_def set_quirk_count_def quirk_count_def hci_command_opcode_is_def
        push_backend_def split: if_splits\<close>)

lemma drop_delayed_eq:
  assumes "backend_is_cyw43 cfg" "op \<in> set quirk_opcodes" "hci_event_command_complete_opcode_is ev op"
  shows "usb_bth_bridge_should_drop_delayed_quirk_complete cfg br ev =
     (if quirk_count op br = 0 then (False, br)
      else (True, set_quirk_count op (quirk_count op br - 1) br))"
  using assms(2)
  by (cases rule: quirk_opcodes_cases)
     (use assms in \<open>simp_all add: usb_bth_bridge_should_drop_delayed_quirk_complete_def
        set_quirk_count_def quirk_count_def hci_event_command_complete_opcode_is_def split: if_splits\<close>)

lemma delayed_complete_eq:
  assumes "backend_is_cyw43 cfg" "op \<in> set quirk_opcodes" "hci_event_command_complete_opcode_is ev op"
    and "bridge_enabled br" "quirk_count op br \<noteq> 0"
  shows "usb_bth_bridge_backend_packet cfg HCI_PKT_EVENT ev br =
     set_quirk_count op (quirk_count op br - 1) br"
  using assms by (simp add: usb_bth_bridge_backend_packet_def drop_delayed_eq)

text \<open>A completion the bridge synthesized is recognised as one of its own command.\<close>

lemma synthesized_is_complete:
  "hci_event_command_complete_opcode_is (command_complete_event op st) op"
  by (simp add: hci_event_command_complete_opcode_is_def command_complete_event_def)

section \<open>Packets in between\<close>

definition feed_bridge :: "build_config \<Rightarrow> (hci_packet_type \<times> bytes) list \<Rightarrow> bridge \<Rightarrow> bridge" where
  "feed_bridge cfg pkts br = fold (\<lambda>(t, pkt). usb_bth_bridge_backend_packet cfg t pkt) pkts br"

lemma feed_bridge_snoc:
  "feed_bridge cfg (pkts @ [(t, pkt)]) br = usb_bth_bridge_backend_packet cfg t pkt (feed_bridge cfg pkts br)"
  by (simp add: feed_bridge_def)

lemma push_set_quirk_count:
  "snd (push_backend (set_quirk_count op c br) t pkt) = set_quirk_count op c (snd (push_backend br t pkt))"
  by (simp add: push_backend_def set_quirk_count_def split: prod.split)

lemma drop_other_quirk:
  assumes "op \<in> set quirk_opcodes" "\<not> hci_event_command_complete_opcode_is ev op"
  shows "usb_bth_bridge_should_drop_delayed_quirk_complete cfg (set_quirk_count op c br) ev =
     map_prod id (set_quirk_count op c) (usb_bth_bridge_should_drop_delayed_quirk_complete cfg br ev)"
  using assms(1)
  by (cases rule: quirk_opcodes_cases)
     (use assms(2) in \<open>simp_all add: usb_bth_bridge_should_drop_delayed_quirk_complete_def
        set_quirk_count_def\<close>)

lemma set_quirk_count_vendor:
  "(set_quirk_count op c br)\<lparr>dropped_vendor_events := n\<rparr> =
     set_quirk_count op c (br\<lparr>dropped_vendor_events := n\<rparr>)"
  "dropped_vendor_events (set_quirk_count op c br) = dropped_vendor_events br"
  by (simp_all add: set_quirk_count_def)

lemma backend_packet_other_quirk:
  assumes "op \<in> set quirk_opcodes"
    and "t = HCI_PKT_EVENT \<longrightarrow> \<not> hci_event_command_complete_opcode_is ev op"
  shows "usb_bth_bridge_backend_packet cfg t ev (set_quirk_count op c br) =
     set_quirk_count op c (usb_bth_bridge_backend_packet cfg t ev br)"
  using assms
  by (auto simp: usb_bth_bridge_backend_packet_def drop_other_quirk split_beta push_set_quirk_count
      set_quirk_count_vendor)

definition other_packets :: "u16 \<Rightarrow> (hci_packet_type \<times> bytes) list \<Rightarrow> bool" where
  "other_packets op pkts \<longleftrightarrow>
     list_all (\<lambda>(t, pkt). t = HCI_PKT_EVENT \<longrightarrow> \<not> hci_event_command_complete_opcode_is pkt op) pkts"

lemma feed_other_packets:
  "op \<in> set quirk_opcodes \<Longrightarrow> other_packets op pkts \<Longrightarrow>
   feed_bridge cfg pkts (set_quirk_count op c br) = set_quirk_count op c (feed_bridge cfg pkts br)"
  by (induction pkts arbitrary: br)
     (auto simp: feed_bridge_def other_packets_def backend_packet_other_quirk)

lemma should_drop_enabled [simp]:
  "bridge_enabled (snd (usb_bth_bridge_should_drop_delayed_quirk_complete cfg br pkt)) = bridge_enabled br"
  by (simp add: usb_bth_bridge_should_drop_delayed_quirk_complete_def)

lemma backend_packet_enabled [simp]:
  "bridge_enabled (usb_bth_bridge_backend_packet cfg t pkt br) = bridge_enabled br"
  by (simp add: usb_bth_bridge_backend_packet_def split_beta)

lemma feed_bridge_enabled [simp]: "bridge_enabled (feed_bridge cfg pkts br) = bridge_enabled br"
  by (induction pkts arbitrary: br) (simp_all add: feed_bridge_def split_beta)

text \<open>Packets that are no completion of \<open>op\<close> leave its counter alone.\<close>

lemma feed_other_count:
  assumes "op \<in> set quirk_opcodes" "other_packets op pkts"
  shows "quirk_count op (feed_bridge cfg pkts br) = quirk_count op br"
  using assms by (metis feed_other_packets quirk_count_set set_quirk_count_same)

section \<open>The property\<close>

text \<open>
  C14: On the CYW43, one of the four commands with a workaround, sent by an enabled bridge, and the
  completion the controller gives of it later, behind whatever other packets, leave the bridge as
  if the bridge had answered the command itself and the controller not at all. The
  answer is there exactly if the queue to the PC had room when the command was sent; if it had
  none, the PC gets no completion of the command, although the controller has sent one.
\<close>

theorem quirk_single_completion:
  assumes "backend_is_cyw43 cfg" "bridge_enabled br" "bridge_inv br"
    and "op \<in> set quirk_opcodes" "hci_command_opcode_is cmd op" "quirk_count op br < 255"
    and "other_packets op pkts" "hci_event_command_complete_opcode_is ev op"
  shows "let answered = snd (push_backend br HCI_PKT_EVENT (command_complete_event op 0)) in
     feed_bridge cfg (pkts @ [(HCI_PKT_EVENT, ev)])
       (usb_bth_bridge_after_controller_send_quirk cfg br cmd) = feed_bridge cfg pkts answered \<and>
     bridge_pending answered = bridge_pending br @
       (if length (queue_contents (backend_queue br)) < 31
        then [(HCI_PKT_EVENT, command_complete_event op 0)] else [])"
proof -
  let ?answered = "snd (push_backend br HCI_PKT_EVENT (command_complete_event op 0))"
  let ?fed = "feed_bridge cfg pkts ?answered" and ?n = "quirk_count op br"
  have "?n \<noteq> - 1" "?n \<noteq> 255" using assms(6) by auto
  then have inc: "saturating_inc ?n = ?n + 1" "?n + 1 \<noteq> 0"
    by (simp_all add: saturating_inc_def eq_neg_iff_add_eq_0)
  have "feed_bridge cfg pkts (usb_bth_bridge_after_controller_send_quirk cfg br cmd) =
      set_quirk_count op (?n + 1) ?fed"
    by (simp add: after_quirk_eq [OF assms(1,4,5)] assms inc feed_other_packets)
  moreover have "quirk_count op ?fed = ?n"
    by (simp add: feed_other_count assms)
  ultimately have "feed_bridge cfg (pkts @ [(HCI_PKT_EVENT, ev)])
      (usb_bth_bridge_after_controller_send_quirk cfg br cmd) = ?fed"
    using inc(2) assms set_quirk_count_same [of op ?fed]
    by (simp add: feed_bridge_snoc delayed_complete_eq [OF assms(1,4,8)])
  moreover have "bridge_pending ?answered = bridge_pending br @
      (if length (queue_contents (backend_queue br)) < 31
       then [(HCI_PKT_EVENT, command_complete_event op 0)] else [])"
    using assms(3) by (simp add: push_backend_pending queue_push_flag bridge_inv_def command_complete_event_def)
  ultimately show ?thesis by simp
qed

theorem quirk_single_completion_witness:
  "let cfg = pico2w_config; br = usb_bth_bridge_set_enabled True bridge_boot;
       op = HCI_OPCODE_LE_SET_SCAN_ENABLE; cmd = [0x0c, 0x20, 0x02, 0x01, 0x00];
       pkts = [(HCI_PKT_ACL, [0x01, 0x20, 0x00, 0x00])];
       ev = command_complete_event op 0x0c;
       answered = snd (push_backend br HCI_PKT_EVENT (command_complete_event op 0)) in
     feed_bridge cfg (pkts @ [(HCI_PKT_EVENT, ev)])
       (usb_bth_bridge_after_controller_send_quirk cfg br cmd) = feed_bridge cfg pkts answered \<and>
     bridge_pending answered = [(HCI_PKT_EVENT, [0x0e, 0x04, 0x01, 0x0c, 0x20, 0x00])]"
proof -
  let ?br = "usb_bth_bridge_set_enabled True bridge_boot"
  have inv: "bridge_inv ?br"
    by (intro set_enabled_inv bridge_boot_inv)
  have br: "bridge_enabled ?br" "quirk_count HCI_OPCODE_LE_SET_SCAN_ENABLE ?br = 0"
      "backend_queue ?br = empty_queue" "bridge_pending ?br = []"
    by (simp_all add: quirk_count_def bridge_pending_def usb_bth_bridge_set_enabled_def
        bridge_boot_def)
  have bytes: "hci_command_opcode_is [0x0c, 0x20, 0x02, 0x01, 0x00] HCI_OPCODE_LE_SET_SCAN_ENABLE"
      "command_complete_event HCI_OPCODE_LE_SET_SCAN_ENABLE 0 = [0x0e, 0x04, 0x01, 0x0c, 0x20, 0x00]"
    by (simp_all add: hci_command_opcode_is_def le16_def command_complete_event_def lo8_def hi8_def)
  show ?thesis
    using quirk_single_completion
        [of pico2w_config ?br HCI_OPCODE_LE_SET_SCAN_ENABLE "[0x0c, 0x20, 0x02, 0x01, 0x00]"
           "[(HCI_PKT_ACL, [0x01, 0x20, 0x00, 0x00])]"
           "command_complete_event HCI_OPCODE_LE_SET_SCAN_ENABLE 0x0c"]
      inv br bytes synthesized_is_complete
    by (simp add: quirk_opcodes_def other_packets_def backend_is_cyw43_def pico2w_config_def)
qed

end
