(* ===== verification/Bridge_Log.thy ===== *)
theory Bridge_Log
  imports Platform
begin

text \<open>
  The debug output of \<open>src/usb_bth_bridge.c\<close>: what the bridge logs of the commands, events and
  ACL packets it passes on. A log line is its format and the values printed; \<open>None\<close> is a read
  outside the packet. The three functions read packets of any length, so what they may read
  is decided by the length tests in front of every read.
\<close>

section \<open>Log lines\<close>

datatype log_arg = Log_str string | Log_num nat

type_synonym log_line = "string \<times> log_arg list"

definition byte_arg :: "bytes \<Rightarrow> nat \<Rightarrow> log_arg option" where
  "byte_arg pkt i = map_option (\<lambda>b. Log_num (unat b)) (rd pkt i)"

definition le16_at :: "bytes \<Rightarrow> nat \<Rightarrow> u16 option" where
  "le16_at pkt offset = do { lo \<leftarrow> rd pkt offset; hi \<leftarrow> rd pkt (offset + 1); Some (le16 lo hi) }"

definition word_arg :: "bytes \<Rightarrow> nat \<Rightarrow> log_arg option" where
  "word_arg pkt i = map_option (\<lambda>v. Log_num (unat v)) (le16_at pkt i)"

definition debug_line :: "string \<Rightarrow> log_arg option list \<Rightarrow> log_line option option" where
  "debug_line fmt args = map_option (\<lambda>vs. Some (fmt, vs)) (those args)"

definition addr_type_name :: "u8 \<Rightarrow> string" where
  "addr_type_name t =
     (if t = 0x00 then ''public'' else if t = 0x01 then ''random''
      else if t = 0x02 then ''public-id'' else if t = 0x03 then ''random-id'' else ''unknown'')"

definition addr_type_arg :: "bytes \<Rightarrow> nat \<Rightarrow> log_arg option" where
  "addr_type_arg pkt i = map_option (\<lambda>b. Log_str (addr_type_name b)) (rd pkt i)"

section \<open>ACL packets and commands\<close>

text \<open>\<open>acl_debug\<close> is the build option \<open>ENABLE_ACL_DEBUG_LOG\<close>.\<close>

definition log_acl_packet ::
    "build_config \<Rightarrow> bool \<Rightarrow> string \<Rightarrow> bytes \<Rightarrow> log_line option option" where
  "log_acl_packet cfg acl_debug prefix pkt =
     (if ENABLE_CDC_DEBUG cfg \<and> acl_debug \<and> length pkt \<ge> 4
      then do {
        handle_flags \<leftarrow> le16_at pkt 0;
        let handle = handle_flags AND 0x0fff;
        let pb = drop_bit 12 handle_flags AND 0x03;
        debug_line ''%s acl handle=0x%04x pb=%u data_len=%u len=%u''
          [Some (Log_str prefix), Some (Log_num (unat handle)), Some (Log_num (unat pb)),
           word_arg pkt 2, Some (Log_num (length pkt))]
      }
      else Some None)"

text \<open>\<open>q\<close> is the pair of the queue's tail and head.\<close>

definition log_hci_command ::
    "build_config \<Rightarrow> string \<Rightarrow> nat \<times> nat \<Rightarrow> bytes \<Rightarrow> log_line option option" where
  "log_hci_command cfg prefix q pkt =
     (if ENABLE_CDC_DEBUG cfg \<and> length pkt \<ge> 3
      then do {
        opcode \<leftarrow> le16_at pkt 0;
        if opcode = HCI_OPCODE_LE_SET_SCAN_PARAMETERS \<and> length pkt \<ge> 10
        then debug_line ''%s cmd LE Set Scan Params type=0x%02x int=0x%04x win=0x%04x own=0x%02x policy=0x%02x q=%u/%u''
          [Some (Log_str prefix), byte_arg pkt 3, word_arg pkt 4, word_arg pkt 6, byte_arg pkt 8,
           byte_arg pkt 9, Some (Log_num (fst q)), Some (Log_num (snd q))]
        else if opcode = HCI_OPCODE_LE_SET_SCAN_ENABLE \<and> length pkt \<ge> 5
        then debug_line ''%s cmd LE Set Scan Enable enable=%u filter_dup=%u q=%u/%u''
          [Some (Log_str prefix), byte_arg pkt 3, byte_arg pkt 4, Some (Log_num (fst q)), Some (Log_num (snd q))]
        else if opcode = HCI_OPCODE_LE_CREATE_CONNECTION \<and> length pkt \<ge> 28
        then debug_line ''%s cmd LE Create Conn scan_int=0x%04x scan_win=0x%04x policy=0x%02x peer_type=%s peer=%02x:%02x:%02x:%02x:%02x:%02x''
          [Some (Log_str prefix), word_arg pkt 3, word_arg pkt 5, byte_arg pkt 7, addr_type_arg pkt 8,
           byte_arg pkt 14, byte_arg pkt 13, byte_arg pkt 12, byte_arg pkt 11, byte_arg pkt 10, byte_arg pkt 9]
        else if opcode = HCI_OPCODE_LE_EXTENDED_CREATE_CONNECTION \<and> length pkt \<ge> 13
        then debug_line ''%s cmd LE Ext Create Conn filter_policy=0x%02x own=0x%02x peer_type=%s peer=%02x:%02x:%02x:%02x:%02x:%02x phys=0x%02x''
          [Some (Log_str prefix), byte_arg pkt 3, byte_arg pkt 4, addr_type_arg pkt 5,
           byte_arg pkt 11, byte_arg pkt 10, byte_arg pkt 9, byte_arg pkt 8, byte_arg pkt 7, byte_arg pkt 6,
           byte_arg pkt 12]
        else debug_line ''%s cmd opcode=0x%04x plen=%u q=%u/%u''
          [Some (Log_str prefix), Some (Log_num (unat opcode)), byte_arg pkt 2,
           Some (Log_num (fst q)), Some (Log_num (snd q))]
      }
      else Some None)"

section \<open>Events\<close>

text \<open>An LE meta event of at least \<open>n\<close> bytes with the given subevent; the subevent is read last.\<close>

definition meta_is :: "bytes \<Rightarrow> nat \<Rightarrow> u8 \<Rightarrow> bool option" where
  "meta_is pkt n sub =
     (if pkt ! 0 = HCI_EVENT_LE_META \<and> length pkt \<ge> n then map_option (\<lambda>b. b = sub) (rd pkt 2)
      else Some False)"

text \<open>One of each sixteen advertising reports is logged.\<close>

definition log_adv_report ::
    "string \<Rightarrow> string \<Rightarrow> bytes \<Rightarrow> u32 \<Rightarrow> (log_line option \<times> u32) option" where
  "log_adv_report fmt prefix pkt seen =
     (let seen = seen + 1 in
      map_option (\<lambda>l. (l, seen))
        (if seen AND 0x0f = 1
         then debug_line fmt [Some (Log_str prefix), Some (Log_num (unat seen)),
                if length pkt \<ge> 4 then byte_arg pkt 3 else Some (Log_num 0), Some (Log_num (length pkt))]
         else Some None))"

definition log_le_event ::
    "string \<Rightarrow> bytes \<Rightarrow> u32 \<Rightarrow> (log_line option \<times> u32) option" where
  "log_le_event prefix pkt seen =
     (let p = Some (Log_str prefix); line = (\<lambda>fmt args. map_option (\<lambda>l. (l, seen)) (debug_line fmt (p # args))) in
      do {
        c \<leftarrow> meta_is pkt 21 0x01;
        if c then line ''%s evt LE connection_complete status=0x%02x handle=0x%04x role=0x%02x''
               [byte_arg pkt 3, word_arg pkt 4, byte_arg pkt 6]
        else do {
        c \<leftarrow> meta_is pkt 21 0x0a;
        if c then line ''%s evt LE enhanced_connection_complete status=0x%02x handle=0x%04x role=0x%02x''
               [byte_arg pkt 3, word_arg pkt 4, byte_arg pkt 6]
        else do {
        c \<leftarrow> meta_is pkt 12 0x03;
        if c then line ''%s evt LE connection_update status=0x%02x handle=0x%04x''
               [byte_arg pkt 3, word_arg pkt 4]
        else do {
        c \<leftarrow> meta_is pkt 13 0x04;
        if c then line ''%s evt LE read_remote_features status=0x%02x handle=0x%04x''
               [byte_arg pkt 3, word_arg pkt 4]
        else do {
        c \<leftarrow> meta_is pkt 13 0x07;
        if c then line ''%s evt LE data_length_change handle=0x%04x'' [word_arg pkt 3]
        else do {
        c \<leftarrow> meta_is pkt 3 HCI_SUBEVENT_LE_ADVERTISING_REPORT;
        if c then log_adv_report ''%s evt LE adv_report count=%lu reports=%u len=%u'' prefix pkt seen
        else do {
        c \<leftarrow> meta_is pkt 3 HCI_SUBEVENT_LE_EXTENDED_ADVERTISING_REPORT;
        if c then log_adv_report ''%s evt LE ext_adv_report count=%lu reports=%u len=%u'' prefix pkt seen
        else if pkt ! 0 = HCI_EVENT_LE_META \<and> length pkt \<ge> 3
        then line ''%s evt LE subevent=0x%02x plen=%u len=%u''
               [byte_arg pkt 2, byte_arg pkt 1, Some (Log_num (length pkt))]
        else line ''%s evt code=0x%02x plen=%u len=%u''
               [byte_arg pkt 0, byte_arg pkt 1, Some (Log_num (length pkt))]
        }}}}}}})"

definition log_hci_event ::
    "build_config \<Rightarrow> string \<Rightarrow> bytes \<Rightarrow> u32 \<Rightarrow> (log_line option \<times> u32) option" where
  "log_hci_event cfg prefix pkt seen =
     (let p = Some (Log_str prefix); len = Some (Log_num (length pkt));
          line = (\<lambda>fmt args. map_option (\<lambda>l. (l, seen)) (debug_line fmt (p # args))) in
      if \<not> ENABLE_CDC_DEBUG cfg \<or> length pkt < 2 then Some (None, seen)
      else if pkt ! 0 = HCI_EVENT_COMMAND_COMPLETE \<and> length pkt \<ge> 6
      then line ''%s evt CC opcode=0x%04x status=0x%02x len=%u'' [word_arg pkt 3, byte_arg pkt 5, len]
      else if pkt ! 0 = HCI_EVENT_COMMAND_STATUS \<and> length pkt \<ge> 6
      then line ''%s evt CS opcode=0x%04x status=0x%02x len=%u'' [word_arg pkt 4, byte_arg pkt 2, len]
      else if pkt ! 0 = 0x07 \<and> length pkt \<ge> 255
      then line ''%s evt remote_name_complete status=0x%02x len=%u'' [byte_arg pkt 2, len]
      else if pkt ! 0 = 0x13 then Some (None, seen)
      else if pkt ! 0 = 0x2f \<and> length pkt \<ge> 257
      then line ''%s evt extended_inquiry_result len=%u'' [len]
      else if pkt ! 0 = 0x3d \<and> length pkt \<ge> 16
      then line ''%s evt remote_host_supported_features len=%u'' [len]
      else if pkt ! 0 = 0x03 \<and> length pkt \<ge> 13
      then line ''%s evt connection_complete status=0x%02x handle=0x%04x link=0x%02x enc=0x%02x''
             [byte_arg pkt 2, word_arg pkt 3, byte_arg pkt 11, byte_arg pkt 12]
      else if pkt ! 0 = 0x05 \<and> length pkt \<ge> 6
      then line ''%s evt disconnect_complete status=0x%02x handle=0x%04x reason=0x%02x''
             [byte_arg pkt 2, word_arg pkt 3, byte_arg pkt 5]
      else if pkt ! 0 = 0x06 \<and> length pkt \<ge> 5
      then line ''%s evt auth_complete status=0x%02x handle=0x%04x'' [byte_arg pkt 2, word_arg pkt 3]
      else if pkt ! 0 = 0x16 then line ''%s evt pin_code_request'' []
      else if pkt ! 0 = 0x17 then line ''%s evt link_key_request'' []
      else if pkt ! 0 = 0x18 \<and> length pkt \<ge> 25
      then line ''%s evt link_key_notification type=0x%02x'' [byte_arg pkt 24]
      else if pkt ! 0 = 0x2c \<and> length pkt \<ge> 5
      then line ''%s evt sync_connection_complete status=0x%02x handle=0x%04x'' [byte_arg pkt 2, word_arg pkt 3]
      else log_le_event prefix pkt seen)"

section \<open>Reading inside the packet\<close>

named_theorems log_simps \<open>arguments that are inside the packet\<close>

lemma byte_arg_in [log_simps]: "i < length pkt \<Longrightarrow> byte_arg pkt i = Some (Log_num (unat (pkt ! i)))"
  by (simp add: byte_arg_def rd_def)

lemma le16_at_in [log_simps]:
  "i + 1 < length pkt \<Longrightarrow> le16_at pkt i = Some (le16 (pkt ! i) (pkt ! (i + 1)))"
  by (simp add: le16_at_def rd_def)

lemma word_arg_in [log_simps]:
  "i + 1 < length pkt \<Longrightarrow> word_arg pkt i = Some (Log_num (unat (le16 (pkt ! i) (pkt ! (i + 1)))))"
  by (simp add: word_arg_def le16_at_in)

lemma addr_type_arg_in [log_simps]:
  "i < length pkt \<Longrightarrow> addr_type_arg pkt i = Some (Log_str (addr_type_name (pkt ! i)))"
  by (simp add: addr_type_arg_def rd_def)

lemma meta_is_in [log_simps]:
  "3 \<le> n \<Longrightarrow> meta_is pkt n sub = Some (pkt ! 0 = 0x3e \<and> n \<le> length pkt \<and> pkt ! 2 = sub)"
  by (auto simp: meta_is_def rd_def)

lemma log_acl_packet_reads: "\<exists>l. log_acl_packet cfg acl_debug prefix pkt = Some l"
  by (simp add: log_acl_packet_def debug_line_def log_simps)

lemma log_hci_command_reads: "\<exists>l. log_hci_command cfg prefix q pkt = Some l"
  by (simp add: log_hci_command_def debug_line_def log_simps)

lemma log_adv_report_reads: "\<exists>l. log_adv_report fmt prefix pkt seen = Some (l, seen + 1)"
  by (simp add: log_adv_report_def debug_line_def log_simps)

definition adv_event :: "bytes \<Rightarrow> bool" where
  "adv_event pkt \<longleftrightarrow> 3 \<le> length pkt \<and> pkt ! 0 = HCI_EVENT_LE_META \<and>
     (pkt ! 2 = HCI_SUBEVENT_LE_ADVERTISING_REPORT \<or> pkt ! 2 = HCI_SUBEVENT_LE_EXTENDED_ADVERTISING_REPORT)"

lemma log_le_event_reads:
  assumes "2 \<le> length pkt"
  shows "\<exists>l. log_le_event prefix pkt seen = Some (l, if adv_event pkt then seen + 1 else seen)"
proof -
  have bytes: "byte_arg pkt 0 = Some (Log_num (unat (pkt ! 0)))" "byte_arg pkt 1 = Some (Log_num (unat (pkt ! 1)))"
    using assms by (auto simp: byte_arg_def rd_def)
  consider (adv) "3 \<le> length pkt" "pkt ! 0 = 0x3e" "pkt ! 2 = 0x02"
    | (ext) "3 \<le> length pkt" "pkt ! 0 = 0x3e" "pkt ! 2 = 0x0d"
    | (other) "3 \<le> length pkt" "pkt ! 0 = 0x3e" "pkt ! 2 \<noteq> 0x02" "pkt ! 2 \<noteq> 0x0d"
    | (short) "\<not> 3 \<le> length pkt" | (plain) "pkt ! 0 \<noteq> 0x3e" by blast
  then show ?thesis
  proof cases
    case adv
    with log_adv_report_reads [of _ prefix pkt seen] show ?thesis
      by (simp add: log_le_event_def adv_event_def log_simps)
  next
    case ext
    with log_adv_report_reads [of _ prefix pkt seen] show ?thesis
      by (simp add: log_le_event_def adv_event_def log_simps)
  next
    case other
    then show ?thesis by (simp add: log_le_event_def adv_event_def debug_line_def log_simps)
  next
    case short
    then show ?thesis using bytes by (simp add: log_le_event_def adv_event_def debug_line_def log_simps)
  next
    case plain
    then show ?thesis using bytes by (simp add: log_le_event_def adv_event_def debug_line_def log_simps)
  qed
qed

lemma log_hci_event_reads:
  "\<exists>l. log_hci_event cfg prefix pkt seen =
     Some (l, if ENABLE_CDC_DEBUG cfg \<and> adv_event pkt then seen + 1 else seen)"
proof (cases "\<not> ENABLE_CDC_DEBUG cfg \<or> length pkt < 2")
  case True
  then show ?thesis by (auto simp: log_hci_event_def adv_event_def)
next
  case False
  then have len: "2 \<le> length pkt" by simp
  show ?thesis
  proof (cases "pkt ! 0 = 0x3e")
    case True
    with False have "log_hci_event cfg prefix pkt seen = log_le_event prefix pkt seen"
      by (simp add: log_hci_event_def)
    with log_le_event_reads [OF len] False show ?thesis by simp
  next
    case other: False
    then have "\<not> adv_event pkt" by (simp add: adv_event_def)
    with log_le_event_reads [OF len, of prefix seen] False show ?thesis
      by (simp add: log_hci_event_def debug_line_def log_simps)
  qed
qed

text \<open>
  C38: The bridge's debug output reads no byte outside the packet it reports on, whatever the
  packet's type, length and contents and whatever the build; and the counter of advertising
  reports counts exactly the LE advertising and extended advertising events.
\<close>

theorem bridge_log_safe:
  "(\<exists>l. log_acl_packet cfg acl_debug prefix pkt = Some l) \<and>
   (\<exists>l. log_hci_command cfg prefix q pkt = Some l) \<and>
   (\<exists>l. log_hci_event cfg prefix pkt seen =
      Some (l, if ENABLE_CDC_DEBUG cfg \<and> adv_event pkt then seen + 1 else seen))"
  using log_acl_packet_reads log_hci_command_reads log_hci_event_reads by blast

end
