(* ===== verification/Usb_Descriptors.thy ===== *)
theory Usb_Descriptors
  imports Platform
begin

text \<open>
  \<open>src/usb_descriptors.c\<close>: what the firmware tells the PC it is. The descriptors are built from
  TinyUSB's macros and constants, which are parameters; the strings are the firmware's own.
\<close>

section \<open>TinyUSB\<close>

text \<open>
  A macro that expands to the bytes of a descriptor is a function of its arguments, in their
  order; \<open>CFG_TUD_HID_EP_BUFSIZE\<close> and the like are settings of \<open>tusb_config.h\<close>.
\<close>

record usb_macros =
  TUD_CONFIG_DESC_LEN :: nat
  TUD_BTH_DESC_LEN :: nat
  TUD_HID_DESC_LEN :: nat
  TUD_CDC_DESC_LEN :: nat
  TUD_CONFIG_DESCRIPTOR :: "nat list \<Rightarrow> bytes"
  TUD_BTH_DESCRIPTOR :: "nat list \<Rightarrow> bytes"
  TUD_HID_DESCRIPTOR :: "nat list \<Rightarrow> bytes"
  TUD_CDC_DESCRIPTOR :: "nat list \<Rightarrow> bytes"
  TUD_HID_REPORT_DESC_KEYBOARD :: bytes
  HID_ITF_PROTOCOL_KEYBOARD :: nat
  TUSB_DESC_CONFIG_ATT_REMOTE_WAKEUP :: nat
  TUSB_DESC_STRING :: u16
  TUSB_DESC_DEVICE :: u8
  sizeof_tusb_desc_device :: u8
  TUSB_CLASS_MISC :: u8
  MISC_SUBCLASS_COMMON :: u8
  MISC_PROTOCOL_IAD :: u8
  TUSB_CLASS_WIRELESS_CONTROLLER :: u8
  TUD_BT_APP_SUBCLASS :: u8
  TUD_BT_PROTOCOL_PRIMARY_CONTROLLER :: u8

text \<open>
  The documented behaviour: a macro gives as many bytes as its length constant says, and the
  configuration header carries the total length it is given, low byte first, and the number
  of interfaces.
\<close>

definition usb_macros_ok :: "usb_macros \<Rightarrow> bool" where
  "usb_macros_ok m \<longleftrightarrow>
     (\<forall>as. length (TUD_CONFIG_DESCRIPTOR m as) = TUD_CONFIG_DESC_LEN m) \<and>
     (\<forall>as. length (TUD_BTH_DESCRIPTOR m as) = TUD_BTH_DESC_LEN m) \<and>
     (\<forall>as. length (TUD_HID_DESCRIPTOR m as) = TUD_HID_DESC_LEN m) \<and>
     (\<forall>as. length (TUD_CDC_DESCRIPTOR m as) = TUD_CDC_DESC_LEN m) \<and>
     5 \<le> TUD_CONFIG_DESC_LEN m \<and>
     (\<forall>c n str total att power. let d = TUD_CONFIG_DESCRIPTOR m [c, n, str, total, att, power] in
        d ! 2 = of_nat total \<and> d ! 3 = of_nat (total div 256) \<and> d ! 4 = of_nat n)"

abbreviation (input) CFG_TUD_ENDPOINT0_SIZE :: nat where "CFG_TUD_ENDPOINT0_SIZE \<equiv> 64"
abbreviation (input) CFG_TUD_HID_EP_BUFSIZE :: nat where "CFG_TUD_HID_EP_BUFSIZE \<equiv> 8"
abbreviation (input) CFG_TUD_BTH_EVENT_EPSIZE :: nat where "CFG_TUD_BTH_EVENT_EPSIZE \<equiv> 16"
abbreviation (input) CFG_TUD_BTH_DATA_EPSIZE :: nat where "CFG_TUD_BTH_DATA_EPSIZE \<equiv> 64"

section \<open>Numbers\<close>

abbreviation (input) USB_VID :: u16 where "USB_VID \<equiv> 0xcafe"
abbreviation (input) USB_PID :: u16 where "USB_PID \<equiv> 0x4017"
abbreviation (input) USB_BCD :: u16 where "USB_BCD \<equiv> 0x0100"

text \<open>The interfaces and the strings, numbered by what is built in.\<close>

abbreviation (input) ITF_NUM_BTH :: nat where "ITF_NUM_BTH \<equiv> 0"
abbreviation (input) ITF_NUM_BTH_ISO :: nat where "ITF_NUM_BTH_ISO \<equiv> 1"
abbreviation (input) ITF_NUM_HID :: nat where "ITF_NUM_HID \<equiv> 2"

definition ITF_NUM_CDC :: "build_config \<Rightarrow> nat" where
  "ITF_NUM_CDC cfg = (if ENABLE_STANDBY_HID_KEYBOARD cfg then 3 else 2)"

definition ITF_NUM_TOTAL :: "build_config \<Rightarrow> nat" where
  "ITF_NUM_TOTAL cfg = ITF_NUM_CDC cfg + (if ENABLE_CDC_DEBUG cfg then 2 else 0)"

abbreviation (input) STR_LANGID :: nat where "STR_LANGID \<equiv> 0"
abbreviation (input) STR_MANUFACTURER :: nat where "STR_MANUFACTURER \<equiv> 1"
abbreviation (input) STR_PRODUCT :: nat where "STR_PRODUCT \<equiv> 2"
abbreviation (input) STR_SERIAL :: nat where "STR_SERIAL \<equiv> 3"
abbreviation (input) STR_BTH :: nat where "STR_BTH \<equiv> 4"
abbreviation (input) STR_HID :: nat where "STR_HID \<equiv> 5"

definition STR_CDC :: "build_config \<Rightarrow> nat" where
  "STR_CDC cfg = (if ENABLE_STANDBY_HID_KEYBOARD cfg then 6 else 5)"

abbreviation (input) EPNUM_BTH_EVENT :: nat where "EPNUM_BTH_EVENT \<equiv> 0x81"
abbreviation (input) EPNUM_BTH_ACL_IN :: nat where "EPNUM_BTH_ACL_IN \<equiv> 0x82"
abbreviation (input) EPNUM_BTH_ACL_OUT :: nat where "EPNUM_BTH_ACL_OUT \<equiv> 0x02"
abbreviation (input) EPNUM_HID :: nat where "EPNUM_HID \<equiv> 0x86"
abbreviation (input) EPNUM_CDC_NOTIF :: nat where "EPNUM_CDC_NOTIF \<equiv> 0x84"
abbreviation (input) EPNUM_CDC_OUT :: nat where "EPNUM_CDC_OUT \<equiv> 0x04"
abbreviation (input) EPNUM_CDC_IN :: nat where "EPNUM_CDC_IN \<equiv> 0x85"

section \<open>The descriptors\<close>

record tusb_desc_device =
  bLength :: u8
  bDescriptorType :: u8
  bcdUSB :: u16
  bDeviceClass :: u8
  bDeviceSubClass :: u8
  bDeviceProtocol :: u8
  bMaxPacketSize0 :: u8
  idVendor :: u16
  idProduct :: u16
  bcdDevice :: u16
  iManufacturer :: nat
  iProduct :: nat
  iSerialNumber :: nat
  bNumConfigurations :: u8

definition tud_descriptor_device_cb :: "build_config \<Rightarrow> usb_macros \<Rightarrow> tusb_desc_device" where
  "tud_descriptor_device_cb cfg m =
     (let misc = ENABLE_CDC_DEBUG cfg \<or> ENABLE_STANDBY_HID_KEYBOARD cfg in
      \<lparr>bLength = sizeof_tusb_desc_device m, bDescriptorType = TUSB_DESC_DEVICE m, bcdUSB = 0x0200,
       bDeviceClass = (if misc then TUSB_CLASS_MISC m else TUSB_CLASS_WIRELESS_CONTROLLER m),
       bDeviceSubClass = (if misc then MISC_SUBCLASS_COMMON m else TUD_BT_APP_SUBCLASS m),
       bDeviceProtocol = (if misc then MISC_PROTOCOL_IAD m else TUD_BT_PROTOCOL_PRIMARY_CONTROLLER m),
       bMaxPacketSize0 = of_nat CFG_TUD_ENDPOINT0_SIZE, idVendor = USB_VID, idProduct = USB_PID,
       bcdDevice = USB_BCD, iManufacturer = STR_MANUFACTURER, iProduct = STR_PRODUCT,
       iSerialNumber = STR_SERIAL, bNumConfigurations = 1\<rparr>)"

definition CONFIG_TOTAL_LEN :: "build_config \<Rightarrow> usb_macros \<Rightarrow> nat" where
  "CONFIG_TOTAL_LEN cfg m =
     TUD_CONFIG_DESC_LEN m + TUD_BTH_DESC_LEN m +
     (if ENABLE_STANDBY_HID_KEYBOARD cfg then TUD_HID_DESC_LEN m else 0) +
     (if ENABLE_CDC_DEBUG cfg then TUD_CDC_DESC_LEN m else 0)"

definition tud_hid_descriptor_report_cb :: "usb_macros \<Rightarrow> bytes" where
  "tud_hid_descriptor_report_cb m = TUD_HID_REPORT_DESC_KEYBOARD m"

definition tud_descriptor_configuration_cb :: "build_config \<Rightarrow> usb_macros \<Rightarrow> bytes" where
  "tud_descriptor_configuration_cb cfg m =
     TUD_CONFIG_DESCRIPTOR m [1, ITF_NUM_TOTAL cfg, 0, CONFIG_TOTAL_LEN cfg m,
       if ENABLE_STANDBY_HID_KEYBOARD cfg then TUSB_DESC_CONFIG_ATT_REMOTE_WAKEUP m else 0, 100] @
     TUD_BTH_DESCRIPTOR m [ITF_NUM_BTH, STR_BTH, EPNUM_BTH_EVENT, CFG_TUD_BTH_EVENT_EPSIZE, 1,
       EPNUM_BTH_ACL_IN, EPNUM_BTH_ACL_OUT, CFG_TUD_BTH_DATA_EPSIZE, 9] @
     (if ENABLE_STANDBY_HID_KEYBOARD cfg
      then TUD_HID_DESCRIPTOR m [ITF_NUM_HID, STR_HID, HID_ITF_PROTOCOL_KEYBOARD m,
             length (tud_hid_descriptor_report_cb m), EPNUM_HID, CFG_TUD_HID_EP_BUFSIZE, 10] else []) @
     (if ENABLE_CDC_DEBUG cfg
      then TUD_CDC_DESCRIPTOR m [ITF_NUM_CDC cfg, STR_CDC cfg, EPNUM_CDC_NOTIF, 8,
             EPNUM_CDC_OUT, EPNUM_CDC_IN, 64] else [])"

section \<open>The strings\<close>

text \<open>\<open>None\<close> is a null pointer: the array names no string at index 0.\<close>

definition string_desc_arr :: "build_config \<Rightarrow> string option list" where
  "string_desc_arr cfg =
     [None, Some ''Codex'', Some ''Pico USB Bluetooth HCI Wake'', Some ''0009'', Some ''Bluetooth HCI''] @
     (if ENABLE_STANDBY_HID_KEYBOARD cfg then [Some ''Standby Wake Keyboard''] else []) @
     (if ENABLE_CDC_DEBUG cfg then [Some ''Debug''] else [])"

text \<open>The copying loop; \<open>None\<close> is a write outside the buffer.\<close>

fun copy_chars :: "string \<Rightarrow> nat \<Rightarrow> u16 list \<Rightarrow> (nat \<times> u16 list) option" where
  "copy_chars [] n d = Some (n, d)"
| "copy_chars (c # cs) n d =
     (if n < 31 then do { d \<leftarrow> wr d (1 + n) (of_char c); copy_chars cs (n + 1) d } else Some (n, d))"

text \<open>
  The callback, with the static buffer \<open>desc_str\<close>: the pointer returned, as the buffer's
  contents, and the buffer.
\<close>

definition tud_descriptor_string_cb ::
    "build_config \<Rightarrow> usb_macros \<Rightarrow> u8 \<Rightarrow> u16 list \<Rightarrow> (u16 list option \<times> u16 list) option" where
  "tud_descriptor_string_cb cfg m index desc_str =
     (let finish = (\<lambda>(chr_count, d). do {
            d \<leftarrow> wr d 0 (push_bit 8 (TUSB_DESC_STRING m) OR of_nat (2 * chr_count + 2));
            Some (Some d, d)
          }) in
      if unat index = STR_LANGID
      then do { d \<leftarrow> wr desc_str 1 0x0409; finish (1, d) }
      else if unat index \<ge> length (string_desc_arr cfg) then Some (None, desc_str)
      else case string_desc_arr cfg ! unat index of
          None \<Rightarrow> Some (None, desc_str)
        | Some str \<Rightarrow> Option.bind (copy_chars str 0 desc_str) finish)"

section \<open>Consistency\<close>

text \<open>The characters of the string with an index.\<close>

definition usb_string :: "build_config \<Rightarrow> nat \<Rightarrow> u16 list option" where
  "usb_string cfg i =
     (if i = 0 then Some [0x0409]
      else if i < length (string_desc_arr cfg) then map_option (map of_char) (string_desc_arr cfg ! i)
      else None)"

lemma copy_chars_spec:
  "n + length cs \<le> 31 \<Longrightarrow> length d = 64 \<Longrightarrow>
   copy_chars cs n d = Some (n + length cs, take (1 + n) d @ map of_char cs @ drop (1 + n + length cs) d)"
proof (induction cs arbitrary: n d)
  case Nil
  then show ?case by simp
next
  case (Cons c cs)
  have "copy_chars (c # cs) n d = copy_chars cs (n + 1) (d[1 + n := of_char c])"
    using Cons.prems by (simp add: wr_def)
  also have "\<dots> = Some (n + 1 + length cs,
      take (1 + (n + 1)) (d[1 + n := of_char c]) @ map of_char cs @
      drop (1 + (n + 1) + length cs) (d[1 + n := of_char c]))"
    using Cons.prems by (intro Cons.IH) simp_all
  also have "take (1 + (n + 1)) (d[1 + n := of_char c]) = take (1 + n) d @ [of_char c]"
    using Cons.prems by (simp add: take_Suc_conv_app_nth)
  finally show ?case by simp
qed

lemma strings_fit:
  "i < length (string_desc_arr cfg) \<Longrightarrow> string_desc_arr cfg ! i = Some s \<Longrightarrow> length s \<le> 31"
  by (auto simp: string_desc_arr_def nth_Cons nth_append split: nat.splits if_splits)

text \<open>
  C39: A string descriptor is built inside its 64-word buffer for every index. The indices of the
  language and of the strings built in give a descriptor whose first word carries its size in
  bytes and whose next words are the whole string; every other index gives a null pointer.
\<close>

theorem usb_string_descriptor:
  assumes "length d = 64"
  shows "\<exists>d'. length d' = 64 \<and> tud_descriptor_string_cb cfg m index d =
    (case usb_string cfg (unat index) of None \<Rightarrow> Some (None, d) | Some ws \<Rightarrow> Some (Some d', d')) \<and>
    (\<forall>ws. usb_string cfg (unat index) = Some ws \<longrightarrow>
       take (1 + length ws) d' = (push_bit 8 (TUSB_DESC_STRING m) OR of_nat (2 * length ws + 2)) # ws)"
proof -
  let ?w = "\<lambda>n. push_bit 8 (TUSB_DESC_STRING m) OR of_nat (2 * n + 2)"
  consider (lang) "unat index = 0" | (none) "usb_string cfg (unat index) = None" "unat index \<noteq> 0"
    | (str) s where "unat index \<noteq> 0" "unat index < length (string_desc_arr cfg)"
        "string_desc_arr cfg ! unat index = Some s"
    by (cases "unat index = 0"; cases "usb_string cfg (unat index)") (auto simp: usb_string_def split: if_splits)
  then show ?thesis
  proof cases
    case lang
    obtain x y rest where d: "d = x # y # rest" using assms by (cases d; cases "tl d") auto
    from lang assms show ?thesis
      by (intro exI [of _ "?w 1 # 0x0409 # rest"])
         (simp add: tud_descriptor_string_cb_def wr_def usb_string_def d)
  next
    case none
    then show ?thesis
      by (intro exI [of _ d])
         (auto simp: tud_descriptor_string_cb_def usb_string_def assms split: if_splits option.splits)
  next
    case (str s)
    have len: "length s \<le> 31" by (rule strings_fit [OF str(2,3)])
    let ?d = "take 1 d @ map of_char s @ drop (1 + length s) d"
    have c: "copy_chars s 0 d = Some (length s, ?d)"
      using copy_chars_spec [of 0 s d] len assms by simp
    have "length ?d = 64" "?d \<noteq> []" using len assms by auto
    moreover obtain x rest where "d = x # rest" using assms by (cases d) auto
    ultimately show ?thesis
      using str c len assms
      by (intro exI [of _ "?d[0 := ?w (length s)]"])
         (auto simp: tud_descriptor_string_cb_def wr_def usb_string_def)
  qed
qed

text \<open>Macros in the shape of the USB specification, for the witnesses.\<close>

definition spec_macros :: usb_macros where
  "spec_macros =
     \<lparr>TUD_CONFIG_DESC_LEN = 9, TUD_BTH_DESC_LEN = 39, TUD_HID_DESC_LEN = 25, TUD_CDC_DESC_LEN = 66,
      TUD_CONFIG_DESCRIPTOR = (\<lambda>as. [9, 2, of_nat (as ! 3), of_nat (as ! 3 div 256), of_nat (as ! 1),
        of_nat (as ! 0), of_nat (as ! 2), of_nat (as ! 4), of_nat (as ! 5)]),
      TUD_BTH_DESCRIPTOR = (\<lambda>_. replicate 39 0), TUD_HID_DESCRIPTOR = (\<lambda>_. replicate 25 0),
      TUD_CDC_DESCRIPTOR = (\<lambda>_. replicate 66 0), TUD_HID_REPORT_DESC_KEYBOARD = replicate 67 0,
      HID_ITF_PROTOCOL_KEYBOARD = 1, TUSB_DESC_CONFIG_ATT_REMOTE_WAKEUP = 32, TUSB_DESC_STRING = 3,
      TUSB_DESC_DEVICE = 1, sizeof_tusb_desc_device = 18, TUSB_CLASS_MISC = 0xef, MISC_SUBCLASS_COMMON = 2,
      MISC_PROTOCOL_IAD = 1, TUSB_CLASS_WIRELESS_CONTROLLER = 0xe0, TUD_BT_APP_SUBCLASS = 1,
      TUD_BT_PROTOCOL_PRIMARY_CONTROLLER = 1\<rparr>"

theorem usb_string_descriptor_witness:
  "\<exists>d'. tud_descriptor_string_cb default_config spec_macros 3 (replicate 64 0) = Some (Some d', d') \<and>
     take 5 d' = (push_bit 8 (TUSB_DESC_STRING spec_macros) OR 10) # [0x30, 0x30, 0x30, 0x39]"
proof -
  have s: "usb_string default_config (unat (3 :: u8)) = Some [0x30, 0x30, 0x30, 0x39]"
    by (simp add: usb_string_def string_desc_arr_def of_char_def)
  obtain d' where "tud_descriptor_string_cb default_config spec_macros 3 (replicate 64 0) =
      (case usb_string default_config (unat (3 :: u8)) of None \<Rightarrow> Some (None, replicate 64 0) | Some ws \<Rightarrow> Some (Some d', d'))"
    and t: "\<forall>ws. usb_string default_config (unat (3 :: u8)) = Some ws \<longrightarrow>
       take (1 + length ws) d' = (push_bit 8 (TUSB_DESC_STRING spec_macros) OR of_nat (2 * length ws + 2)) # ws"
    using usb_string_descriptor [of "replicate 64 0" default_config spec_macros 3] by (metis length_replicate)
  moreover have "take 5 d' = (push_bit 8 (TUSB_DESC_STRING spec_macros) OR 10) # [0x30, 0x30, 0x30, 0x39]"
    using t s by (simp add: numeral_eq_Suc)
  ultimately show ?thesis using s by simp
qed



end
