(* ===== verification/Spec2Isabelle.thy ===== *)
theory Spec2Isabelle
  imports Firmware_Transports Firmware_Keyboard Bridge_Quirk Bridge_Log Usb_Descriptors
begin

text \<open>
  The firmware of a USB Bluetooth dongle that also wakes its PC (Raspberry Pi Pico 2 W, C). While
  the PC is on, the dongle passes HCI packets between USB and the Bluetooth controller; while it
  is off, the firmware runs the controller itself, scans, and presses the PC's power button
  or a key when a known device calls. This development models the C files of \<open>src/\<close> and
  \<open>include/\<close> function by function and proves what makes them correct.

  \<^bold>\<open>The program and the theories.\<close> Names of functions and variables are those of the code.

  \<^item> \<open>Prelude\<close>: the C integers as words, little-endian reads, and buffer accesses that are
    \<open>None\<close> outside the buffer. \<open>Platform\<close>: the build options of \<open>CMakeLists.txt\<close> and
    \<open>board_config.h\<close> as a record, and the SDK's clock. \<open>Hci_Packet\<close>: \<open>hci_packet.h\<close>.
  \<^item> \<open>H4_Parser\<close>: \<open>h4_parser.c\<close>, the framing of packets on a UART. No byte stream leads to
    an access outside a buffer; what was framed is delivered; what happens to lengths that do not fit.
  \<^item> \<open>Fifo\<close>, \<open>Hci_Queue\<close>: the packet queues of \<open>usb_bth_bridge.c\<close>, an instance of the
    locale \<open>bounded_fifo\<close>. \<open>Usb_Bridge\<close>: the rest of that file, the reassembly of ACL
    transfers, the quirks of the CYW43, the task and TinyUSB's callbacks. \<open>Bridge_Quirk\<close>: what
    the quirks make of a command and its completion. \<open>Bridge_Log\<close>: the log helpers.
  \<^item> \<open>Hid_Wake\<close>: \<open>usb_hid_wake.c\<close>, the standby keyboard as a state machine with its reports.
  \<^item> \<open>Power_Supervisor\<close>: \<open>power_supervisor.c\<close>. \<open>Power_Safety\<close>: its runs
    (\<open>power_step\<close>) and their invariants. \<open>Power_Properties\<close>: what they give.
  \<^item> \<open>Lru\<close>: the locale \<open>lru_memory\<close> of a bounded memory in order of use.
    \<open>Wake_Peers\<close>, \<open>Wake_Store\<close>: the peer list of \<open>wake_policy.c\<close>, which implements it, and
    its image in flash. \<open>Wake_Policy\<close>: the advertisement parsers and the wake decision.
    \<open>Wake_Match\<close>: the parsers against a grammar, through the locale \<open>report_decision\<close> for the
    two kinds of reports. \<open>Wake_Properties\<close>: the decision against its specification.
  \<^item> \<open>Hci_Host\<close>: \<open>hci_host_minimal.c\<close>, the HCI host of standby. \<open>Hci_Transport\<close>: the
    interface \<open>hci_transport_t\<close> as the locale \<open>hci_transport\<close>.
  \<^item> \<open>Backend_Esp32\<close>, \<open>Backend_Cyw43\<close>, \<open>Backend_Stub\<close>: the three transports
    (\<open>backend_esp32_uart.c\<close>, \<open>backend_cyw43.c\<close>, \<open>backend_stub.c\<close>).
  \<^item> \<open>Bootsel\<close>: \<open>bootsel_button.c\<close>. \<open>Debug_Log\<close>: \<open>debug_log.c\<close>, the log ring and the
    debug commands. \<open>Usb_Descriptors\<close>: \<open>usb_descriptors.c\<close>.
  \<^item> \<open>Firmware\<close>: \<open>main.c\<close>, the receive callback, the modes and the loop, over all the
    components. \<open>Firmware_Safety\<close>, \<open>Firmware_Loop\<close>: the invariant, part by part and over a pass.
    \<open>Firmware_Properties\<close>: the runs, and from a packet to the power button.
    \<open>Firmware_Transports\<close>: the transports meet the interface the loop is proved against.
    \<open>Firmware_Keyboard\<close>: the keyboard while the PC is on.

  \<^bold>\<open>How they interact.\<close> The loop polls the transport; the transport calls \<open>backend_rx\<close> with each
  packet, which hands it to the bridge or to the standby host and the wake decision; that one
  asks the power supervisor for a wake; the supervisor's state decides the mode of the loop. A
  component that calls another gets it as a parameter acting on an opaque state, and the theories
  \<open>Firmware\<close> and \<open>Firmware_Transports\<close> put the models of the others in its place.
\<close>

text \<open>
  \<^bold>\<open>State and failure.\<close> The static variables of a file are a record, a function of the file takes
  and returns it. \<open>None\<close> is an access outside a buffer or a loop that does not end
  (\<open>partial_function\<close>), so a theorem that gives \<open>Some\<close> states memory safety and termination.
  No fuel is used. Preprocessor conditions are tests of the record of build options, so a theorem
  without hypothesis on it holds of every build.

  \<^bold>\<open>Time.\<close> The timer is a number of microseconds that only grows. A component is given the reading
  at which it runs. A poll of the transport from the loop takes at least a microsecond (\<open>timed\<close>), which is
  what makes the waits of the standby host end. The time the CYW43's driver spends moves the
  firmware's clock forward. Interrupts of the UART and the other core's part in the driver
  happen at polls and between passes.

  \<^bold>\<open>What is taken from outside.\<close> The SDK, TinyUSB, the CYW43 driver and the C library are
  parameters; where a proof needs what they promise, the promise is a named predicate, with an
  instance that satisfies it: \<open>pico_clock_ok\<close> (deadlines and comparisons agree with the
  timer), \<open>pico_flash_ok\<close> (erase and program act on the bytes they say), \<open>cyw43_driver_ok\<close> (a
  read fits the buffer it is given and takes time, the calls are recorded as made), \<open>usb_macros_ok\<close> (a descriptor macro gives as many bytes as
  its length constant says). Of the controller behind a transport nothing is assumed.

  \<^bold>\<open>Bounds.\<close> Those of the code: queues of 32 slots of which 31 are used, packets of at most
  2048 bytes, 16 peers, rings of 4096 bytes, 16-bit lengths that wrap where the C code's do.

  \<^bold>\<open>Not modelled.\<close> \<open>configure_system_clock\<close>, the delay at boot and the initialisation calls of the
  SDK, which have no state here; the empty class callbacks TinyUSB and BTstack require; the text
  \<open>printf\<close> makes of a format; the path of other components' log lines into the ring (their calls
  of \<open>debug_log\<close> change nothing but the log, whose own operations are modelled); the part of
  \<open>tusb_config.h\<close> that sizes TinyUSB; scripts and documents.

  \<^bold>\<open>Next.\<close> The log lines of the components into the ring; the completions of quirked commands over
  whole runs; the flow of a packet from USB to the UART across the loop.
\<close>

end
